(* ===== verification/Prelude.thy ===== *)
theory Prelude
  imports Main "HOL-Library.Word"
begin

text \<open>
  Shared vocabulary of the development: machine integers, byte strings, the byte-order
  helpers of Go's \<^verbatim>\<open>encoding/binary\<close>, slice copying, run-time panics, and the
  generic lemmas about them that the component theories use.

  Conventions.  A Go \<^verbatim>\<open>[]byte\<close> is a \<open>byte list\<close>; a Go \<^verbatim>\<open>string\<close> is an
  Isabelle \<open>string\<close>, whose characters are bytes too; \<^verbatim>\<open>[6]byte\<close> is the datatype
  \<open>mac\<close> of exactly six bytes; \<^verbatim>\<open>uint8/16/32\<close> are words, so that \<open>+\<close> and \<open>-\<close>
  wrap as they do in Go.  A run-time panic (index out of range, nil dereference) is the
  value \<open>Panic\<close> of the type \<open>'a go\<close>; an error that the code returns is the left
  injection of a sum.
\<close>

unbundle bit_operations_syntax

section \<open>Types\<close>

type_synonym byte = "8 word"
type_synonym u16 = "16 word"
type_synonym u32 = "32 word"

datatype 'a go = Ret 'a | Panic

primrec is_ret :: "'a go \<Rightarrow> bool" where
  "is_ret (Ret _) = True"
| "is_ret Panic = False"

primrec go_bind :: "'a go \<Rightarrow> ('a \<Rightarrow> 'b go) \<Rightarrow> 'b go" where
  "go_bind (Ret x) f = f x"
| "go_bind Panic f = Panic"

lemma go_bind_eq_Ret [simp]:
  "go_bind m f = Ret y \<longleftrightarrow> (\<exists>x. m = Ret x \<and> f x = Ret y)"
  by (cases m) auto

lemma is_ret_iff: "is_ret m \<longleftrightarrow> (\<exists>x. m = Ret x)"
  by (cases m) auto

section \<open>Errors\<close>

text \<open>\<^verbatim>\<open>m, err := ...; if err != nil { return 0, err }\<close>\<close>

definition err_bind :: "'e + 'a \<Rightarrow> ('a \<Rightarrow> 'e + 'b) \<Rightarrow> 'e + 'b" where
  "err_bind r f = (case r of Inl e \<Rightarrow> Inl e | Inr x \<Rightarrow> f x)"

lemma err_bind_simps [simp]: "err_bind (Inl e) f = Inl e" "err_bind (Inr x) f = f x"
  by (simp_all add: err_bind_def)

section \<open>Rule collections\<close>

text \<open>
  \<open>wire\<close> holds the defining equations of the wire-format encoders, so that
  \<open>simp add: wire\<close> evaluates an encoding down to its bytes; \<open>bytes\<close> holds the
  facts about byte-order conversion and slices.
\<close>

named_theorems wire "definitions of wire-format encoders"
named_theorems bytes "byte order and slices"

section \<open>Strings and byte slices\<close>

definition bytes_of_string :: "string \<Rightarrow> byte list" where
  "bytes_of_string s = map of_char s"

definition string_of_bytes :: "byte list \<Rightarrow> string" where
  "string_of_bytes b = map (\<lambda>w. char_of (unat w)) b"

lemma length_bytes_of_string [simp]: "length (bytes_of_string s) = length s"
  by (simp add: bytes_of_string_def)

lemma length_string_of_bytes [simp]: "length (string_of_bytes b) = length b"
  by (simp add: string_of_bytes_def)

lemma unat_byte_lt: "unat (w :: byte) < 256"
  using unsigned_less [of w] by simp

lemma unat_u16_lt: "unat (w :: u16) < 65536"
  using unsigned_less [of w] by simp

lemma unat_of_char_byte [simp]: "unat (of_char c :: byte) = of_char c"
proof -
  have "(of_char c :: byte) = word_of_nat (of_char c)"
    by (simp add: of_nat_of_char)
  moreover have "of_char c mod 256 = (of_char c :: nat)" by simp
  ultimately show ?thesis by (simp add: unat_of_nat)
qed

lemma string_of_bytes_of_string [simp]: "string_of_bytes (bytes_of_string s) = s"
  by (simp add: string_of_bytes_def bytes_of_string_def o_def)

lemma bytes_of_string_of_bytes [simp]: "bytes_of_string (string_of_bytes b) = b"
proof -
  have "of_char (char_of (unat w) :: char) = w" for w :: byte
  proof -
    have "unat w < 256" by (rule unat_byte_lt)
    then have "unat (of_char (char_of (unat w) :: char) :: byte) = unat w" by simp
    then show ?thesis by (simp only: word_unat_eq_iff)
  qed
  then show ?thesis by (simp add: string_of_bytes_def bytes_of_string_def o_def)
qed

lemma string_of_bytes_inject [simp]: "string_of_bytes a = string_of_bytes b \<longleftrightarrow> a = b"
  using bytes_of_string_of_bytes by metis

lemma bytes_of_string_append [simp]:
  "bytes_of_string (s @ t) = bytes_of_string s @ bytes_of_string t"
  by (simp add: bytes_of_string_def)

subsection \<open>MAC addresses: Go's [6]byte\<close>

datatype mac = Mac byte byte byte byte byte byte

primrec mac_bytes :: "mac \<Rightarrow> byte list" where
  "mac_bytes (Mac a b c d e f) = [a, b, c, d, e, f]"

text \<open>Go: \<^verbatim>\<open>var out [6]byte; copy(out[:], b[i:i+6])\<close> on a slice that long.\<close>

definition mac_at :: "byte list \<Rightarrow> nat \<Rightarrow> mac" where
  "mac_at b i = Mac (b ! i) (b ! (i+1)) (b ! (i+2)) (b ! (i+3)) (b ! (i+4)) (b ! (i+5))"

lemma length_mac_bytes [simp]: "length (mac_bytes m) = 6"
  by (cases m) simp

lemma mac_bytes_inject [simp]: "mac_bytes m = mac_bytes m' \<longleftrightarrow> m = m'"
  by (cases m; cases m') auto

subsection \<open>Copying into a slice\<close>

text \<open>
  \<open>put_at buf i src\<close> is the buffer after \<^verbatim>\<open>copy(buf[i:i+len(src)], src)\<close>; every
  use in the code has checked that the range lies inside the buffer.
\<close>

definition put_at :: "byte list \<Rightarrow> nat \<Rightarrow> byte list \<Rightarrow> byte list" where
  "put_at buf i src = take i buf @ src @ drop (i + length src) buf"

lemma length_put_at [simp]:
  "i + length src \<le> length buf \<Longrightarrow> length (put_at buf i src) = length buf"
  by (simp add: put_at_def)

lemma put_at_0: "put_at buf 0 src = src @ drop (length src) buf"
  by (simp add: put_at_def)

text \<open>Evaluation of writes on explicit lists, one cell at a time.\<close>

lemma put_at_eval:
  "put_at buf 0 [] = buf"
  "put_at (x # buf) 0 (y # src) = y # put_at buf 0 src"
  "put_at (x # buf) (Suc n) src = x # put_at buf n src"
  "put_at (x # buf) (numeral k) src = x # put_at buf (pred_numeral k) src"
  "(x # buf)[numeral k := y] = x # buf[pred_numeral k := y]"
  by (simp_all add: put_at_def numeral_eq_Suc)

lemma put_at_self: "length src = length buf \<Longrightarrow> put_at buf 0 src = src"
  by (simp add: put_at_def)

section \<open>Byte order (encoding/binary)\<close>

definition be16 :: "u16 \<Rightarrow> byte list" where
  "be16 w = [ucast (drop_bit 8 w), ucast w]"

definition be32 :: "u32 \<Rightarrow> byte list" where
  "be32 w = [ucast (drop_bit 24 w), ucast (drop_bit 16 w), ucast (drop_bit 8 w), ucast w]"

definition le16 :: "u16 \<Rightarrow> byte list" where
  "le16 w = [ucast w, ucast (drop_bit 8 w)]"

definition le32 :: "u32 \<Rightarrow> byte list" where
  "le32 w = [ucast w, ucast (drop_bit 8 w), ucast (drop_bit 16 w), ucast (drop_bit 24 w)]"

definition be16_at :: "byte list \<Rightarrow> nat \<Rightarrow> u16" where
  "be16_at b i = push_bit 8 (ucast (b ! i)) OR ucast (b ! (i+1))"

definition be32_at :: "byte list \<Rightarrow> nat \<Rightarrow> u32" where
  "be32_at b i = push_bit 24 (ucast (b ! i)) OR push_bit 16 (ucast (b ! (i+1)))
     OR push_bit 8 (ucast (b ! (i+2))) OR ucast (b ! (i+3))"

definition le32_at :: "byte list \<Rightarrow> nat \<Rightarrow> u32" where
  "le32_at b i = ucast (b ! i) OR push_bit 8 (ucast (b ! (i+1)))
     OR push_bit 16 (ucast (b ! (i+2))) OR push_bit 24 (ucast (b ! (i+3)))"

definition le16_at :: "byte list \<Rightarrow> nat \<Rightarrow> u16" where
  "le16_at b i = ucast (b ! i) OR push_bit 8 (ucast (b ! (i+1)))"

lemma length_be16 [simp]: "length (be16 w) = 2" by (simp add: be16_def)
lemma length_be32 [simp]: "length (be32 w) = 4" by (simp add: be32_def)
lemma length_le16 [simp]: "length (le16 w) = 2" by (simp add: le16_def)
lemma length_le32 [simp]: "length (le32 w) = 4" by (simp add: le32_def)

lemma join16 [bytes]:
  "push_bit 8 (ucast (ucast (drop_bit 8 w) :: byte)) OR ucast (ucast w :: byte) = (w :: u16)"
  by (rule bit_word_eqI) (auto simp: bit_simps)

lemma join16_le [bytes]:
  "ucast (ucast w :: byte) OR push_bit 8 (ucast (ucast (drop_bit 8 w) :: byte)) = (w :: u16)"
  by (rule bit_word_eqI) (auto simp: bit_simps)

lemma join32_bits:
  fixes w :: u32
  shows "bit (push_bit 24 (ucast (ucast (drop_bit 24 w) :: byte)) :: u32) n \<longleftrightarrow> 24 \<le> n \<and> bit w n"
    and "bit (push_bit 16 (ucast (ucast (drop_bit 16 w) :: byte)) :: u32) n
          \<longleftrightarrow> 16 \<le> n \<and> n < 24 \<and> bit w n"
    and "bit (push_bit 8 (ucast (ucast (drop_bit 8 w) :: byte)) :: u32) n
          \<longleftrightarrow> 8 \<le> n \<and> n < 16 \<and> bit w n"
    and "bit (ucast (ucast w :: byte) :: u32) n \<longleftrightarrow> n < 8 \<and> bit w n"
  using bit_imp_le_length [of w n] by (auto simp: bit_simps)

lemma join32 [bytes]:
  "push_bit 24 (ucast (ucast (drop_bit 24 w) :: byte)) OR
     (push_bit 16 (ucast (ucast (drop_bit 16 w) :: byte)) OR
       (push_bit 8 (ucast (ucast (drop_bit 8 w) :: byte)) OR ucast (ucast w :: byte))) = (w :: u32)"
  by (rule bit_word_eqI) (auto simp: bit_or_iff join32_bits)

lemma join32_le [bytes]:
  "ucast (ucast w :: byte) OR
     (push_bit 8 (ucast (ucast (drop_bit 8 w) :: byte)) OR
       (push_bit 16 (ucast (ucast (drop_bit 16 w) :: byte)) OR
         push_bit 24 (ucast (ucast (drop_bit 24 w) :: byte)))) = (w :: u32)"
  by (rule bit_word_eqI) (auto simp: bit_or_iff join32_bits)

lemma nth_append_add: "xs' = xs @ ys \<Longrightarrow> n = length xs \<Longrightarrow> xs' ! (n + k) = ys ! k"
  by (simp add: nth_append)

lemma be16_at_append [bytes]:
  "length xs = n \<Longrightarrow> be16_at (xs @ be16 w @ ys) n = w"
  by (auto simp: be16_at_def be16_def nth_append join16)

lemma be32_at_append [bytes]:
  "length xs = n \<Longrightarrow> be32_at (xs @ be32 w @ ys) n = w"
  by (auto simp: be32_at_def be32_def nth_append nth_Cons' join32 or.assoc)

lemma le16_at_append [bytes]:
  "length xs = n \<Longrightarrow> le16_at (xs @ le16 w @ ys) n = w"
  by (auto simp: le16_at_def le16_def nth_append join16_le)

lemma le32_at_append [bytes]:
  "length xs = n \<Longrightarrow> le32_at (xs @ le32 w @ ys) n = w"
  by (auto simp: le32_at_def le32_def nth_append nth_Cons' join32_le or.assoc)

lemma be16_inject: "be16 v = be16 w \<longleftrightarrow> v = w"
proof
  assume "be16 v = be16 w"
  then have "be16_at ([] @ be16 v @ []) 0 = be16_at ([] @ be16 w @ []) 0" by simp
  then show "v = w" by (subst (asm) (1 2) be16_at_append) simp_all
qed simp

lemma be32_inject: "be32 v = be32 w \<longleftrightarrow> v = w"
proof
  assume "be32 v = be32 w"
  then have "be32_at ([] @ be32 v @ []) 0 = be32_at ([] @ be32 w @ []) 0" by simp
  then show "v = w" by (subst (asm) (1 2) be32_at_append) simp_all
qed simp

lemma be16_split: "\<exists>a b. be16 w = [a, b]"
  by (simp add: be16_def)

lemma be32_split: "\<exists>a b c d. be32 w = [a, b, c, d]"
  by (simp add: be32_def)

lemma be16_at_eq:
  assumes "xs ! i = ucast (drop_bit 8 w)" and "xs ! Suc i = ucast w"
  shows "be16_at xs i = w"
  using assms by (simp add: be16_at_def join16)

lemma unat_be16_at: "unat (be16_at b i) = 256 * unat (b ! i) + unat (b ! (i+1))"
proof -
  have top: "bit (w :: byte) n \<Longrightarrow> n < 8" for w n
    using bit_imp_le_length [of w n] by simp
  have "push_bit 8 (ucast (b ! i)) AND ucast (b ! (i+1)) = (0 :: u16)"
    by (rule bit_word_eqI) (use top [of "b ! (i+1)"] in \<open>force simp: bit_simps\<close>)
  then have "push_bit 8 (ucast (b ! i)) OR ucast (b ! (i+1))
      = push_bit 8 (ucast (b ! i) :: u16) + (ucast (b ! (i+1)) :: u16)"
    by (simp add: disjunctive_add_eq_or)
  moreover have "unat (ucast (b ! i) :: u16) = unat (b ! i)"
    and "unat (ucast (b ! (i+1)) :: u16) = unat (b ! (i+1))"
    by (simp_all add: unsigned_ucast_eq take_bit_nat_eq_self_iff order.strict_trans [OF unat_byte_lt])
  moreover have "unat (b ! i) < 256" "unat (b ! (i+1)) < 256"
    by (rule unat_byte_lt)+
  ultimately show ?thesis
    by (simp add: be16_at_def push_bit_eq_mult unat_word_ariths)
qed

section \<open>Lists\<close>

lemma length_eq_6: "length xs = 6 \<longleftrightarrow> (\<exists>a b c d e f. xs = [a, b, c, d, e, f])"
  by (auto simp: numeral_eq_Suc length_Suc_conv)

lemma split_at_length:
  "n \<le> length xs \<Longrightarrow> \<exists>ys zs. xs = ys @ zs \<and> length ys = n"
  by (rule exI [of _ "take n xs"], rule exI [of _ "drop n xs"]) simp

lemma take_append_length: "length xs = n \<Longrightarrow> take n (xs @ ys) = xs"
  and drop_append_length: "length xs = n \<Longrightarrow> drop n (xs @ ys) = ys"
  by auto

lemma put_at_append [bytes]:
  "length pre = n \<Longrightarrow> length old = length new \<Longrightarrow> put_at (pre @ old @ post) n new = pre @ new @ post"
  by (simp add: put_at_def)

lemma mac_at_append [bytes]:
  "length xs = n \<Longrightarrow> mac_at (xs @ mac_bytes m @ ys) n = m"
  by (cases m) (auto simp: mac_at_def nth_append nth_Cons')

section \<open>Decimal numerals (fmt's %d)\<close>

definition digit :: "nat \<Rightarrow> char" where
  "digit n = char_of (48 + n)"

fun decimal :: "nat \<Rightarrow> string" where
  "decimal n = (if n < 10 then [digit n] else decimal (n div 10) @ [digit (n mod 10)])"

declare decimal.simps [simp del]

section \<open>Framed records in a byte stream\<close>

text \<open>
  The interface shared by the wire formats of this program that put records one after
  another (control records, MNDP attributes): \<open>wire\<close> prints a record, \<open>parse\<close> reads a
  stream into records, \<open>ok\<close> says which records can be framed and \<open>fits\<close> which streams
  are short enough for the length fields.  The provider promises that one framed record at
  the front of a stream is read back; the client gets the same for a whole sequence.
\<close>

locale framing =
  fixes wire :: "'r \<Rightarrow> byte list"
    and parse :: "byte list \<Rightarrow> 'r list"
    and ok :: "'r \<Rightarrow> bool"
    and fits :: "byte list \<Rightarrow> bool"
  assumes parse_wire: "ok r \<Longrightarrow> fits (wire r @ rest) \<Longrightarrow> parse (wire r @ rest) = r # parse rest"
    and fits_suffix: "fits (xs @ ys) \<Longrightarrow> fits ys"
begin

lemma parse_concat:
  "\<forall>r \<in> set rs. ok r \<Longrightarrow> fits (concat (map wire rs) @ rest) \<Longrightarrow>
   parse (concat (map wire rs) @ rest) = rs @ parse rest"
proof (induction rs)
  case (Cons r rs)
  let ?tail = "concat (map wire rs) @ rest"
  have f: "fits (wire r @ ?tail)" using Cons.prems(2) by simp
  then have "parse (wire r @ ?tail) = r # parse ?tail"
    using Cons.prems(1) by (intro parse_wire) auto
  moreover have "parse ?tail = rs @ parse rest"
    using Cons.prems(1) fits_suffix [OF f] by (intro Cons.IH) auto
  ultimately show ?case by simp
qed simp

lemma parse_concat_prefix:
  assumes "\<forall>r \<in> set rs. ok r" and "fits (concat (map wire rs) @ rest)"
  shows "take (length rs) (parse (concat (map wire rs) @ rest)) = rs"
  by (simp add: parse_concat [OF assms])

end

section \<open>Buffered channels that drop\<close>

text \<open>
  The sends of this program that do not wait (\<^verbatim>\<open>select\<close> with a \<^verbatim>\<open>default\<close> case): the value
  goes into the buffer when there is room and is dropped otherwise.
\<close>

locale dropping_channel =
  fixes offer :: "'s \<Rightarrow> 'v \<Rightarrow> 's"
    and buffered :: "'s \<Rightarrow> 'v list"
    and room :: nat
  assumes offer_buffered:
    "buffered (offer s v) = (if length (buffered s) < room then buffered s @ [v] else buffered s)"
begin

lemma offer_bounded: "length (buffered s) \<le> room \<Longrightarrow> length (buffered (offer s v)) \<le> room"
  by (simp add: offer_buffered)

lemma offer_set: "set (buffered (offer s v)) \<subseteq> insert v (set (buffered s))"
  by (auto simp: offer_buffered)

lemma offers_keep_first:
  "length (buffered s) \<le> room \<Longrightarrow>
   buffered (foldl offer s vs) = buffered s @ take (room - length (buffered s)) vs"
proof (induction vs arbitrary: s)
  case (Cons v vs)
  then show ?case using offer_bounded [of s v] by (auto simp: offer_buffered take_Cons' Suc_diff_le)
qed simp

end

end
