(* ===== verification/Protocol.thy ===== *)
theory Protocol
  imports Prelude
begin

text \<open>
  \<^verbatim>\<open>src/internal/mactelnet/protocol.go\<close>: the 22-byte outer header, the 18-byte PING/PONG
  header, and the control records inside a DATA payload.  The encoders write into a
  caller's buffer and panic when it is too short (the bounds-check hoist), so they return
  the new buffer under \<open>go\<close>; \<open>encodeControl\<close> returns \<open>ErrShortControl\<close> instead.
\<close>

section \<open>Constants and types\<close>

definition udpPort :: u16 where "udpPort = 20561"
definition headerLen :: nat where "headerLen = 22"
definition pingHeaderLen :: nat where "pingHeaderLen = 18"
definition cpHeaderLen :: nat where "cpHeaderLen = 9"
definition maxPacket :: nat where "maxPacket = 1500"
definition protocolVersion :: byte where "protocolVersion = 1"

lemmas protocol_lens = headerLen_def pingHeaderLen_def cpHeaderLen_def maxPacket_def

text \<open>Packet types: Go's \<open>pType\<close> is a \<^verbatim>\<open>uint8\<close> with named constants.\<close>

type_synonym pType = "8 word"

definition pTypeSessionStart :: pType where "pTypeSessionStart = 0"
definition pTypeData :: pType where "pTypeData = 1"
definition pTypeAck :: pType where "pTypeAck = 2"
definition pTypePing :: pType where "pTypePing = 4"
definition pTypePong :: pType where "pTypePong = 5"
definition pTypeEnd :: pType where "pTypeEnd = 255"

lemmas pType_defs = pTypeSessionStart_def pTypeData_def pTypeAck_def pTypePing_def
  pTypePong_def pTypeEnd_def

text \<open>
  Control-record types: Go's \<open>cpType\<close> is an \<^verbatim>\<open>int8\<close>; the word is its two's
  complement, so \<open>cpTypePlainData = -1\<close> is the byte 255.
\<close>

type_synonym cpType = "8 word"

definition cpTypeBeginAuth :: cpType where "cpTypeBeginAuth = 0"
definition cpTypePassSalt :: cpType where "cpTypePassSalt = 1"
definition cpTypePassword :: cpType where "cpTypePassword = 2"
definition cpTypeUsername :: cpType where "cpTypeUsername = 3"
definition cpTypeTermType :: cpType where "cpTypeTermType = 4"
definition cpTypeTermWidth :: cpType where "cpTypeTermWidth = 5"
definition cpTypeTermHeight :: cpType where "cpTypeTermHeight = 6"
definition cpTypePacketError :: cpType where "cpTypePacketError = 7"
definition cpTypeEndAuth :: cpType where "cpTypeEndAuth = 9"
definition cpTypePlainData :: cpType where "cpTypePlainData = - 1"

lemmas cpType_defs = cpTypeBeginAuth_def cpTypePassSalt_def cpTypePassword_def
  cpTypeUsername_def cpTypeTermType_def cpTypeTermWidth_def cpTypeTermHeight_def
  cpTypePacketError_def cpTypeEndAuth_def cpTypePlainData_def

definition cpMagic :: "byte list" where "cpMagic = [0x56, 0x34, 0x12, 0xff]"
definition clientType :: "byte list" where "clientType = [0x00, 0x15]"

datatype direction = DirToServer | DirToClient

record header =
  hVersion :: byte
  hPType :: pType
  hSrcAddr :: mac
  hDstAddr :: mac
  hSessionKey :: u16
  hCounter :: u32

datatype mt_error = ErrShortHeader | ErrShortControl | ErrBadMagic

section \<open>The outer header\<close>

definition header_encode :: "header \<Rightarrow> byte list \<Rightarrow> direction \<Rightarrow> (byte list \<times> nat) go" where
  "header_encode h buf dir =
    (if length buf < headerLen then Panic
     else
       let buf = buf[0 := protocolVersion];
           buf = buf[1 := hPType h];
           buf = put_at buf 2 (mac_bytes (hSrcAddr h));
           buf = put_at buf 8 (mac_bytes (hDstAddr h));
           (seskeyOff, ctypeOff) = (case dir of DirToClient \<Rightarrow> (16, 14) | DirToServer \<Rightarrow> (14, 16));
           buf = put_at buf seskeyOff (be16 (hSessionKey h));
           buf = put_at buf ctypeOff clientType;
           buf = put_at buf 18 (be32 (hCounter h))
       in Ret (buf, headerLen))"

definition decodeHeader :: "byte list \<Rightarrow> direction \<Rightarrow> mt_error + header \<times> byte list" where
  "decodeHeader buf dir =
    (if length buf < headerLen then Inl ErrShortHeader
     else
       let seskeyOff = (case dir of DirToClient \<Rightarrow> 16 | DirToServer \<Rightarrow> 14)
       in Inr (\<lparr>hVersion = buf ! 0, hPType = buf ! 1,
                hSrcAddr = mac_at buf 2, hDstAddr = mac_at buf 8,
                hSessionKey = be16_at buf seskeyOff, hCounter = be32_at buf 18\<rparr>,
               drop headerLen buf))"

text \<open>The 22 bytes that the layout comment at the top of the source file describes.\<close>

definition header_wire :: "header \<Rightarrow> direction \<Rightarrow> byte list" where
  "header_wire h dir =
     [1, hPType h] @ mac_bytes (hSrcAddr h) @ mac_bytes (hDstAddr h) @
     (case dir of DirToServer \<Rightarrow> be16 (hSessionKey h) @ [0, 0x15]
      | DirToClient \<Rightarrow> [0, 0x15] @ be16 (hSessionKey h)) @ be32 (hCounter h)"

lemma length_header_wire [simp]: "length (header_wire h dir) = headerLen"
  by (cases dir) (simp_all add: header_wire_def headerLen_def)

text \<open>Any buffer of header size falls into the header's fields.\<close>

lemma header_segments:
  assumes "22 \<le> length (buf :: byte list)"
  obtains x y s d e f c where
    "buf = [x, y] @ s @ d @ e @ f @ c @ drop 22 buf"
    "length s = 6" "length d = 6" "length e = 2" "length f = 2" "length c = 4"
proof -
  define s d e f c where "s = take 6 (drop 2 buf)" and "d = take 6 (drop 8 buf)"
    and "e = take 2 (drop 14 buf)" and "f = take 2 (drop 16 buf)" and "c = take 4 (drop 18 buf)"
  obtain x y r where r: "buf = x # y # r"
    using assms by (cases buf; cases "tl buf") auto
  have "drop 16 buf = f @ drop 18 buf" unfolding f_def
    using append_take_drop_id [of 2 "drop 16 buf"] by simp
  moreover have "drop 18 buf = c @ drop 22 buf" unfolding c_def
    using append_take_drop_id [of 4 "drop 18 buf"] by simp
  moreover have "drop 14 buf = e @ drop 16 buf" unfolding e_def
    using append_take_drop_id [of 2 "drop 14 buf"] by simp
  moreover have "drop 8 buf = d @ drop 14 buf" unfolding d_def
    using append_take_drop_id [of 6 "drop 8 buf"] by simp
  moreover have "drop 2 buf = s @ drop 8 buf" unfolding s_def
    using append_take_drop_id [of 6 "drop 2 buf"] by simp
  moreover have "buf = [x, y] @ drop 2 buf" using r by simp
  ultimately have "buf = [x, y] @ s @ d @ e @ f @ c @ drop 22 buf" by metis
  moreover have "length s = 6" "length d = 6" "length e = 2" "length f = 2" "length c = 4"
    using assms by (simp_all add: s_def d_def e_def f_def c_def)
  ultimately show thesis by (rule that)
qed

text \<open>Writing each field of a header buffer replaces exactly that field.\<close>

lemma length_clientType [simp]: "length clientType = 2"
  by (simp add: clientType_def)

lemma put_header_fields:
  shows "length s = 6 \<Longrightarrow> put_at (v # p # s @ r) 2 (mac_bytes m) = v # p # mac_bytes m @ r"
    and "length d = 6 \<Longrightarrow> put_at (v # p # mac_bytes m @ d @ r) 8 (mac_bytes n)
           = v # p # mac_bytes m @ mac_bytes n @ r"
    and "length e = 2 \<Longrightarrow> length w = 2 \<Longrightarrow> put_at (v # p # mac_bytes m @ mac_bytes n @ e @ r) 14 w
           = v # p # mac_bytes m @ mac_bytes n @ w @ r"
    and "length e = 2 \<Longrightarrow> length f = 2 \<Longrightarrow> length w = 2 \<Longrightarrow>
         put_at (v # p # mac_bytes m @ mac_bytes n @ e @ f @ r) 16 w
           = v # p # mac_bytes m @ mac_bytes n @ e @ w @ r"
    and "length e = 2 \<Longrightarrow> length f = 2 \<Longrightarrow> length c = 4 \<Longrightarrow>
         put_at (v # p # mac_bytes m @ mac_bytes n @ e @ f @ c @ r) 18 (be32 k)
           = v # p # mac_bytes m @ mac_bytes n @ e @ f @ be32 k @ r"
  using put_at_append [of "[v, p]" 2 s "mac_bytes m" r]
    put_at_append [of "[v, p] @ mac_bytes m" 8 d "mac_bytes n" r]
    put_at_append [of "[v, p] @ mac_bytes m @ mac_bytes n" 14 e w r]
    put_at_append [of "[v, p] @ mac_bytes m @ mac_bytes n @ e" 16 f w r]
    put_at_append [of "[v, p] @ mac_bytes m @ mac_bytes n @ e @ f" 18 c "be32 k" r]
  by simp_all

lemma header_encode_segments:
  assumes "length s = 6" "length d = 6" "length e = 2" "length f = 2" "length c = 4"
  shows "header_encode h ([x, y] @ s @ d @ e @ f @ c @ r) dir = Ret (header_wire h dir @ r, headerLen)"
proof (cases dir)
  case DirToServer
  then show ?thesis
    by (simp add: assms header_encode_def headerLen_def put_header_fields)
      (simp add: header_wire_def clientType_def protocolVersion_def)
next
  case DirToClient
  then show ?thesis
    by (simp add: assms header_encode_def headerLen_def put_header_fields)
      (simp add: header_wire_def clientType_def protocolVersion_def)
qed

lemma header_encode_wire:
  assumes "headerLen \<le> length buf"
  shows "header_encode h buf dir = Ret (header_wire h dir @ drop headerLen buf, headerLen)"
proof -
  from assms have "22 \<le> length buf" by (simp add: headerLen_def)
  then obtain x y s d e f c where
    "buf = [x, y] @ s @ d @ e @ f @ c @ drop 22 buf"
    and l: "length s = 6" "length d = 6" "length e = 2" "length f = 2" "length c = 4"
    by (rule header_segments)
  then show ?thesis
    using header_encode_segments [OF l, of h x y "drop 22 buf" dir] by (simp add: headerLen_def)
qed

text \<open>Where each header field lies, in the shape the encoder produces.\<close>

lemma header_fields:
  shows "mac_at (v # p # mac_bytes m @ r) 2 = m"
    and "mac_at (v # p # mac_bytes s @ mac_bytes m @ r) 8 = m"
    and "be16_at (v # p # mac_bytes s @ mac_bytes d @ be16 k @ r) 14 = k"
    and "be16_at (v # p # mac_bytes s @ mac_bytes d @ x # y # be16 k @ r) 16 = k"
    and "be32_at (v # p # mac_bytes s @ mac_bytes d @ be16 k @ x # y # be32 n @ r) 18 = n"
    and "be32_at (v # p # mac_bytes s @ mac_bytes d @ x # y # be16 k @ be32 n @ r) 18 = n"
  using mac_at_append [of "[v, p]" 2 m r]
    mac_at_append [of "[v, p] @ mac_bytes s" 8 m r]
    be16_at_append [of "[v, p] @ mac_bytes s @ mac_bytes d" 14 k r]
    be16_at_append [of "[v, p] @ mac_bytes s @ mac_bytes d @ [x, y]" 16 k r]
    be32_at_append [of "[v, p] @ mac_bytes s @ mac_bytes d @ be16 k @ [x, y]" 18 n r]
    be32_at_append [of "[v, p] @ mac_bytes s @ mac_bytes d @ [x, y] @ be16 k" 18 n r]
  by simp_all

lemma decode_header_wire:
  "decodeHeader (header_wire h dir @ rest) dir = Inr (h\<lparr>hVersion := 1\<rparr>, rest)"
  by (cases dir; cases h) (simp_all add: decodeHeader_def header_wire_def headerLen_def header_fields)

section \<open>PING and PONG\<close>

text \<open>\<open>zero_fill buf i n\<close> is the loop \<^verbatim>\<open>for i := 14; i < pingHeaderLen; i++ { buf[i] = 0 }\<close>.\<close>

fun zero_fill :: "byte list \<Rightarrow> nat \<Rightarrow> nat \<Rightarrow> byte list" where
  "zero_fill buf i 0 = buf"
| "zero_fill buf i (Suc n) = zero_fill (buf[i := 0]) (Suc i) n"

definition encodePing :: "byte list \<Rightarrow> mac \<Rightarrow> mac \<Rightarrow> bool \<Rightarrow> (byte list \<times> nat) go" where
  "encodePing buf srcMAC dstMAC isPong =
    (if length buf < pingHeaderLen then Panic
     else
       let buf = buf[0 := protocolVersion];
           buf = (if isPong then buf[1 := pTypePong] else buf[1 := pTypePing]);
           buf = put_at buf 2 (mac_bytes srcMAC);
           buf = put_at buf 8 (mac_bytes dstMAC);
           buf = zero_fill buf 14 (pingHeaderLen - 14)
       in Ret (buf, pingHeaderLen))"

definition ping_wire :: "mac \<Rightarrow> mac \<Rightarrow> bool \<Rightarrow> byte list" where
  "ping_wire srcMAC dstMAC isPong =
     [1, if isPong then 5 else 4] @ mac_bytes srcMAC @ mac_bytes dstMAC @ [0, 0, 0, 0]"

lemma zero_fill_append:
  "length pre = i \<Longrightarrow> n \<le> length post \<Longrightarrow>
   zero_fill (pre @ post) i n = pre @ replicate n 0 @ drop n post"
proof (induction n arbitrary: pre post i)
  case (Suc n)
  then obtain z zs where post: "post = z # zs" by (cases post) auto
  have "zero_fill (pre @ post) i (Suc n) = zero_fill ((pre @ [0]) @ zs) (Suc i) n"
    using Suc.prems post by (simp add: list_update_append)
  also have "\<dots> = (pre @ [0]) @ replicate n 0 @ drop n zs"
    by (rule Suc.IH) (use Suc.prems post in auto)
  finally show ?case using post by (simp add: replicate_app_Cons_same)
qed simp

lemma ping_segments:
  assumes "18 \<le> length (buf :: byte list)"
  obtains x y s d e where
    "buf = [x, y] @ s @ d @ e @ drop 18 buf" "length s = 6" "length d = 6" "length e = 4"
proof -
  obtain x y r where r: "buf = x # y # r"
    using assms by (cases buf; cases "tl buf") auto
  have "drop 14 buf = take 4 (drop 14 buf) @ drop 18 buf"
    using append_take_drop_id [of 4 "drop 14 buf"] by simp
  moreover have "drop 8 buf = take 6 (drop 8 buf) @ drop 14 buf"
    using append_take_drop_id [of 6 "drop 8 buf"] by simp
  moreover have "drop 2 buf = take 6 (drop 2 buf) @ drop 8 buf"
    using append_take_drop_id [of 6 "drop 2 buf"] by simp
  moreover have "buf = [x, y] @ drop 2 buf" using r by simp
  ultimately have "buf = [x, y] @ take 6 (drop 2 buf) @ take 6 (drop 8 buf) @ take 4 (drop 14 buf) @ drop 18 buf"
    by metis
  then show thesis by (rule that) (use assms in simp_all)
qed

lemma encodePing_wire:
  assumes "pingHeaderLen \<le> length buf"
  shows "encodePing buf src dst isPong
    = Ret (ping_wire src dst isPong @ drop pingHeaderLen buf, pingHeaderLen)"
proof -
  from assms have "18 \<le> length buf" by (simp add: pingHeaderLen_def)
  then obtain x y s d e where b: "buf = [x, y] @ s @ d @ e @ drop 18 buf"
    and l: "length s = 6" "length d = 6" "length e = 4"
    by (rule ping_segments)
  have z: "zero_fill (v # p # mac_bytes src @ mac_bytes dst @ e @ r) 14 4
      = v # p # mac_bytes src @ mac_bytes dst @ [0, 0, 0, 0] @ r" for v p r
    using zero_fill_append [of "[v, p] @ mac_bytes src @ mac_bytes dst" 14 4 "e @ r"]
    by (simp add: l numeral_eq_Suc)
  have "encodePing ([x, y] @ s @ d @ e @ r) src dst isPong = Ret (ping_wire src dst isPong @ r, 18)" for r
    by (cases isPong) (simp_all add: encodePing_def pingHeaderLen_def l put_header_fields z
      ping_wire_def pTypePong_def pTypePing_def protocolVersion_def)
  from this [of "drop 18 buf"] show ?thesis
    using b by (simp add: pingHeaderLen_def)
qed

lemma length_ping_wire [simp]: "length (ping_wire s d p) = pingHeaderLen"
  by (simp add: ping_wire_def pingHeaderLen_def)

section \<open>Control records\<close>

text \<open>
  The result of \<open>encodeControl\<close> is the number of bytes written and the buffer after the
  call, or the error (the buffer is then untouched).
\<close>

definition encodeControl :: "byte list \<Rightarrow> cpType \<Rightarrow> byte list \<Rightarrow> mt_error + nat \<times> byte list" where
  "encodeControl buf ct body =
    (if ct = cpTypePlainData then
       (if length body > length buf then Inl ErrShortControl
        else Inr (length body, put_at buf 0 body))
     else
       let need = cpHeaderLen + length body in
       if need > length buf then Inl ErrShortControl
       else
         let buf = put_at buf 0 cpMagic;
             buf = buf[4 := ct];
             buf = put_at buf 5 (be32 (of_nat (length body)));
             buf = put_at buf cpHeaderLen body
         in Inr (need, buf))"

record controlRecord =
  crCPType :: cpType
  crBody :: "byte list"

text \<open>
  The walk over a payload.  The callback may change the state it works on and says whether
  to go on; the Go function returns nil in every case.
\<close>

function iterateControl :: "('s \<Rightarrow> controlRecord \<Rightarrow> bool \<times> 's) \<Rightarrow> 's \<Rightarrow> byte list \<Rightarrow> 's" where
  "iterateControl fn st payload =
    (if payload = [] then st
     else if length payload < cpHeaderLen \<or> take 4 payload \<noteq> cpMagic then
       snd (fn st \<lparr>crCPType = cpTypePlainData, crBody = payload\<rparr>)
     else
       let ct = payload ! 4;
           ln = be32_at payload 5;
           body = drop cpHeaderLen payload;
           ln = (if of_nat (length body) < ln then of_nat (length body) else ln)
       in case fn st \<lparr>crCPType = ct, crBody = take (unat ln) body\<rparr> of
            (goon, st') \<Rightarrow>
              if \<not> goon then st' else iterateControl fn st' (drop (unat ln) body))"
  by pat_completeness auto
termination
  by (relation "measure (\<lambda>(fn, st, payload). length payload)") (auto simp: cpHeaderLen_def)

declare iterateControl.simps [simp del]

text \<open>The same walk as a pure function: the list of the records it yields.\<close>

function controlRecords :: "byte list \<Rightarrow> controlRecord list" where
  "controlRecords payload =
    (if payload = [] then []
     else if length payload < cpHeaderLen \<or> take 4 payload \<noteq> cpMagic then
       [\<lparr>crCPType = cpTypePlainData, crBody = payload\<rparr>]
     else
       let ln = be32_at payload 5;
           body = drop cpHeaderLen payload;
           ln = (if of_nat (length body) < ln then of_nat (length body) else ln)
       in \<lparr>crCPType = payload ! 4, crBody = take (unat ln) body\<rparr> # controlRecords (drop (unat ln) body))"
  by pat_completeness auto
termination
  by (relation "measure length") (auto simp: cpHeaderLen_def)

declare controlRecords.simps [simp del]

fun foldWhile :: "('s \<Rightarrow> 'a \<Rightarrow> bool \<times> 's) \<Rightarrow> 's \<Rightarrow> 'a list \<Rightarrow> 's" where
  "foldWhile fn st [] = st"
| "foldWhile fn st (r # rs) = (case fn st r of (goon, st') \<Rightarrow> if goon then foldWhile fn st' rs else st')"

lemma iterateControl_foldWhile:
  "iterateControl fn st payload = foldWhile fn st (controlRecords payload)"
proof (induction fn st payload rule: iterateControl.induct)
  case (1 fn st payload)
  define body where "body = drop cpHeaderLen payload"
  define ln where "ln = (if of_nat (length body) < be32_at payload 5 then of_nat (length body)
    else be32_at payload 5)"
  show ?case
  proof (cases "payload = [] \<or> length payload < cpHeaderLen \<or> take 4 payload \<noteq> cpMagic")
    case True
    then show ?thesis
      by (subst iterateControl.simps, subst controlRecords.simps) (auto split: prod.splits)
  next
    case False
    then have ne: "(payload = []) = False"
      and framed: "(length payload < cpHeaderLen \<or> take 4 payload \<noteq> cpMagic) = False" by auto
    have "iterateControl fn st' (drop (unat ln) body) = foldWhile fn st' (controlRecords (drop (unat ln) body))"
      if "fn st \<lparr>crCPType = payload ! 4, crBody = take (unat ln) body\<rparr> = (True, st')" for st'
      by (rule 1 [OF _ _ refl refl refl refl, folded body_def, folded ln_def, OF _ _ that [symmetric]])
        (use False in auto)
    moreover have "controlRecords payload = \<lparr>crCPType = payload ! 4, crBody = take (unat ln) body\<rparr>
        # controlRecords (drop (unat ln) body)"
      by (subst controlRecords.simps) (simp only: ne framed if_False Let_def body_def ln_def)
    moreover have "iterateControl fn st payload =
        (case fn st \<lparr>crCPType = payload ! 4, crBody = take (unat ln) body\<rparr> of
           (goon, st') \<Rightarrow> if \<not> goon then st' else iterateControl fn st' (drop (unat ln) body))"
      by (subst iterateControl.simps) (simp only: ne framed if_False Let_def body_def ln_def)
    ultimately show ?thesis by (auto split: prod.splits)
  qed
qed

section \<open>What the encoders write, and what the walk reads back\<close>

definition control_wire :: "controlRecord \<Rightarrow> byte list" where
  "control_wire r =
    (if crCPType r = cpTypePlainData then crBody r
     else cpMagic @ [crCPType r] @ be32 (of_nat (length (crBody r))) @ crBody r)"

lemma length_cpMagic [simp]: "length cpMagic = 4"
  by (simp add: cpMagic_def)

lemma length_control_wire:
  "length (control_wire r) =
    (if crCPType r = cpTypePlainData then length (crBody r) else cpHeaderLen + length (crBody r))"
  by (simp add: control_wire_def cpHeaderLen_def)

lemma control_segments:
  assumes "9 + k \<le> length (buf :: byte list)"
  obtains m t l b where "buf = m @ [t] @ l @ b @ drop (9 + k) buf"
    "length m = 4" "length l = 4" "length b = k"
proof -
  have "drop 9 buf = take k (drop 9 buf) @ drop (9 + k) buf"
    using append_take_drop_id [of k "drop 9 buf"] by (simp add: add.commute)
  moreover have "drop 5 buf = take 4 (drop 5 buf) @ drop 9 buf"
    using append_take_drop_id [of 4 "drop 5 buf"] by simp
  moreover have "drop 4 buf = [buf ! 4] @ drop 5 buf"
    using assms Cons_nth_drop_Suc [of 4 buf] by simp
  moreover have "buf = take 4 buf @ drop 4 buf" by simp
  ultimately have "buf = take 4 buf @ [buf ! 4] @ take 4 (drop 5 buf) @ take k (drop 9 buf) @ drop (9 + k) buf"
    by metis
  then show thesis by (rule that) (use assms in simp_all)
qed

text \<open>
  Every branch of \<open>encodeControl\<close>: it fails, writing nothing, exactly when the record does
  not fit; otherwise it writes the record's wire form and leaves the rest of the buffer.
\<close>

lemma encodeControl_spec:
  "encodeControl buf ct body =
    (let w = control_wire \<lparr>crCPType = ct, crBody = body\<rparr>
     in if length w > length buf then Inl ErrShortControl
        else Inr (length w, w @ drop (length w) buf))"
proof (cases "ct = cpTypePlainData \<or> length buf < cpHeaderLen + length body")
  case True
  then show ?thesis
    by (auto simp: encodeControl_def control_wire_def put_at_0 Let_def cpHeaderLen_def)
next
  case False
  then have "9 + length body \<le> length buf" by (simp add: cpHeaderLen_def)
  then obtain m t l b where b: "buf = m @ [t] @ l @ b @ drop (9 + length body) buf"
    and len: "length m = 4" "length l = 4" "length b = length body"
    by (rule control_segments)
  define r where "r = drop (9 + length body) buf"
  let ?n = "be32 (of_nat (length body))"
  have b': "buf = m @ [t] @ l @ b @ r" using b by (simp only: r_def)
  have "put_at buf 0 cpMagic = cpMagic @ [t] @ l @ b @ r"
    using put_at_append [of "[]" 0 m cpMagic "[t] @ l @ b @ r"] by (simp add: b' len)
  moreover have "(cpMagic @ [t] @ l @ b @ r)[4 := ct] = cpMagic @ [ct] @ l @ b @ r"
    by (simp add: list_update_append)
  moreover have "put_at (cpMagic @ [ct] @ l @ b @ r) 5 ?n = cpMagic @ [ct] @ ?n @ b @ r"
    using put_at_append [of "cpMagic @ [ct]" 5 l ?n "b @ r"] by (simp add: len)
  moreover have "put_at (cpMagic @ [ct] @ ?n @ b @ r) cpHeaderLen body = cpMagic @ [ct] @ ?n @ body @ r"
    using put_at_append [of "cpMagic @ [ct] @ ?n" 9 b body r] by (simp add: len cpHeaderLen_def)
  ultimately have "encodeControl buf ct body
      = Inr (9 + length body, cpMagic @ [ct] @ ?n @ body @ r)"
    using False by (simp add: encodeControl_def Let_def cpHeaderLen_def)
  then show ?thesis
    using False by (simp add: control_wire_def Let_def cpHeaderLen_def r_def)
qed

text \<open>Go: \<^verbatim>\<open>encodeControl(buf[n:], ct, body)\<close>, the whole buffer after the call.\<close>

definition encodeControl_at ::
    "byte list \<Rightarrow> nat \<Rightarrow> cpType \<Rightarrow> byte list \<Rightarrow> mt_error + nat \<times> byte list" where
  "encodeControl_at buf n ct body =
    (case encodeControl (drop n buf) ct body of
       Inl e \<Rightarrow> Inl e
     | Inr (m, rest) \<Rightarrow> Inr (m, take n buf @ rest))"

lemma encodeControl_at_append:
  assumes "w = control_wire \<lparr>crCPType = ct, crBody = body\<rparr>"
  shows "encodeControl_at (pre @ post) (length pre) ct body =
    (if length w > length post then Inl ErrShortControl
     else Inr (length w, pre @ w @ drop (length w) post))"
  by (simp add: encodeControl_at_def encodeControl_spec Let_def assms)

definition framed :: "byte list \<Rightarrow> bool" where
  "framed p \<longleftrightarrow> cpHeaderLen \<le> length p \<and> take 4 p = cpMagic"

lemma controlRecords_Nil [simp]: "controlRecords [] = []"
  by (simp add: controlRecords.simps)

lemma controlRecords_plain:
  "p \<noteq> [] \<Longrightarrow> \<not> framed p \<Longrightarrow> controlRecords p = [\<lparr>crCPType = cpTypePlainData, crBody = p\<rparr>]"
  by (subst controlRecords.simps) (auto simp: framed_def)

lemma controlRecords_framed:
  assumes "length body + length rest < 2 ^ 32"
  shows "controlRecords (cpMagic @ [ct] @ be32 (of_nat (length body)) @ body @ rest)
    = \<lparr>crCPType = ct, crBody = body\<rparr> # controlRecords rest"
proof -
  let ?n = "of_nat (length body) :: u32"
  let ?p = "cpMagic @ [ct] @ be32 ?n @ body @ rest"
  have n: "unat ?n = length body" using assms by (simp add: unat_of_nat)
  have le: "\<not> (of_nat (length body + length rest) :: u32) < ?n"
    using assms by (simp add: word_less_nat_alt unat_of_nat del: of_nat_add)
  have "be32_at ?p 5 = ?n"
    using be32_at_append [of "cpMagic @ [ct]" 5 ?n "body @ rest"] by simp
  moreover have "?p ! 4 = ct" by (simp add: nth_append)
  moreover have "drop cpHeaderLen ?p = body @ rest" and "\<not> length ?p < cpHeaderLen"
    by (simp_all add: cpHeaderLen_def)
  ultimately show ?thesis
    using le by (subst controlRecords.simps) (simp add: n Let_def)
qed

lemma controlRecords_wire:
  assumes "crCPType r \<noteq> cpTypePlainData" and "length (crBody r) + length rest < 2 ^ 32"
  shows "controlRecords (control_wire r @ rest) = r # controlRecords rest"
  using controlRecords_framed [OF assms(2), of "crCPType r"] assms(1)
  by (simp add: control_wire_def)

text \<open>A record walk inverts the concatenation of the records' wire forms.\<close>

interpretation control: framing control_wire controlRecords
    "\<lambda>r. crCPType r \<noteq> cpTypePlainData" "\<lambda>p. length p < 2 ^ 32"
proof
  fix r rest
  assume "crCPType r \<noteq> cpTypePlainData" and "length (control_wire r @ rest) < 2 ^ 32"
  then show "controlRecords (control_wire r @ rest) = r # controlRecords rest"
    by (intro controlRecords_wire) (simp_all add: length_control_wire)
qed simp

text \<open>The bodies that a walk yields are disjoint parts of the payload.\<close>

lemma record_len_bound:
  fixes l :: u32
  shows "unat (if of_nat n < l then of_nat n else l) \<le> n"
proof -
  have "unat (of_nat n :: u32) \<le> n" by (simp add: unat_of_nat)
  then show ?thesis by (auto simp: word_less_nat_alt not_less)
qed

lemma sum_bodies_le:
  "sum_list (map (\<lambda>r. length (crBody r)) (controlRecords p)) \<le> length p"
proof (induction p rule: controlRecords.induct)
  case (1 p)
  define body where "body = drop cpHeaderLen p"
  define ln where "ln = (if of_nat (length body) < be32_at p 5 then of_nat (length body) else be32_at p 5)"
  show ?case
  proof (cases "p = [] \<or> \<not> framed p")
    case True
    then show ?thesis by (cases "p = []") (auto simp: controlRecords_plain)
  next
    case False
    then have ne: "(p = []) = False"
      and fr: "(length p < cpHeaderLen \<or> take 4 p \<noteq> cpMagic) = False" by (auto simp: framed_def)
    have "controlRecords p = \<lparr>crCPType = p ! 4, crBody = take (unat ln) body\<rparr>
        # controlRecords (drop (unat ln) body)"
      by (subst controlRecords.simps) (simp only: ne fr if_False Let_def body_def ln_def)
    moreover have "sum_list (map (\<lambda>r. length (crBody r)) (controlRecords (drop (unat ln) body)))
        \<le> length (drop (unat ln) body)"
      by (rule 1 [OF _ _ refl refl refl, folded body_def, folded ln_def]) (use ne fr in auto)
    moreover have "unat ln \<le> length body" unfolding ln_def by (rule record_len_bound)
    ultimately show ?thesis by (simp add: body_def)
  qed
qed

section \<open>Properties\<close>

text \<open>
  Encoding a header into any buffer that is long enough succeeds, changes the first 22
  bytes only, and decoding the result in the same direction gives back every field (the
  version is the protocol's constant, whatever the struct held) and the rest of the buffer.
\<close>

theorem header_roundtrip:
  assumes "headerLen \<le> length buf"
  shows "\<exists>buf'. header_encode h buf dir = Ret (buf', headerLen)
    \<and> length buf' = length buf \<and> drop headerLen buf' = drop headerLen buf
    \<and> decodeHeader buf' dir = Inr (h\<lparr>hVersion := protocolVersion\<rparr>, drop headerLen buf)"
  using assms by (simp add: header_encode_wire decode_header_wire protocolVersion_def)

definition sample_header :: header where
  "sample_header = \<lparr>hVersion = 0, hPType = pTypeData, hSrcAddr = Mac 2 0 0 0 0 1,
     hDstAddr = Mac 2 0 0 0 0 2, hSessionKey = 0xabcd, hCounter = 0x01020304\<rparr>"

theorem header_roundtrip_witness:
  "headerLen \<le> length (replicate 24 (0 :: byte)) \<and>
   (\<exists>buf'. header_encode sample_header (replicate 24 0) DirToServer = Ret (buf', headerLen)
    \<and> length buf' = 24 \<and> drop headerLen buf' = [0, 0]
    \<and> decodeHeader buf' DirToServer
        = Inr (sample_header\<lparr>hVersion := protocolVersion\<rparr>, [0, 0]))"
  using header_roundtrip [of "replicate 24 0" sample_header DirToServer]
  by (simp add: headerLen_def numeral_2_eq_2)

text \<open>
  Decoding is total and strict about length: it fails exactly on datagrams shorter
  than the outer header, in particular on every PING and PONG that \<open>encodePing\<close> builds;
  the two directions differ in where the session key is read, so a header encoded for the
  server and decoded as if from the server yields the client-type magic as its key.
\<close>

theorem decodeHeader_strict:
  "(decodeHeader buf dir = Inl ErrShortHeader \<longleftrightarrow> length buf < headerLen)
   \<and> encodePing (replicate pingHeaderLen 0) src dst isPong
       = Ret (ping_wire src dst isPong, pingHeaderLen)
   \<and> decodeHeader (ping_wire src dst isPong) dir = Inl ErrShortHeader
   \<and> map_sum id (hSessionKey \<circ> fst) (decodeHeader (header_wire h DirToServer @ rest) DirToClient)
       = Inr 0x0015"
proof -
  have "decodeHeader buf dir = Inl ErrShortHeader \<longleftrightarrow> length buf < headerLen"
    by (simp add: decodeHeader_def Let_def)
  moreover have "decodeHeader (ping_wire src dst isPong) dir = Inl ErrShortHeader"
    by (simp add: decodeHeader_def pingHeaderLen_def headerLen_def)
  moreover have "be16_at (header_wire h DirToServer @ rest) 16 = 0x0015"
    using header_fields(4) [of 1 "hPType h" "hSrcAddr h" "hDstAddr h" "be16 (hSessionKey h) ! 0"
        "be16 (hSessionKey h) ! 1" "0x0015"] by (simp add: header_wire_def be16_def)
  ultimately show ?thesis
    by (simp add: encodePing_wire) (simp add: decodeHeader_def Let_def headerLen_def)
qed

text \<open>
  C30.  Control records round-trip: writing a record with \<open>encodeControl\<close> at any offset
  either fails without touching the buffer, exactly when it does not fit, or appends its
  wire form; and walking the records written one after another, followed by terminal bytes
  that do not look like a record, yields exactly those records and then the terminal bytes
  as one PLAINDATA record.
\<close>

theorem control_records_roundtrip:
  assumes "\<forall>r \<in> set rs. crCPType r \<noteq> cpTypePlainData"
    and "length (concat (map control_wire rs)) + length plain < 2 ^ 32"
    and "\<not> framed plain"
  shows "controlRecords (concat (map control_wire rs) @ plain)
      = rs @ (if plain = [] then [] else [\<lparr>crCPType = cpTypePlainData, crBody = plain\<rparr>])
    \<and> iterateControl fn st (concat (map control_wire rs) @ plain)
      = foldWhile fn st (rs @ (if plain = [] then [] else [\<lparr>crCPType = cpTypePlainData, crBody = plain\<rparr>]))
    \<and> encodeControl_at (pre @ post) (length pre) ct body =
       (let w = control_wire \<lparr>crCPType = ct, crBody = body\<rparr>
        in if length w > length post then Inl ErrShortControl
           else Inr (length w, pre @ w @ drop (length w) post))"
  using assms
  by (simp add: iterateControl_foldWhile control.parse_concat controlRecords_plain
      encodeControl_at_append [OF refl] Let_def)

theorem control_records_roundtrip_witness:
  "controlRecords (control_wire \<lparr>crCPType = cpTypePassword, crBody = [7, 8]\<rparr> @ [104, 105])
    = [\<lparr>crCPType = cpTypePassword, crBody = [7, 8]\<rparr>,
       \<lparr>crCPType = cpTypePlainData, crBody = [104, 105]\<rparr>]"
  using control_records_roundtrip [of "[\<lparr>crCPType = cpTypePassword, crBody = [7, 8]\<rparr>]" "[104, 105]"
      "\<lambda>s r. (True, s)" "()" "[]" "[]" 0 "[]"]
  by (simp add: cpTypePassword_def cpTypePlainData_def framed_def cpHeaderLen_def length_control_wire)

end
