(* ===== verification/Sequencing.thy ===== *)
theory Sequencing
  imports Prelude
begin

text \<open>
  \<^verbatim>\<open>src/internal/mactelnet/seq.go\<close>: the retransmit schedules and the per-session byte
  counters of the stop-and-wait layer.

  A \<^verbatim>\<open>time.Duration\<close> is an \<^verbatim>\<open>int64\<close> of nanoseconds: an \<open>int\<close> here, with the
  wrap-around of every addition written out.  The padding loop may not end (its sum can
  wrap past the budget), so it is a \<open>partial_function\<close> whose result \<open>None\<close> means that
  the Go loop keeps appending for ever.
\<close>

section \<open>Retransmit schedules\<close>

type_synonym duration = int

definition wrap64 :: "int \<Rightarrow> int" where
  "wrap64 x = (x + 2 ^ 63) mod 2 ^ 64 - 2 ^ 63"

definition maxInt64 :: int where "maxInt64 = 2 ^ 63 - 1"

definition millisecond :: duration where "millisecond = 1000000"
definition second :: duration where "second = 1000000000"

definition upstreamRamp :: "duration list" where
  "upstreamRamp =
     [15 * millisecond, 20 * millisecond, 30 * millisecond, 50 * millisecond, 90 * millisecond,
      170 * millisecond, 330 * millisecond, 660 * millisecond, 1000 * millisecond]"

fun ramp_loop :: "duration list \<Rightarrow> duration \<Rightarrow> duration list \<Rightarrow> duration \<Rightarrow> duration list \<times> duration" where
  "ramp_loop [] budget out tot = (out, tot)"
| "ramp_loop (iv # ivs) budget out tot =
    (if wrap64 (tot + iv) > budget then (out, tot)
     else ramp_loop ivs budget (out @ [iv]) (wrap64 (tot + iv)))"

partial_function (option) pad_loop ::
    "duration \<Rightarrow> duration list \<Rightarrow> duration \<Rightarrow> (duration list \<times> duration) option" where
  "pad_loop budget out tot =
    (if wrap64 (tot + second) \<le> budget
     then pad_loop budget (out @ [second]) (wrap64 (tot + second))
     else Some (out, tot))"

definition buildRetransmitSchedule :: "duration \<Rightarrow> duration list option" where
  "buildRetransmitSchedule budget =
    (if budget \<le> 0 then Some upstreamRamp
     else
       let (out, tot) = ramp_loop upstreamRamp budget [] 0
       in case pad_loop budget out tot of
            None \<Rightarrow> None
          | Some (out, tot) \<Rightarrow>
              let rem = wrap64 (budget - tot)
              in Some (if rem > 0 then out @ [rem] else out))"

text \<open>The package variables, and \<open>Configure\<close>, which replaces both.\<close>

record schedules =
  authSchedule :: "duration list"
  dataSchedule :: "duration list"

definition Configure :: "duration \<Rightarrow> duration \<Rightarrow> schedules option" where
  "Configure authBudget dataBudget =
    (case buildRetransmitSchedule authBudget of
       None \<Rightarrow> None
     | Some a \<Rightarrow> (case buildRetransmitSchedule dataBudget of
         None \<Rightarrow> None
       | Some d \<Rightarrow> Some \<lparr>authSchedule = a, dataSchedule = d\<rparr>))"

definition default_schedules :: "schedules option" where
  "default_schedules = Configure (10 * second) 0"

lemma wrap64_id: "- (2 ^ 63) \<le> x \<Longrightarrow> x < 2 ^ 63 \<Longrightarrow> wrap64 x = x"
  by (simp add: wrap64_def)

lemma wrap64_le: "wrap64 x \<le> maxInt64"
proof -
  have "(x + 2 ^ 63) mod 2 ^ 64 < (2 ^ 64 :: int)" by simp
  then show ?thesis by (simp add: wrap64_def maxInt64_def)
qed

lemma ramp_positive: "\<forall>d \<in> set upstreamRamp. 0 < d \<and> d \<le> second"
  by (simp add: upstreamRamp_def millisecond_def second_def)

lemma length_upstreamRamp [simp]: "length upstreamRamp = 9"
  by (simp add: upstreamRamp_def)

text \<open>
  What the ramp loop keeps, for a sum that cannot overflow: it appends a prefix of the ramp,
  the running sum is the sum of the list, and it stays within the budget.
\<close>

lemma ramp_loop_spec:
  assumes "ramp_loop ivs budget out tot = (out', tot')"
    and "\<forall>d \<in> set ivs. 0 < d \<and> d \<le> second"
    and "tot = sum_list out" and "0 \<le> tot" and "tot \<le> budget"
    and "budget \<le> maxInt64 - second"
  shows "\<exists>k. out' = out @ take k ivs \<and> tot' = sum_list out' \<and> 0 \<le> tot' \<and> tot' \<le> budget"
  using assms
proof (induction ivs arbitrary: out tot)
  case Nil
  then show ?case by (intro exI [of _ 0]) auto
next
  case (Cons iv ivs)
  have w: "wrap64 (tot + iv) = tot + iv"
    using Cons.prems by (intro wrap64_id) (auto simp: maxInt64_def)
  show ?case
  proof (cases "tot + iv > budget")
    case True
    then show ?thesis using Cons.prems w by (intro exI [of _ 0]) auto
  next
    case False
    then have "ramp_loop ivs budget (out @ [iv]) (tot + iv) = (out', tot')"
      using Cons.prems(1) w by simp
    then have "\<exists>k. out' = (out @ [iv]) @ take k ivs \<and> tot' = sum_list out' \<and> 0 \<le> tot' \<and> tot' \<le> budget"
      by (rule Cons.IH) (use Cons.prems False in auto)
    then obtain k where "out' = out @ take (Suc k) (iv # ivs)"
      and "tot' = sum_list out' \<and> 0 \<le> tot' \<and> tot' \<le> budget" by auto
    then show ?thesis by blast
  qed
qed

text \<open>
  The padding loop ends when the budget leaves room for one more second below the largest
  duration: the distance to the budget shrinks by a second each time.
\<close>

lemma pad_loop_spec:
  assumes "0 \<le> tot" and "tot \<le> budget" and "budget \<le> maxInt64 - second"
  shows "pad_loop budget out tot
    = Some (out @ replicate (nat ((budget - tot) div second)) second,
            tot + (budget - tot) div second * second)"
  using assms
proof (induction "nat ((budget - tot) div second)" arbitrary: out tot)
  case 0
  have pos: "0 < second" by (simp add: second_def)
  then have z: "(budget - tot) div second = 0"
    using 0 pos_imp_zdiv_nonneg_iff [of second "budget - tot"] by simp
  then have "budget - tot < second"
    using pos by (metis div_by_0 less_irrefl linorder_not_le pos_imp_zdiv_pos_iff)
  moreover have "wrap64 (tot + second) = tot + second"
    using 0 by (intro wrap64_id) (auto simp: maxInt64_def second_def)
  ultimately show ?case using z by (subst pad_loop.simps) simp
next
  case (Suc n)
  have pos: "0 < second" by (simp add: second_def)
  have q: "(budget - tot) div second = int n + 1" using Suc.hyps(2) by linarith
  then have room: "tot + second \<le> budget"
    using pos pos_imp_zdiv_pos_iff [of second "budget - tot"] by simp
  have step: "(budget - (tot + second)) div second = int n"
  proof -
    have "(budget - tot) div second = (budget - (tot + second)) div second + 1"
      using pos div_add_self2 [of second "budget - (tot + second)"] by (simp add: algebra_simps)
    then show ?thesis using q by simp
  qed
  have w: "wrap64 (tot + second) = tot + second"
    using Suc.prems room by (intro wrap64_id) (auto simp: maxInt64_def second_def)
  have "pad_loop budget (out @ [second]) (tot + second)
    = Some ((out @ [second]) @ replicate (nat ((budget - (tot + second)) div second)) second,
            tot + second + (budget - (tot + second)) div second * second)"
    by (rule Suc.hyps(1)) (use step Suc.prems room pos in auto)
  then show ?case
    using w room q step by (subst pad_loop.simps) (simp add: algebra_simps nat_add_distrib)
qed

lemma maxInt64_pos: "0 < maxInt64"
  by (simp add: maxInt64_def)

text \<open>With the largest budget the guard never fails: the loop does not return.\<close>

lemma pad_loop_diverges: "pad_loop maxInt64 out tot = None"
proof -
  have "b \<noteq> maxInt64" if "pad_loop b out tot = Some r" for b out tot r
    by (rule pad_loop.raw_induct [where P = "\<lambda>b out tot r. b \<noteq> maxInt64", OF _ that])
      (auto simp: wrap64_le split: if_splits)
  then show ?thesis by (cases "pad_loop maxInt64 out tot") blast+
qed

section \<open>Byte counters\<close>

record counters =
  ctOut :: u32
  ctIn :: u32
  ctInSeen :: bool

definition zero_counters :: counters where
  "zero_counters = \<lparr>ctOut = 0, ctIn = 0, ctInSeen = False\<rparr>"

definition reserveOut :: "counters \<Rightarrow> u32 \<Rightarrow> u32 \<times> counters" where
  "reserveOut c n = (let seq = ctOut c in (seq, c\<lparr>ctOut := ctOut c + n\<rparr>))"

definition acceptIncoming :: "counters \<Rightarrow> u32 \<Rightarrow> bool \<times> counters" where
  "acceptIncoming c seq =
    (if \<not> ctInSeen c then (True, c\<lparr>ctInSeen := True, ctIn := seq\<rparr>)
     else if seq > ctIn c then (True, c\<lparr>ctIn := seq\<rparr>)
     else if ctIn c - seq > 65535 then (True, c\<lparr>ctIn := seq\<rparr>)
     else (False, c))"

definition ackCounterFor :: "u32 \<Rightarrow> u32 \<Rightarrow> u32" where
  "ackCounterFor inboundSeq payloadLen = inboundSeq + payloadLen"

lemma reserveOut_simps [simp]:
  "fst (reserveOut c n) = ctOut c" "ctOut (snd (reserveOut c n)) = ctOut c + n"
  "ctIn (snd (reserveOut c n)) = ctIn c" "ctInSeen (snd (reserveOut c n)) = ctInSeen c"
  by (simp_all add: reserveOut_def)

lemma acceptIncoming_out [simp]: "ctOut (snd (acceptIncoming c seq)) = ctOut c"
  by (simp add: acceptIncoming_def)

lemma acceptIncoming_True:
  "acceptIncoming c seq = (True, c') \<Longrightarrow> c' = c\<lparr>ctInSeen := True, ctIn := seq\<rparr>"
  by (auto simp: acceptIncoming_def split: if_splits)

lemma acceptIncoming_False:
  "acceptIncoming c seq = (False, c') \<longleftrightarrow>
    c' = c \<and> ctInSeen c \<and> unat seq \<le> unat (ctIn c) \<and> unat (ctIn c) - unat seq \<le> 65535"
proof -
  have "ctIn c - seq > 65535 \<longleftrightarrow> unat (ctIn c) - unat seq > 65535" if "seq \<le> ctIn c"
    using that by (simp add: word_less_nat_alt unat_sub)
  then show ?thesis
    by (auto simp: acceptIncoming_def not_less word_le_nat_alt word_less_nat_alt split: if_splits)
qed

text \<open>The verdicts on a sequence of inbound counters.\<close>

fun verdicts :: "counters \<Rightarrow> u32 list \<Rightarrow> bool list" where
  "verdicts c [] = []"
| "verdicts c (s # ss) = (case acceptIncoming c s of (v, c') \<Rightarrow> v # verdicts c' ss)"

section \<open>Properties\<close>

text \<open>
  C34.  For every positive budget that leaves a second of head-room below the largest
  duration, \<open>buildRetransmitSchedule\<close> returns, and its schedule is a prefix of the upstream
  ramp followed by one-second waits and at most one remainder: every wait is positive and at
  most a second, and the waits add up to the budget exactly.
\<close>

theorem schedule_meets_budget:
  assumes "0 < budget" and "budget \<le> maxInt64 - second"
  shows "\<exists>out k n rest. buildRetransmitSchedule budget = Some out
    \<and> out = take k upstreamRamp @ replicate n second @ rest \<and> length rest \<le> 1
    \<and> sum_list out = budget \<and> (\<forall>d \<in> set out. 0 < d \<and> d \<le> second)"
proof -
  obtain out tot where r: "ramp_loop upstreamRamp budget [] 0 = (out, tot)" by force
  then obtain k where out: "out = take k upstreamRamp" and tot: "tot = sum_list out"
    and b: "0 \<le> tot" "tot \<le> budget"
    using ramp_loop_spec [OF r ramp_positive] assms by auto
  define n where "n = nat ((budget - tot) div second)"
  define left where "left = budget - tot - int n * second"
  have pos: "0 < second" by (simp add: second_def)
  have n: "int n = (budget - tot) div second"
    using b pos by (simp add: n_def pos_imp_zdiv_nonneg_iff)
  then have left: "left = (budget - tot) mod second"
    by (simp add: left_def minus_div_mult_eq_mod)
  then have lt: "0 \<le> left" "left < second" using pos by simp_all
  have p: "pad_loop budget out tot = Some (out @ replicate n second, tot + int n * second)"
    using pad_loop_spec [OF b assms(2), of out] n by (simp add: n_def)
  have w: "wrap64 (budget - (tot + int n * second)) = left"
    using lt by (simp add: left_def wrap64_id second_def algebra_simps)
  let ?rest = "if left > 0 then [left] else []"
  have build: "buildRetransmitSchedule budget = Some (out @ replicate n second @ ?rest)"
    using assms(1) by (simp add: buildRetransmitSchedule_def r p w Let_def)
  have "sum_list (out @ replicate n second @ ?rest) = budget"
    using tot lt by (simp add: sum_list_replicate left_def)
  moreover have "\<forall>d \<in> set (out @ replicate n second @ ?rest). 0 < d \<and> d \<le> second"
    using ramp_positive lt pos out by (auto dest: in_set_takeD)
  moreover have "length ?rest \<le> 1" by simp
  ultimately show ?thesis using build out by blast
qed

theorem schedule_meets_budget_witness:
  "\<exists>out k n rest. buildRetransmitSchedule (10 * second) = Some out
    \<and> out = take k upstreamRamp @ replicate n second @ rest \<and> length rest \<le> 1
    \<and> sum_list out = 10 * second \<and> (\<forall>d \<in> set out. 0 < d \<and> d \<le> second)"
  by (rule schedule_meets_budget) (simp_all add: second_def maxInt64_def)

text \<open>
  The schedules the package starts with: the in-session one is the upstream ramp, the
  handshake one the whole ramp, seven seconds and a remainder of 635 ms.  With the
  largest duration as budget the padding loop's sum wraps below the budget and
  \<open>Configure\<close> never returns.
\<close>

theorem configure_schedules:
  "default_schedules = Some \<lparr>authSchedule = upstreamRamp @ replicate 7 second @ [635 * millisecond],
     dataSchedule = upstreamRamp\<rparr>
   \<and> Configure maxInt64 dataBudget = None"
proof -
  have "ramp_loop upstreamRamp (10 * second) [] 0 = (upstreamRamp, 2365 * millisecond)"
    by (simp add: upstreamRamp_def millisecond_def second_def wrap64_def)
  moreover have "pad_loop (10 * second) upstreamRamp (2365 * millisecond)
      = Some (upstreamRamp @ replicate 7 second, 9365 * millisecond)"
    using pad_loop_spec [of "2365 * millisecond" "10 * second" upstreamRamp]
    by (simp add: millisecond_def second_def maxInt64_def)
  ultimately have "buildRetransmitSchedule (10 * second)
      = Some (upstreamRamp @ replicate 7 second @ [635 * millisecond])"
    by (simp add: buildRetransmitSchedule_def second_def millisecond_def wrap64_def)
  moreover have "buildRetransmitSchedule 0 = Some upstreamRamp"
    by (simp add: buildRetransmitSchedule_def)
  moreover have "buildRetransmitSchedule maxInt64 = None"
    using maxInt64_pos by (auto simp: buildRetransmitSchedule_def pad_loop_diverges split: prod.splits)
  ultimately show ?thesis
    by (simp add: default_schedules_def Configure_def)
qed

text \<open>
  The receiver's filter: the first counter of a session is always accepted, a later
  one is dropped exactly when it is at most 65535 behind the high-water mark, and then
  nothing changes; an accepted counter becomes the mark, so that the very same packet, sent
  again at once, is dropped.
\<close>

theorem acceptIncoming_filter:
  "(acceptIncoming c seq = (False, c') \<longleftrightarrow>
      c' = c \<and> ctInSeen c \<and> unat seq \<le> unat (ctIn c) \<and> unat (ctIn c) - unat seq \<le> 65535)
   \<and> (acceptIncoming c seq = (True, c'') \<longrightarrow>
        c'' = c\<lparr>ctInSeen := True, ctIn := seq\<rparr> \<and> acceptIncoming c'' seq = (False, c''))"
  by (auto simp: acceptIncoming_False dest: acceptIncoming_True)

theorem acceptIncoming_filter_witness:
  "acceptIncoming (zero_counters\<lparr>ctIn := 100, ctInSeen := True\<rparr>) 150
      = (True, zero_counters\<lparr>ctIn := 150, ctInSeen := True\<rparr>)
   \<and> acceptIncoming (zero_counters\<lparr>ctIn := 150, ctInSeen := True\<rparr>) 150
      = (False, zero_counters\<lparr>ctIn := 150, ctInSeen := True\<rparr>)"
  using acceptIncoming_filter [of "zero_counters\<lparr>ctIn := 100, ctInSeen := True\<rparr>" 150 _
      "zero_counters\<lparr>ctIn := 150, ctInSeen := True\<rparr>"]
  by (simp add: acceptIncoming_def zero_counters_def)

text \<open>
  The wrap rule is not the inverse of the duplicate rule: when the peer's counter has
  wrapped from \<open>a\<close> to a \<open>b\<close> more than 65535 below, a late retransmission of the packet
  with counter \<open>a\<close> is accepted a second time and moves the mark back.
\<close>

theorem stale_duplicate_after_wrap:
  assumes "unat b + 65535 < unat a"
  shows "verdicts zero_counters [a, b, a] = [True, True, True]"
proof -
  have "b < a" and "unat (a - b) = unat a - unat b"
    using assms by (auto simp: word_less_nat_alt unat_sub word_le_nat_alt)
  then show ?thesis
    using assms by (simp add: acceptIncoming_def zero_counters_def word_less_nat_alt)
qed

theorem stale_duplicate_after_wrap_witness:
  "verdicts zero_counters [0xFFFFFFF0, 10, 0xFFFFFFF0] = [True, True, True]"
  by (rule stale_duplicate_after_wrap) simp

end
