(* ===== verification/Frame.thy ===== *)
theory Frame
  imports Protocol
begin

text \<open>
  \<^verbatim>\<open>src/internal/mactelnet/conn.go\<close>, the link layer: \<open>buildFrame\<close> lays out Ethernet, an
  optional 802.1Q tag, IP and UDP around a MAC-Telnet datagram, \<open>rawSender\<close> hands the frame
  to the kernel, and \<open>rawReceiver\<close> filters the frames that the kernel delivers.  System calls
  are inputs: what \<^verbatim>\<open>sendto\<close> and \<^verbatim>\<open>recvfrom\<close> answer is an argument.
\<close>

section \<open>Internet checksum\<close>

definition htons :: "u16 \<Rightarrow> u16" where
  "htons v = (push_bit 8 v AND 0xff00) OR (drop_bit 8 v AND 0xff)"

definition ethPIP :: u16 where "ethPIP = 0x0800"
definition ethP8021Q :: u16 where "ethP8021Q = 0x8100"

text \<open>The summing loop, two bytes at a time, with the odd last byte as a high half.\<close>

fun sum16 :: "u32 \<Rightarrow> byte list \<Rightarrow> u32" where
  "sum16 tot (a # b # r) = sum16 (tot + ucast (be16_at [a, b] 0)) r"
| "sum16 tot [a] = tot + push_bit 8 (ucast a)"
| "sum16 tot [] = tot"

text \<open>The folding loop \<^verbatim>\<open>for sum>>16 != 0\<close>.\<close>

lemma fold_step:
  fixes s :: u32
  shows "unat (s AND 0xffff) = unat s mod 65536" and "unat (drop_bit 16 s) = unat s div 65536"
    and "unat ((s AND 0xffff) + drop_bit 16 s) = unat s mod 65536 + unat s div 65536"
proof -
  have m: "s AND 0xffff = take_bit 16 s"
    by (simp add: take_bit_eq_mask mask_eq_exp_minus_1)
  show a: "unat (s AND 0xffff) = unat s mod 65536"
    by (simp only: m unsigned_take_bit_eq) (simp add: take_bit_eq_mod)
  show d: "unat (drop_bit 16 s) = unat s div 65536"
    using unsigned_less [of s, where 'a = nat] by (simp only: unsigned_drop_bit_eq)
      (simp add: drop_bit_eq_div take_bit_eq_mod)
  have "unat s < 4294967296" using unsigned_less [of s] by simp
  then have "unat s div 65536 < 65536" by (simp add: less_mult_imp_div_less)
  moreover have "unat s mod 65536 < 65536" by simp
  ultimately have "unat s mod 65536 + unat s div 65536 < 4294967296" by linarith
  then show "unat ((s AND 0xffff) + drop_bit 16 s) = unat s mod 65536 + unat s div 65536"
    by (simp add: unat_word_ariths a d)
qed

function fold32 :: "u32 \<Rightarrow> u32" where
  "fold32 s = (if drop_bit 16 s \<noteq> 0 then fold32 ((s AND 0xffff) + drop_bit 16 s) else s)"
  by pat_completeness auto
termination
proof (relation "measure unat")
  fix s :: u32
  assume "drop_bit 16 s \<noteq> 0"
  then have "unat s div 65536 \<noteq> 0" using fold_step(2) [of s] by (metis unat_eq_zero)
  then have "unat s mod 65536 + unat s div 65536 < unat s"
    using div_mult_mod_eq [of "unat s" 65536] by linarith
  then show "((s AND 0xffff) + drop_bit 16 s, s) \<in> measure unat"
    by (simp add: fold_step(3))
qed simp

declare fold32.simps [simp del]

definition internetChecksum :: "byte list \<Rightarrow> u16" where
  "internetChecksum b = NOT (ucast (fold32 (sum16 0 b)))"

subsection \<open>One's-complement arithmetic\<close>

definition fold_nat :: "nat \<Rightarrow> nat" where
  "fold_nat n = (if n = 0 then 0 else (n - 1) mod 65535 + 1)"

lemma fold_nat_le: "fold_nat n \<le> 65535"
  by (simp add: fold_nat_def Suc_le_eq)

lemma fold_nat_small: "n < 65536 \<Longrightarrow> fold_nat n = n"
  by (simp add: fold_nat_def)

lemma fold_nat_step:
  assumes "n div 65536 \<noteq> 0"
  shows "fold_nat (n mod 65536 + n div 65536) = fold_nat n"
proof -
  define q r where "q = n div 65536" and "r = n mod 65536"
  have n: "n = (r + q - 1) + 65535 * q + 1" and q: "0 < q"
    using assms by (simp_all add: q_def r_def)
  have "(n - 1) mod 65535 = ((r + q - 1) + 65535 * q) mod 65535" using n by simp
  also have "\<dots> = (r + q - 1) mod 65535" by (rule mod_mult_self2)
  finally have "(n - 1) mod 65535 = (r + q - 1) mod 65535" .
  moreover have "0 < n" "0 < r + q" using n q by simp_all
  ultimately show ?thesis unfolding fold_nat_def q_def [symmetric] r_def [symmetric]
    by simp
qed

lemma unat_fold32: "unat (fold32 s) = fold_nat (unat s)"
proof (induction s rule: fold32.induct)
  case (1 s)
  show ?case
  proof (cases "drop_bit 16 s = 0")
    case True
    then have "unat s div 65536 = 0" using fold_step(2) [of s] by simp
    then have "unat s < 65536" by (simp add: div_eq_0_iff)
    then show ?thesis using True by (simp add: fold32.simps [of s] fold_nat_small)
  next
    case False
    then have "unat s div 65536 \<noteq> 0" using fold_step(2) [of s] by (metis unat_eq_zero)
    then show ?thesis
      using 1 [OF False] False fold_nat_step [of "unat s"]
      by (simp add: fold32.simps [of s] fold_step(3))
  qed
qed

text \<open>A sum and its complement fold to all ones.\<close>

lemma fold_nat_complement:
  assumes "0 < n"
  shows "fold_nat (n + (65535 - fold_nat n)) = 65535"
proof -
  define k where "k = (n - 1) mod 65535"
  have f: "fold_nat n = k + 1" using assms by (simp add: fold_nat_def k_def)
  have "k < 65535" by (simp add: k_def)
  have "n - 1 = 65535 * ((n - 1) div 65535) + k" by (simp add: k_def)
  then have "n + (65535 - fold_nat n) - 1 = 65534 + 65535 * ((n - 1) div 65535)"
    using assms f \<open>k < 65535\<close> by linarith
  then have "(n + (65535 - fold_nat n) - 1) mod 65535 = 65534" by simp
  then show ?thesis using assms by (simp add: fold_nat_def)
qed

fun words_sum :: "byte list \<Rightarrow> nat" where
  "words_sum (a # b # r) = unat (be16_at [a, b] 0) + words_sum r"
| "words_sum [a] = 256 * unat a"
| "words_sum [] = 0"

lemma unat_ucast_16_32: "unat (ucast (w :: u16) :: u32) = unat w"
  using unat_u16_lt [of w] by (simp add: unsigned_ucast_eq take_bit_nat_eq_self_iff)

lemma unat_high_byte: "unat (push_bit 8 (ucast (a :: byte)) :: u32) = 256 * unat a"
proof -
  have "unat a < 256" by (rule unat_byte_lt)
  moreover have "unat (ucast a :: u32) = unat a"
    using unat_byte_lt [of a] by (simp add: unsigned_ucast_eq take_bit_nat_eq_self_iff)
  ultimately show ?thesis by (simp add: push_bit_eq_mult unat_word_ariths)
qed

lemma unat_sum16:
  "unat tot + words_sum b < 2 ^ 32 \<Longrightarrow> unat (sum16 tot b) = unat tot + words_sum b"
  by (induction tot b rule: sum16.induct)
    (simp_all add: unat_word_ariths unat_ucast_16_32 unat_high_byte)

lemma words_sum_append: "even (length xs) \<Longrightarrow> words_sum (xs @ ys) = words_sum xs + words_sum ys"
  by (induction xs rule: words_sum.induct) auto

lemma words_sum_bound: "words_sum b \<le> 65535 * ((length b + 1) div 2)"
proof (induction b rule: words_sum.induct)
  case (1 a b r)
  have "unat (be16_at [a, b] 0) < 65536" by (rule unat_u16_lt)
  then show ?case using 1 by simp
next
  case (2 a)
  have "unat a < 256" by (rule unat_byte_lt)
  then show ?case by simp
qed simp

lemma words_sum_be16 [simp]: "words_sum (be16 w) = unat w"
  by (simp add: be16_def be16_at_def join16)

lemma unat_not_u16: "unat (NOT w :: u16) = 65535 - unat w"
proof -
  have e: "w + NOT w = 65535" by (simp add: not_eq_complement)
  have "unat (w + NOT w) = 65535" by (subst e) simp
  then have "(unat w + unat (NOT w)) mod 65536 = 65535"
    by (simp only: unat_word_ariths) simp
  moreover have "unat w < 65536" "unat (NOT w) < 65536" by (rule unat_u16_lt)+
  ultimately show ?thesis by (auto simp: mod_if split: if_splits)
qed

lemma unat_internetChecksum:
  assumes "length b \<le> 65536"
  shows "unat (internetChecksum b) = 65535 - fold_nat (words_sum b)"
proof -
  have "words_sum b \<le> 65535 * ((65536 + 1) div 2)"
    using words_sum_bound [of b] assms by (meson add_le_mono1 div_le_mono le_trans mult_le_mono2)
  then have "unat (fold32 (sum16 0 b)) = fold_nat (words_sum b)"
    by (simp add: unat_fold32 unat_sum16)
  then have "unat (ucast (fold32 (sum16 0 b)) :: u16) = fold_nat (words_sum b)"
    using fold_nat_le [of "words_sum b"] by (simp add: unsigned_ucast_eq take_bit_nat_eq_self_iff)
  then show ?thesis
    by (simp add: internetChecksum_def unat_not_u16)
qed

text \<open>
  The receiver's test: a block whose checksum field holds the checksum of the block with a
  zero field sums to zero.
\<close>

lemma internetChecksum_verifies:
  assumes "even (length pre)" and "length pre + 2 + length post \<le> 65536"
    and "0 < words_sum (pre @ be16 0 @ post)"
  shows "internetChecksum (pre @ be16 (internetChecksum (pre @ be16 0 @ post)) @ post) = 0"
proof -
  let ?n = "words_sum (pre @ be16 0 @ post)"
  have n: "?n = words_sum pre + words_sum post"
    using assms(1) words_sum_append [of "be16 0" post] by (simp add: words_sum_append)
  have "words_sum (pre @ be16 (internetChecksum (pre @ be16 0 @ post)) @ post)
      = ?n + (65535 - fold_nat ?n)"
    using assms(1,2) n words_sum_append [of "be16 _" post]
    by (simp add: words_sum_append unat_internetChecksum)
  then have "unat (internetChecksum (pre @ be16 (internetChecksum (pre @ be16 0 @ post)) @ post)) = 0"
    using assms(2) fold_nat_complement [OF assms(3)] by (simp add: unat_internetChecksum)
  then show ?thesis by (simp add: unat_eq_zero)
qed

section \<open>Building a frame\<close>

text \<open>
  The slices \<open>ip\<close> and \<open>udp\<close> of the source alias \<open>pkt\<close>; here their writes are writes to
  \<open>pkt\<close> at the slice's offset.  The buffer is exactly as long as everything written, so no
  write is out of range.
\<close>

definition buildFrame :: "mac \<Rightarrow> mac \<Rightarrow> u16 \<Rightarrow> u16 \<Rightarrow> byte list \<Rightarrow> byte list" where
  "buildFrame srcMAC dstMAC vlanID ipID payload =
    (let ethLen = 14; dot1qLen = 4; ipLen = 20; udpLen = 8;
         tagLen = (if vlanID \<noteq> 0 then dot1qLen else 0);
         total = ethLen + tagLen + ipLen + udpLen + length payload;
         pkt = replicate total 0;
         pkt = put_at pkt 0 (mac_bytes dstMAC);
         pkt = put_at pkt 6 (mac_bytes srcMAC);
         pkt = (if vlanID \<noteq> 0 then
                  let pkt = put_at pkt 12 (be16 ethP8021Q);
                      pkt = put_at pkt 14 (be16 (vlanID AND 0x0fff))
                  in put_at pkt 16 (be16 ethPIP)
                else put_at pkt 12 (be16 ethPIP));
         ipOff = ethLen + tagLen;
         pkt = pkt[ipOff := 0x45];
         pkt = pkt[ipOff + 1 := 0x00];
         pkt = put_at pkt (ipOff + 2) (be16 (of_nat (ipLen + udpLen + length payload)));
         pkt = put_at pkt (ipOff + 4) (be16 ipID);
         pkt = put_at pkt (ipOff + 6) (be16 0);
         pkt = pkt[ipOff + 8 := 64];
         pkt = pkt[ipOff + 9 := 17];
         pkt = pkt[ipOff + 16 := 0xff, ipOff + 17 := 0xff, ipOff + 18 := 0xff, ipOff + 19 := 0xff];
         pkt = put_at pkt (ipOff + 10) (be16 (internetChecksum (take ipLen (drop ipOff pkt))));
         udpOff = ipOff + ipLen;
         pkt = put_at pkt udpOff (be16 udpPort);
         pkt = put_at pkt (udpOff + 2) (be16 udpPort);
         pkt = put_at pkt (udpOff + 4) (be16 (of_nat (udpLen + length payload)))
     in put_at pkt (ipOff + ipLen + udpLen) payload)"

text \<open>The layers the frame consists of, written out.\<close>

definition eth_wire :: "mac \<Rightarrow> mac \<Rightarrow> u16 \<Rightarrow> byte list" where
  "eth_wire src dst vlanID = mac_bytes dst @ mac_bytes src @
     (if vlanID \<noteq> 0 then be16 ethP8021Q @ be16 (vlanID AND 0x0fff) else []) @ be16 ethPIP"

definition ip_wire :: "u16 \<Rightarrow> u16 \<Rightarrow> u16 \<Rightarrow> byte list" where
  "ip_wire totalLen ipID cksum =
     [0x45, 0] @ be16 totalLen @ be16 ipID @ [0, 0, 64, 17] @ be16 cksum
     @ [0, 0, 0, 0] @ [255, 255, 255, 255]"

definition udp_wire :: "u16 \<Rightarrow> byte list" where
  "udp_wire len = be16 udpPort @ be16 udpPort @ be16 len @ [0, 0]"

definition ip_checksum :: "u16 \<Rightarrow> u16 \<Rightarrow> u16" where
  "ip_checksum totalLen ipID = internetChecksum (ip_wire totalLen ipID 0)"

lemma length_ip_wire [simp]: "length (ip_wire t i c) = 20"
  by (simp add: ip_wire_def)

lemma length_udp_wire [simp]: "length (udp_wire l) = 8"
  by (simp add: udp_wire_def)

lemma length_eth_wire [simp]: "length (eth_wire s d v) = (if v \<noteq> 0 then 18 else 14)"
  by (simp add: eth_wire_def)

lemma be16_obtain: obtains a b where "be16 w = [a, b]"
  by (simp add: be16_def)

lemma be16_zero: "be16 0 = [0, 0]"
  by (simp add: be16_def)

text \<open>What \<open>buildFrame\<close> writes, tag or no tag.\<close>

lemma buildFrame_wire:
  defines "tlen n \<equiv> of_nat (28 + n)" and "ulen n \<equiv> of_nat (8 + n)"
  shows "buildFrame src dst vlanID ipID payload
    = eth_wire src dst vlanID @ ip_wire (tlen (length payload)) ipID (ip_checksum (tlen (length payload)) ipID)
      @ udp_wire (ulen (length payload)) @ payload"
proof -
  define n where "n = length payload"
  define z where "z = replicate n (0 :: byte)"
  define t l where "t = tlen n" and "l = ulen n"
  obtain s0 s1 s2 s3 s4 s5 where s: "src = Mac s0 s1 s2 s3 s4 s5" by (cases src)
  obtain d0 d1 d2 d3 d4 d5 where d: "dst = Mac d0 d1 d2 d3 d4 d5" by (cases dst)
  obtain t1 t2 where t: "be16 t = [t1, t2]" by (rule be16_obtain)
  obtain i1 i2 where i: "be16 ipID = [i1, i2]" by (rule be16_obtain)
  obtain l1 l2 where l: "be16 l = [l1, l2]" by (rule be16_obtain)
  obtain p1 p2 where p: "be16 udpPort = [p1, p2]" by (rule be16_obtain)
  obtain q1 q2 where q: "be16 ethP8021Q = [q1, q2]" by (rule be16_obtain)
  obtain e1 e2 where e: "be16 ethPIP = [e1, e2]" by (rule be16_obtain)
  obtain v1 v2 where v: "be16 (vlanID AND 0x0fff) = [v1, v2]" by (rule be16_obtain)
  define c where "c = internetChecksum [0x45, 0, t1, t2, i1, i2, 0, 0, 64, 17, 0, 0, 0, 0, 0, 0, 255, 255, 255, 255]"
  obtain c1 c2 where c': "be16 c = [c1, c2]" by (rule be16_obtain)
  have zpay: "put_at z 0 payload = payload" by (simp add: put_at_self z_def n_def)
  have tn': "28 + of_nat n = t" and ln': "8 + of_nat n = l"
    by (simp_all add: t_def l_def tlen_def ulen_def)
  have rep: "replicate (numeral k + n) (0 :: byte) = replicate (numeral k) 0 @ z"
    "replicate (numeral k) (0 :: byte) = 0 # replicate (pred_numeral k) 0" for k
    by (simp_all add: z_def replicate_add numeral_eq_Suc)
  have cs: "ip_checksum t ipID = c"
    by (simp add: ip_checksum_def ip_wire_def t i be16_zero c_def)
  have goal: "eth_wire src dst vlanID @ ip_wire t ipID (ip_checksum t ipID) @ udp_wire l @ payload
    = [d0,d1,d2,d3,d4,d5,s0,s1,s2,s3,s4,s5] @ (if vlanID \<noteq> 0 then [q1,q2,v1,v2] else []) @ [e1,e2]
      @ [0x45, 0, t1, t2, i1, i2, 0, 0, 64, 17, c1, c2, 0, 0, 0, 0, 255, 255, 255, 255,
         p1, p2, p1, p2, l1, l2, 0, 0] @ payload"
    by (simp add: cs eth_wire_def ip_wire_def udp_wire_def t i l p q e v c' s d)
  have "buildFrame src dst vlanID ipID payload
    = eth_wire src dst vlanID @ ip_wire t ipID (ip_checksum t ipID) @ udp_wire l @ payload"
  proof (cases "vlanID = 0")
    case True
    show ?thesis unfolding goal
      by (simp add: True buildFrame_def n_def [symmetric] rep put_at_eval s d t i l p e be16_zero tn' ln'
          c_def [symmetric] c' zpay)
  next
    case False
    show ?thesis unfolding goal
      by (simp add: False buildFrame_def n_def [symmetric] rep put_at_eval s d t i l p q e v be16_zero tn' ln'
          c_def [symmetric] c' zpay)
  qed
  then show ?thesis by (simp add: t_def l_def n_def)
qed

section \<open>The raw sender\<close>

record rawSender =
  rsFd :: int
  rsIfindex :: int
  rsSrcMAC :: mac
  rsIpID :: u16
  rsVlanID :: u16
  rsSendErrCount :: "64 word"

text \<open>One \<^verbatim>\<open>sendto\<close> call: the link-layer address it names and the bytes it passes.\<close>

record sendto_call =
  scProtocol :: u16
  scIfindex :: int
  scHalen :: nat
  scAddr :: mac
  scPkt :: "byte list"

text \<open>
  \<open>Send\<close> with the kernel's answer as the last argument: \<open>None\<close> for success, \<open>Some e\<close> for
  the error \<open>e\<close>, which is returned after it has been counted.
\<close>

definition rawSender_Send ::
    "rawSender \<Rightarrow> byte list \<Rightarrow> mac \<Rightarrow> 'e option \<Rightarrow> 'e option \<times> sendto_call \<times> rawSender" where
  "rawSender_Send r payload dstMAC answer =
    (let r = r\<lparr>rsIpID := rsIpID r + 1\<rparr>;
         pkt = buildFrame (rsSrcMAC r) dstMAC (rsVlanID r) (rsIpID r) payload;
         outerEth = ethPIP;
         outerEth = (if rsVlanID r \<noteq> 0 then ethP8021Q else outerEth);
         addr = \<lparr>scProtocol = htons outerEth, scIfindex = rsIfindex r, scHalen = 6,
                 scAddr = dstMAC, scPkt = pkt\<rparr>
     in case answer of
          Some err \<Rightarrow> (Some err, addr, r\<lparr>rsSendErrCount := rsSendErrCount r + 1\<rparr>)
        | None \<Rightarrow> (None, addr, r))"

section \<open>The raw receiver\<close>

record rawReceiver =
  rrFd :: int
  rrVlanID :: u16
  rrSrcMAC :: mac
  rrClosed :: bool

definition broadcastMAC :: mac where
  "broadcastMAC = Mac 0xff 0xff 0xff 0xff 0xff 0xff"

definition frameBufLen :: nat where "frameBufLen = 2048"

text \<open>
  One turn of the loop in \<open>Read\<close> after \<^verbatim>\<open>recvfrom\<close> has put \<open>n\<close> bytes at the front of the
  2048-byte \<open>frame\<close>: \<open>None\<close> is \<^verbatim>\<open>continue\<close>, \<open>Some\<close> the UDP payload.
\<close>

definition acceptFrame :: "rawReceiver \<Rightarrow> byte list \<Rightarrow> nat \<Rightarrow> byte list option" where
  "acceptFrame r frame n =
    (if n < 14 then None
     else let srcMAC = mac_at frame 6 in
     if srcMAC = rrSrcMAC r then None
     else let dstMAC = mac_at frame 0 in
     if dstMAC \<noteq> rrSrcMAC r \<and> dstMAC \<noteq> broadcastMAC then None
     else let off = 14; etherType = be16_at frame 12 in
     if etherType = ethP8021Q then
       (if n < off + 4 then None
        else let tci = be16_at frame off in
        if tci AND 0x0fff \<noteq> rrVlanID r then None
        else let etherType = be16_at frame (off + 2); off = off + 4 in
        if etherType \<noteq> ethPIP then None
        else if n < off + 20 then None
        else if drop_bit 4 (frame ! off) \<noteq> 4 then None
        else let ihl = unat (frame ! off AND 0x0f) * 4 in
        if ihl < 20 \<or> n < off + ihl then None
        else if frame ! (off + 9) \<noteq> 17 then None
        else let udpOff = off + ihl in
        if n < udpOff + 8 then None
        else let dstPort = be16_at frame (udpOff + 2) in
        if dstPort \<noteq> udpPort then None
        else let udpLen = unat (be16_at frame (udpOff + 4)) in
        if udpLen < 8 \<or> udpOff + udpLen > n then None
        else Some (take (udpLen - 8) (drop (udpOff + 8) frame)))
     else None)"

text \<open>
  What a turn of the loop meets: the \<open>closed\<close> flag on entry, what \<^verbatim>\<open>recvfrom\<close> returns, and
  the flag when an error is examined.  \<open>Read\<close> is \<open>None\<close> while it still waits.
\<close>

datatype 'e recv_outcome = RecvFrame "byte list" | RecvAgain | RecvErr 'e

datatype 'e read_result = ReadOk nat "byte list" | ReadDeadline | ReadClosed | ReadErr 'e

fun rawReceiver_Read ::
    "rawReceiver \<Rightarrow> byte list \<Rightarrow> byte list \<Rightarrow> (bool \<times> 'e recv_outcome \<times> bool) list \<Rightarrow> 'e read_result option"
where
  "rawReceiver_Read r frame buf [] = None"
| "rawReceiver_Read r frame buf ((closed, out, closed') # turns) =
    (if closed then Some ReadClosed
     else case out of
       RecvAgain \<Rightarrow> Some ReadDeadline
     | RecvErr e \<Rightarrow> if closed' then Some ReadClosed else Some (ReadErr e)
     | RecvFrame bytes \<Rightarrow>
         let got = take frameBufLen bytes;
             n = length got;
             frame = put_at frame 0 got
         in case acceptFrame r frame n of
              None \<Rightarrow> rawReceiver_Read r frame buf turns
            | Some payload \<Rightarrow>
                let copied = min (length buf) (length payload)
                in Some (ReadOk copied (put_at buf 0 (take copied payload))))"

text \<open>Closing: the flag is set and the fd closed the first time only.\<close>

definition rawReceiver_Close :: "rawReceiver \<Rightarrow> 'e option \<Rightarrow> 'e option \<times> rawReceiver" where
  "rawReceiver_Close r answer =
    (if rrClosed r then (None, r) else (answer, r\<lparr>rrClosed := True\<rparr>))"

end
