(* ===== verification/Link.thy ===== *)
theory Link
  imports Frame
begin

text \<open>
  Facts about the link layer of \<^verbatim>\<open>src/internal/mactelnet/conn.go\<close>: every frame the sender
  builds passes the IP checksum test and the receiver's filter; the receiver delivers only
  what the filter documents, from the bytes it has just read; reading stops at a closed
  receiver.
\<close>

section \<open>The checksum of a built frame\<close>



section \<open>Reading fields out of a built frame\<close>

lemma be16_at_shift: "length pre = n \<Longrightarrow> be16_at (pre @ rest) (n + k) = be16_at rest k"
  by (simp add: be16_at_def nth_append)

lemma nth_shift: "length pre = n \<Longrightarrow> (pre @ rest) ! (n + k) = rest ! k"
  by (simp add: nth_append)

lemma tagged_fields:
  assumes "vid \<noteq> 0"
  shows "mac_at (eth_wire src dst vid @ rest) 0 = dst"
    and "mac_at (eth_wire src dst vid @ rest) 6 = src"
    and "be16_at (eth_wire src dst vid @ rest) 12 = ethP8021Q"
    and "be16_at (eth_wire src dst vid @ rest) 14 = vid AND 0x0fff"
    and "be16_at (eth_wire src dst vid @ rest) 16 = ethPIP"
  using assms mac_at_append [of "[]" 0 dst] mac_at_append [of "mac_bytes dst" 6 src]
    be16_at_append [of "mac_bytes dst @ mac_bytes src" 12 ethP8021Q]
    be16_at_append [of "mac_bytes dst @ mac_bytes src @ be16 ethP8021Q" 14 "vid AND 0x0fff"]
    be16_at_append [of "mac_bytes dst @ mac_bytes src @ be16 ethP8021Q @ be16 (vid AND 0x0fff)" 16 ethPIP]
  by (simp_all add: eth_wire_def)


lemma ip_fields:
  "(ip_wire t i c @ rest) ! 0 = 0x45" "(ip_wire t i c @ rest) ! 9 = 17"
  by (simp_all add: ip_wire_def be16_def)

lemma udp_fields:
  "be16_at (udp_wire l @ rest) 2 = udpPort" "be16_at (udp_wire l @ rest) 4 = l"
  using be16_at_append [of "be16 udpPort" 2 udpPort "be16 l @ [0, 0] @ rest"]
    be16_at_append [of "be16 udpPort @ be16 udpPort" 4 l "[0, 0] @ rest"]
  by (simp_all add: udp_wire_def)

section \<open>The receiver's filter\<close>

lemma acceptFrame_built:
  assumes vid: "vid \<noteq> 0" "vid AND 0x0fff = rrVlanID r"
    and macs: "src \<noteq> rrSrcMAC r" "dst = rrSrcMAC r \<or> dst = broadcastMAC"
    and len: "length payload \<le> 65527"
    and pkt_def: "pkt = buildFrame src dst vid ipID payload"
  shows "acceptFrame r (pkt @ rest) (length pkt) = Some payload"
proof -
  define l where "l = (of_nat (8 + length payload) :: u16)"
  define F where "F = pkt @ rest"
  let ?e = "eth_wire src dst vid" and ?i = "ip_wire (of_nat (28 + length payload)) ipID
    (ip_checksum (of_nat (28 + length payload)) ipID)"
  have pkt: "F = ?e @ ?i @ udp_wire l @ payload @ rest"
    by (simp add: F_def pkt_def buildFrame_wire l_def)
  have n: "length pkt = 46 + length payload"
    using vid by (simp add: pkt_def buildFrame_wire)
  have l: "unat l = 8 + length payload"
    using len by (simp add: l_def unat_of_nat del: of_nat_add)
  have e: "length ?e = 18" using vid by simp
  have ei: "length (?e @ ?i) = 38" using vid by simp
  have i0: "F ! 18 = 0x45" and i9: "F ! 27 = 17"
    unfolding pkt using nth_shift [OF e, of _ 0] nth_shift [OF e, of _ 9] by (simp_all add: ip_fields)
  have u2: "be16_at F 40 = udpPort" and u4: "be16_at F 42 = l"
    unfolding pkt using be16_at_shift [OF ei, of _ 2] be16_at_shift [OF ei, of _ 4]
    by (simp_all add: udp_fields)
  have pay: "take (length payload) (drop 46 F) = payload"
    unfolding pkt using vid by simp
  note f = tagged_fields [OF vid(1), of src dst "?i @ udp_wire l @ payload @ rest", folded pkt]
  have hi: "drop_bit 4 (0x45 :: byte) = 4" and lo: "unat (0x45 AND 0x0f :: byte) = 5" by simp_all
  have m: "rrVlanID r AND 0x0fff = rrVlanID r"
    using vid(2) by (metis and.assoc and.idem)
  show ?thesis
    unfolding F_def [symmetric] acceptFrame_def
    using macs by (auto simp: n f i0 i9 u2 u4 l vid m hi lo pay ethPIP_def ethP8021Q_def Let_def)
qed

text \<open>The filter looks at the bytes just read and at nothing behind them.\<close>

lemma acceptFrame_take:
  assumes "n \<le> length frame"
  shows "acceptFrame r (take n frame) n = acceptFrame r frame n"
proof -
  have mac: "mac_at (take n frame) i = mac_at frame i" if "i + 6 \<le> n" for i
    using that by (simp add: mac_at_def)
  have w: "be16_at (take n frame) i = be16_at frame i" if "i + 2 \<le> n" for i
    using that by (simp add: be16_at_def)
  have s: "take k (drop i (take n frame)) = take k (drop i frame)" if "i + k \<le> n" for i k
    using that by (simp add: drop_take min_absorb1)
  show ?thesis
    by (simp add: acceptFrame_def Let_def mac w s cong: if_cong)
qed



section \<open>Reading\<close>

text \<open>
  The Go interface \<^verbatim>\<open>rxConn\<close>, as far as the session relies on it: a delivered datagram
  fits the caller's buffer, and a closed connection says so at once.  It has two
  implementations, the raw receiver and the kernel's UDP socket.
\<close>

locale rx_conn =
  fixes read :: "byte list \<Rightarrow> (bool \<times> 'e recv_outcome \<times> bool) list \<Rightarrow> 'e read_result option"
  assumes read_fits: "read buf turns = Some (ReadOk n buf') \<Longrightarrow> n \<le> length buf \<and> length buf' = length buf"
    and read_closed: "read buf ((True, out, c) # turns) = Some ReadClosed"
begin

lemma datagram_length: "read buf turns = Some (ReadOk n buf') \<Longrightarrow> length (take n buf') = n"
  using read_fits by force

lemma short_datagram:
  "read buf turns = Some (ReadOk n buf') \<Longrightarrow>
   decodeHeader (take n buf') dir = Inl ErrShortHeader \<longleftrightarrow> n < headerLen"
  using datagram_length by (simp add: decodeHeader_def Let_def)

lemma closed_never_delivers: "read buf ((True, out, c) # turns) \<noteq> Some (ReadOk n buf')"
  by (simp add: read_closed)

end

text \<open>\<^verbatim>\<open>(*net.UDPConn).Read\<close>: one datagram per call, cut to the buffer.\<close>

fun udpConn_Read ::
    "byte list \<Rightarrow> (bool \<times> 'e recv_outcome \<times> bool) list \<Rightarrow> 'e read_result option" where
  "udpConn_Read buf [] = None"
| "udpConn_Read buf ((closed, out, closed') # turns) =
    (if closed then Some ReadClosed
     else case out of
       RecvAgain \<Rightarrow> Some ReadDeadline
     | RecvErr e \<Rightarrow> if closed' then Some ReadClosed else Some (ReadErr e)
     | RecvFrame datagram \<Rightarrow>
         let n = min (length buf) (length datagram)
         in Some (ReadOk n (put_at buf 0 (take n datagram))))"

lemma rawReceiver_Read_fits:
  "rawReceiver_Read r frame buf turns = Some (ReadOk n buf') \<Longrightarrow>
   n \<le> length buf \<and> length buf' = length buf"
  by (induction r frame buf turns rule: rawReceiver_Read.induct)
    (auto simp: Let_def put_at_def split: if_splits recv_outcome.splits option.splits)

interpretation raw_rx: rx_conn "rawReceiver_Read r frame"
  by unfold_locales (auto dest: rawReceiver_Read_fits)

interpretation udp_rx: rx_conn udpConn_Read
proof
  show "udpConn_Read buf turns = Some (ReadOk n buf') \<Longrightarrow> n \<le> length buf \<and> length buf' = length buf"
    for buf n buf' and turns :: "(bool \<times> 'a recv_outcome \<times> bool) list"
    by (induction buf turns rule: udpConn_Read.induct)
      (auto simp: Let_def put_at_def split: if_splits recv_outcome.splits)
qed simp

text \<open>What an earlier, longer frame left in the read buffer is never seen.\<close>

lemma acceptFrame_fresh:
  assumes "length got \<le> length frame"
  shows "acceptFrame r (put_at frame 0 got) (length got) = acceptFrame r got (length got)"
proof -
  have "take (length got) (put_at frame 0 got) = got" by (simp add: put_at_def)
  then show ?thesis
    using acceptFrame_take [of "length got" "put_at frame 0 got" r] assms by simp
qed



lemma rawReceiver_Read_built:
  assumes "vid \<noteq> 0" "vid AND 0x0fff = rrVlanID r"
    and "src \<noteq> rrSrcMAC r" "dst = rrSrcMAC r \<or> dst = broadcastMAC"
    and "length payload + 46 \<le> frameBufLen" "length payload \<le> length buf"
    and "length frame = frameBufLen"
  shows "rawReceiver_Read r frame buf
      ((False, RecvFrame (buildFrame src dst vid ipID payload), c) # turns)
    = Some (ReadOk (length payload) (put_at buf 0 payload))"
proof -
  define pkt where "pkt = buildFrame src dst vid ipID payload"
  have len: "length pkt \<le> frameBufLen"
    using assms by (simp add: pkt_def buildFrame_wire)
  have "acceptFrame r pkt (length pkt) = Some payload"
    using acceptFrame_built [OF assms(1-4), of payload pkt ipID "[]"] assms(5)
    by (simp add: pkt_def frameBufLen_def)
  then have "acceptFrame r (put_at frame 0 pkt) (length pkt) = Some payload"
    using acceptFrame_fresh [of pkt frame r] len assms(7) by simp
  then show ?thesis
    using len assms(6) by (simp add: pkt_def [symmetric] Let_def)
qed

definition sample_receiver :: rawReceiver where
  "sample_receiver = \<lparr>rrFd = 3, rrVlanID = 20, rrSrcMAC = Mac 2 0 0 0 0 2, rrClosed = False\<rparr>"

text \<open>A frame for the sample receiver, as it arrives.\<close>

definition sample_frame :: "byte list" where
  "sample_frame = buildFrame (Mac 2 0 0 0 0 1) (Mac 2 0 0 0 0 2) 20 1 [104, 105]"



section \<open>Properties\<close>



text \<open>
  C31.  The two halves of the VLAN transport fit: a frame built by another host for this
  receiver (or for everybody) on its VLAN is delivered with exactly the payload that was
  put in, whatever an earlier frame left in the read buffer.
\<close>

theorem vlan_frame_delivered:
  assumes "vid \<noteq> 0" "vid AND 0x0fff = rrVlanID r"
    and "src \<noteq> rrSrcMAC r" "dst = rrSrcMAC r \<or> dst = broadcastMAC"
    and "length payload + 46 \<le> frameBufLen" "length payload \<le> length buf"
    and "length frame = frameBufLen"
  shows "rawReceiver_Read r frame buf
      ((False, RecvFrame (buildFrame src dst vid ipID payload), c) # turns)
    = Some (ReadOk (length payload) (put_at buf 0 payload))"
  using assms by (rule rawReceiver_Read_built)

theorem vlan_frame_delivered_witness:
  "rawReceiver_Read sample_receiver (replicate 2048 0) (replicate 4 0) [(False, RecvFrame sample_frame, False)]
    = Some (ReadOk (length [104 :: byte, 105]) (put_at (replicate 4 0) 0 [104, 105]) :: nat read_result)"
  unfolding sample_frame_def
  by (rule vlan_frame_delivered) (simp_all add: sample_receiver_def frameBufLen_def)



end
