(* ===== verification/Session.thy ===== *)
theory Session
  imports Link Sequencing
begin

text \<open>
  \<^verbatim>\<open>src/internal/mactelnet/session.go\<close> and \<^verbatim>\<open>loop.go\<close>: the state of a session, what its
  goroutines do to it, and the retransmit driver.  Each operation is a function on the
  record \<open>session\<close>; what the kernel, the clock and the other goroutines contribute (the
  answer of \<^verbatim>\<open>sendto\<close>, the values a channel yields, which ready case a \<^verbatim>\<open>select\<close>
  takes) is an argument.  The Go locks make the operations atomic at this grain; their
  interleaving is the subject of the theory \<open>System\<close>.
\<close>

section \<open>Errors\<close>

type_synonym errno = nat

datatype err =
    ErrClosed | EOF | Errno errno | Canceled | DeadlineExceeded
  | ErrAuthFailed | ErrRetransmitExhausted | ErrAckTimeout
  | ErrWire mt_error
  | Errorf string
  | Wrapf string err string

text \<open>\<open>Wrapf pre e post\<close> is \<^verbatim>\<open>fmt.Errorf("pre%wpost", e)\<close>; \<^verbatim>\<open>errors.Is\<close> looks through it.\<close>

fun errors_Is :: "err \<Rightarrow> err \<Rightarrow> bool" where
  "errors_Is (Wrapf pre e post) target \<longleftrightarrow> Wrapf pre e post = target \<or> errors_Is e target"
| "errors_Is e target \<longleftrightarrow> e = target"

section \<open>The session\<close>

record controlPacket =
  cpCpt :: cpType
  cpBody :: "byte list"

text \<open>
  Channels are the lists of values in their buffers.  \<open>sRxPipe\<close> is the stream of bytes
  written into the pipe, in the order in which its reader gets them; \<open>sCtxErr\<close> is the context's error once it is done;
  closing a descriptor is counted, so that closing it twice would show.  \<open>sSent\<close> logs
  the \<^verbatim>\<open>sendto\<close> calls in the order in which \<open>sendMu\<close> lets them happen.
\<close>

record session =
  sSender :: rawSender
  sSrcMAC :: mac
  sDstMAC :: mac
  sSessionKey :: u16
  sCounters :: counters
  sAckCh :: "u32 list"
  sControlCh :: "controlPacket list"
  sRxPipe :: "byte list"
  sPipeWClosed :: bool
  sPipeRClosed :: bool
  sTerminalMode :: bool
  sCtxErr :: "err option"
  sClosed :: bool
  sConnCloses :: nat
  sSenderCloses :: nat
  sDone :: bool
  sErrVal :: "err option"
  sSent :: "sendto_call list"

definition ackChCap :: nat where "ackChCap = 8"
definition controlChCap :: nat where "controlChCap = 16"

text \<open>The struct literal in \<open>Open\<close>, before the goroutines start.\<close>

definition new_session :: "rawSender \<Rightarrow> mac \<Rightarrow> mac \<Rightarrow> u16 \<Rightarrow> session" where
  "new_session sender src dst key =
    \<lparr>sSender = sender, sSrcMAC = src, sDstMAC = dst, sSessionKey = key,
     sCounters = zero_counters, sAckCh = [], sControlCh = [], sRxPipe = [],
     sPipeWClosed = False, sPipeRClosed = False, sTerminalMode = False, sCtxErr = None,
     sClosed = False, sConnCloses = 0, sSenderCloses = 0, sDone = False, sErrVal = None, sSent = []\<rparr>"

section \<open>Sending\<close>

text \<open>\<^verbatim>\<open>sendMu.Lock(); sender.Send(buf, dstMAC); sendMu.Unlock()\<close>.\<close>

definition session_Send :: "session \<Rightarrow> byte list \<Rightarrow> errno option \<Rightarrow> err option \<times> session" where
  "session_Send s buf answer =
    (case rawSender_Send (sSender s) buf (sDstMAC s) answer of
       (e, call, sender') \<Rightarrow>
         (map_option Errno e, s\<lparr>sSender := sender', sSent := sSent s @ [call]\<rparr>))"

text \<open>
  \<^verbatim>\<open>var buf [headerLen]byte; h.encode(buf[:], dirToServer)\<close>: the buffer has header
  size, so that the bounds check cannot panic.
\<close>

definition header_datagram :: "header \<Rightarrow> byte list" where
  "header_datagram h =
    (case header_encode h (replicate headerLen 0) DirToServer of Ret (buf, n) \<Rightarrow> buf | Panic \<Rightarrow> [])"

lemma header_datagram_ok:
  "header_encode h (replicate headerLen 0) DirToServer = Ret (header_datagram h, headerLen)"
  and header_datagram_wire: "header_datagram h = header_wire h DirToServer"
  by (simp_all add: header_datagram_def header_encode_wire)

definition session_header :: "session \<Rightarrow> pType \<Rightarrow> u32 \<Rightarrow> header" where
  "session_header s t c = \<lparr>hVersion = 0, hPType = t, hSrcAddr = sSrcMAC s, hDstAddr = sDstMAC s,
     hSessionKey = sSessionKey s, hCounter = c\<rparr>"

definition sendSessionStart :: "session \<Rightarrow> errno option \<Rightarrow> err option \<times> session" where
  "sendSessionStart s answer =
    session_Send s (header_datagram (session_header s pTypeSessionStart 0)) answer"

section \<open>Teardown\<close>

text \<open>\<^verbatim>\<open>s.cancel()\<close>: the first error of a context stays.\<close>

definition ctx_cancel :: "session \<Rightarrow> session" where
  "ctx_cancel s = s\<lparr>sCtxErr := (case sCtxErr s of None \<Rightarrow> Some Canceled | Some e \<Rightarrow> Some e)\<rparr>"

definition conn_Close :: "session \<Rightarrow> session" where
  "conn_Close s = s\<lparr>sConnCloses := sConnCloses s + 1\<rparr>"

definition sender_Close :: "session \<Rightarrow> session" where
  "sender_Close s = s\<lparr>sSenderCloses := sSenderCloses s + 1\<rparr>"

definition rxPipeW_Close :: "session \<Rightarrow> session" where
  "rxPipeW_Close s = s\<lparr>sPipeWClosed := True\<rparr>"

definition rxPipeR_Close :: "session \<Rightarrow> session" where
  "rxPipeR_Close s = s\<lparr>sPipeRClosed := True\<rparr>"

text \<open>
  \<open>Close\<close> up to its last wait: it then blocks until the receive loop has closed \<open>done\<close>.
  A second call, or a call after \<open>fail\<close>, returns at once.
\<close>

definition Session_Close :: "session \<Rightarrow> errno option \<Rightarrow> session" where
  "Session_Close s answer =
    (if sClosed s then s
     else
       let s = s\<lparr>sClosed := True\<rparr>;
           end_hdr = session_header s pTypeEnd 0;
           s = snd (session_Send s (header_datagram end_hdr) answer);
           s = ctx_cancel s;
           s = conn_Close s;
           s = sender_Close s;
           s = rxPipeW_Close s
       in rxPipeR_Close s)"

definition Session_fail :: "session \<Rightarrow> err option \<Rightarrow> session" where
  "Session_fail s err =
    (let s = (case err of
                None \<Rightarrow> s
              | Some e \<Rightarrow> s\<lparr>sErrVal := (case sErrVal s of None \<Rightarrow> Some e | Some e' \<Rightarrow> Some e')\<rparr>)
     in if \<not> sClosed s then
          let s = s\<lparr>sClosed := True\<rparr>;
              s = ctx_cancel s;
              s = conn_Close s;
              s = sender_Close s
          in rxPipeW_Close s
        else s)"

section \<open>The receive loop\<close>

text \<open>
  \<^verbatim>\<open>rxPipeW.Write(body)\<close> returns when readers have taken the whole body, or at once
  when an end of the pipe is closed.
\<close>

definition rxPipeW_Write :: "session \<Rightarrow> byte list \<Rightarrow> session" where
  "rxPipeW_Write s body =
    (if sPipeWClosed s \<or> sPipeRClosed s then s else s\<lparr>sRxPipe := sRxPipe s @ body\<rparr>)"

text \<open>
  The callback of \<open>processInboundData\<close>.  The \<^verbatim>\<open>select\<close> sends on \<open>controlCh\<close> or sees the
  context done; with both possible, \<open>pick\<close> says which; with neither the goroutine blocks,
  and the state is \<open>None\<close>.
\<close>

definition deliver :: "bool \<Rightarrow> session option \<Rightarrow> controlRecord \<Rightarrow> bool \<times> session option" where
  "deliver pick st rec =
    (case st of
       None \<Rightarrow> (False, None)
     | Some s \<Rightarrow>
         if crCPType rec = cpTypePlainData then
           (True, Some (if sTerminalMode s then rxPipeW_Write s (crBody rec) else s))
         else if length (sControlCh s) < controlChCap \<and> (sCtxErr s = None \<or> pick) then
           (True, Some (s\<lparr>sControlCh := sControlCh s @ [\<lparr>cpCpt = crCPType rec, cpBody = crBody rec\<rparr>]\<rparr>))
         else if sCtxErr s \<noteq> None then (False, Some s)
         else (False, None))"

definition processInboundData ::
    "bool \<Rightarrow> session \<Rightarrow> header \<Rightarrow> byte list \<Rightarrow> errno option \<Rightarrow> session option" where
  "processInboundData pick s h payload answer =
    (let plen = of_nat (length payload);
         ack = session_header s pTypeAck (ackCounterFor (hCounter h) plen);
         s = snd (session_Send s (header_datagram ack) answer);
         (accepted, cts) = acceptIncoming (sCounters s) (hCounter h);
         s = s\<lparr>sCounters := cts\<rparr>
     in if \<not> accepted then Some s
        else iterateControl (deliver pick) (Some s) payload)"

text \<open>
  One turn of \<open>rxLoop\<close>: what the read returned (with the buffer it filled), what \<^verbatim>\<open>sendto\<close>
  answers to the ACK, and the \<^verbatim>\<open>select\<close> choice.  The result says whether the loop goes on;
  \<open>None\<close> is a turn that blocks.  Slicing the buffer beyond its length panics.
\<close>

record rx_turn =
  rtRead :: "errno read_result"
  rtAnswer :: "errno option"
  rtPick :: bool

definition slice_to :: "byte list \<Rightarrow> nat \<Rightarrow> byte list go" where
  "slice_to buf n = (if n \<le> length buf then Ret (take n buf) else Panic)"

definition ackCh_offer :: "session \<Rightarrow> u32 \<Rightarrow> session" where
  "ackCh_offer s c =
    (if length (sAckCh s) < ackChCap then s\<lparr>sAckCh := sAckCh s @ [c]\<rparr> else s)"

definition rxLoop_turn :: "session \<Rightarrow> rx_turn \<Rightarrow> (bool \<times> session) option go" where
  "rxLoop_turn s t =
    (if sCtxErr s \<noteq> None then Ret (Some (False, s))
     else case rtRead t of
       ReadDeadline \<Rightarrow> Ret (Some (True, s))
     | ReadClosed \<Rightarrow> Ret (Some (False, s))
     | ReadErr e \<Rightarrow> Ret (Some (False, Session_fail s (Some (Errno e))))
     | ReadOk n buf \<Rightarrow>
         if n < headerLen then Ret (Some (True, s))
         else go_bind (slice_to buf n) (\<lambda>datagram.
           case decodeHeader datagram DirToClient of
             Inl derr \<Rightarrow> Ret (Some (True, s))
           | Inr (h, payload) \<Rightarrow>
               if hSessionKey h \<noteq> sSessionKey s then Ret (Some (True, s))
               else if hPType h = pTypeAck then Ret (Some (True, ackCh_offer s (hCounter h)))
               else if hPType h = pTypeData then
                 Ret (map_option (Pair True) (processInboundData (rtPick t) s h payload (rtAnswer t)))
               else if hPType h = pTypeEnd then Ret (Some (False, Session_fail s (Some EOF)))
               else Ret (Some (True, s))))"

text \<open>The loop over a list of turns, and its deferred calls when it returns.\<close>

definition rxLoop_exit :: "session \<Rightarrow> session" where
  "rxLoop_exit s = (rxPipeW_Close s)\<lparr>sDone := True\<rparr>"

fun rxLoop :: "session \<Rightarrow> rx_turn list \<Rightarrow> (bool \<times> session) option go" where
  "rxLoop s [] = Ret (Some (True, s))"
| "rxLoop s (t # ts) =
    go_bind (rxLoop_turn s t) (\<lambda>r. case r of
       None \<Rightarrow> Ret None
     | Some (True, s') \<Rightarrow> rxLoop s' ts
     | Some (False, s') \<Rightarrow> Ret (Some (False, rxLoop_exit s')))"

text \<open>
  One tick of \<open>keepaliveLoop\<close>: the loop ends when the context is done or the session is
  closed, otherwise it sends an ACK at the outgoing counter.
\<close>

definition keepaliveLoop_turn :: "session \<Rightarrow> errno option \<Rightarrow> bool \<times> session" where
  "keepaliveLoop_turn s answer =
    (if sCtxErr s \<noteq> None then (False, s)
     else if sClosed s then (False, s)
     else (True, snd (session_Send s
            (header_datagram (session_header s pTypeAck (ctOut (sCounters s)))) answer)))"

section \<open>Sending data and waiting for the ACK\<close>

text \<open>
  A turn of \<open>waitForAck\<close>: the time at its top and what its \<^verbatim>\<open>select\<close> received.  \<open>None\<close>
  means that it is still waiting.
\<close>

datatype wait_event = GotAck u32 | TimerFired | CtxDone err

fun waitForAck :: "u32 \<Rightarrow> int \<Rightarrow> (int \<times> wait_event) list \<Rightarrow> err option option" where
  "waitForAck want deadline [] = None"
| "waitForAck want deadline ((now, ev) # evs) =
    (let remaining = deadline - now in
     if remaining \<le> 0 then Some (Some ErrAckTimeout)
     else case ev of
       GotAck got \<Rightarrow> if got = want then Some None else waitForAck want deadline evs
     | TimerFired \<Rightarrow> Some (Some ErrAckTimeout)
     | CtxDone e \<Rightarrow> Some (Some e))"

text \<open>
  The retransmit loop over the schedule.  Each attempt comes with the time at which it
  starts, the turns of its wait, and the answer to the transmission that follows it.
\<close>

type_synonym attempt = "int \<times> (int \<times> wait_event) list \<times> errno option"

fun retransmit_loop ::
    "session \<Rightarrow> byte list \<Rightarrow> u32 \<Rightarrow> duration list \<Rightarrow> attempt list \<Rightarrow> (err option \<times> session) option" where
  "retransmit_loop s pkt wantAck [] atts = Some (Some ErrRetransmitExhausted, s)"
| "retransmit_loop s pkt wantAck (d # sched) [] = None"
| "retransmit_loop s pkt wantAck (d # sched) ((start, turns, answer) # atts) =
    (case waitForAck wantAck (start + d) turns of
       None \<Rightarrow> None
     | Some None \<Rightarrow> Some (None, s)
     | Some (Some e) \<Rightarrow>
         if errors_Is e Canceled \<or> errors_Is e DeadlineExceeded then Some (Some e, s)
         else case session_Send s pkt answer of
           (Some e', s') \<Rightarrow> Some (Some e', s')
         | (None, s') \<Rightarrow> retransmit_loop s' pkt wantAck sched atts)"

text \<open>
  \<open>data_packet\<close> is the part between the labels: it reserves the counter and builds the
  datagram.  \<open>sendDataAndWaitAck\<close> drains stale ACKs, sends, picks the schedule by the
  terminal mode it reads at that time, and runs the loop.
\<close>

definition data_packet :: "session \<Rightarrow> byte list \<Rightarrow> u32 \<times> byte list \<times> session" where
  "data_packet s payload =
    (let plen = of_nat (length payload);
         (seq, cts) = reserveOut (sCounters s) plen;
         wantAck = ackCounterFor seq plen;
         pkt = replicate (headerLen + length payload) 0;
         h = session_header s pTypeData seq;
         pkt = (case header_encode h pkt DirToServer of Ret (b, n) \<Rightarrow> b | Panic \<Rightarrow> []);
         pkt = put_at pkt headerLen payload
     in (wantAck, pkt, s\<lparr>sCounters := cts\<rparr>))"

definition sendDataAndWaitAck ::
    "schedules \<Rightarrow> session \<Rightarrow> byte list \<Rightarrow> errno option \<Rightarrow> attempt list \<Rightarrow> (err option \<times> session) option"
where
  "sendDataAndWaitAck cfg s payload answer atts =
    (let s = s\<lparr>sAckCh := []\<rparr>;
         (wantAck, pkt, s) = data_packet s payload
     in case session_Send s pkt answer of
          (Some e, s) \<Rightarrow> Some (Some e, s)
        | (None, s) \<Rightarrow>
            let schedule = dataSchedule cfg;
                schedule = (if \<not> sTerminalMode s then authSchedule cfg else schedule)
            in retransmit_loop s pkt wantAck schedule atts)"

definition Session_Write ::
    "schedules \<Rightarrow> session \<Rightarrow> byte list \<Rightarrow> errno option \<Rightarrow> attempt list \<Rightarrow> ((err + nat) \<times> session) option"
where
  "Session_Write cfg s p answer atts =
    (if sClosed s then Some (Inl ErrClosed, s)
     else if length p = 0 then Some (Inr 0, s)
     else if length p + cpHeaderLen > maxPacket - headerLen then
       Some (Inl (Errorf (''mactelnet: write too large ('' @ decimal (length p) @ '' bytes)'')), s)
     else case encodeControl (replicate (cpHeaderLen + length p) 0) cpTypePlainData p of
       Inl e \<Rightarrow> Some (Inl (ErrWire e), s)
     | Inr (n, payloadBuf) \<Rightarrow>
         map_option (\<lambda>(r, s). (case r of Some e \<Rightarrow> Inl e | None \<Rightarrow> Inr (length p), s))
           (sendDataAndWaitAck cfg s (take n payloadBuf) answer atts))"

definition Session_Resize ::
    "schedules \<Rightarrow> session \<Rightarrow> u16 \<Rightarrow> u16 \<Rightarrow> errno option \<Rightarrow> attempt list \<Rightarrow> (err option \<times> session) option"
where
  "Session_Resize cfg s cols rows answer atts =
    (if sClosed s then Some (Some ErrClosed, s)
     else case encodeControl_at (replicate (2 * (cpHeaderLen + 2)) 0) 0 cpTypeTermWidth (le16 cols) of
       Inl e \<Rightarrow> Some (Some (ErrWire e), s)
     | Inr (n, payloadBuf) \<Rightarrow>
       (case encodeControl_at payloadBuf n cpTypeTermHeight (le16 rows) of
          Inl e \<Rightarrow> Some (Some (ErrWire e), s)
        | Inr (m, payloadBuf) \<Rightarrow> sendDataAndWaitAck cfg s (take (n + m) payloadBuf) answer atts))"

end
