(* ===== verification/Session_Facts.thy ===== *)
theory Session_Facts
  imports Session
begin

text \<open>
  What the session operations guarantee: which frames they put on the wire and how often,
  what they do with an inbound datagram, and what tearing a session down releases.
\<close>

section \<open>Transmissions\<close>

text \<open>The frame that carries \<open>pkt\<close> to the peer under IP identification \<open>i\<close>.\<close>

definition frame_call :: "session \<Rightarrow> byte list \<Rightarrow> u16 \<Rightarrow> sendto_call" where
  "frame_call s pkt i =
    \<lparr>scProtocol = htons (if rsVlanID (sSender s) \<noteq> 0 then ethP8021Q else ethPIP),
     scIfindex = rsIfindex (sSender s), scHalen = 6, scAddr = sDstMAC s,
     scPkt = buildFrame (rsSrcMAC (sSender s)) (sDstMAC s) (rsVlanID (sSender s)) i pkt\<rparr>"

text \<open>
  \<open>transmitted s pkt n s'\<close>: all that happened between \<open>s\<close> and \<open>s'\<close> is that the datagram
  \<open>pkt\<close> was sent \<open>n\<close> times, under consecutive IP identifications.
\<close>

definition transmitted :: "session \<Rightarrow> byte list \<Rightarrow> nat \<Rightarrow> session \<Rightarrow> bool" where
  "transmitted s pkt n s' \<longleftrightarrow>
    (\<exists>errs. s' = s\<lparr>sSender := (sSender s)\<lparr>rsIpID := rsIpID (sSender s) + of_nat n, rsSendErrCount := errs\<rparr>,
       sSent := sSent s @ map (\<lambda>k. frame_call s pkt (rsIpID (sSender s) + 1 + of_nat k)) [0..<n]\<rparr>)"

lemma transmitted_0 [simp]: "transmitted s pkt 0 s"
  unfolding transmitted_def by (rule exI [of _ "rsSendErrCount (sSender s)"]) simp

lemma map_upt_add: "map f [0..<n + m] = map f [0..<n] @ map (\<lambda>k. f (n + k)) [0..<m]"
  by (induction m) (simp_all add: upt_Suc_append del: upt_Suc)

lemma transmitted_trans:
  assumes "transmitted s pkt n s1" and "transmitted s1 pkt m s2"
  shows "transmitted s pkt (n + m) s2"
proof -
  obtain e1 where s1: "s1 = s\<lparr>sSender := (sSender s)\<lparr>rsIpID := rsIpID (sSender s) + of_nat n, rsSendErrCount := e1\<rparr>,
       sSent := sSent s @ map (\<lambda>k. frame_call s pkt (rsIpID (sSender s) + 1 + of_nat k)) [0..<n]\<rparr>"
    using assms(1) unfolding transmitted_def by blast
  obtain e2 where s2: "s2 = s1\<lparr>sSender := (sSender s1)\<lparr>rsIpID := rsIpID (sSender s1) + of_nat m, rsSendErrCount := e2\<rparr>,
       sSent := sSent s1 @ map (\<lambda>k. frame_call s1 pkt (rsIpID (sSender s1) + 1 + of_nat k)) [0..<m]\<rparr>"
    using assms(2) unfolding transmitted_def by blast
  have "frame_call s1 pkt = frame_call s pkt"
    by (rule ext) (simp add: frame_call_def s1)
  then show ?thesis
    unfolding transmitted_def
    by (intro exI [of _ e2]) (simp add: s2 map_upt_add, simp add: s1 algebra_simps)
qed

lemma session_Send_transmits:
  assumes "session_Send s pkt answer = (e, s')"
  shows "transmitted s pkt 1 s' \<and> e = map_option Errno answer"
proof -
  have "\<exists>errs. s' = s\<lparr>sSender := (sSender s)\<lparr>rsIpID := rsIpID (sSender s) + 1, rsSendErrCount := errs\<rparr>,
       sSent := sSent s @ [frame_call s pkt (rsIpID (sSender s) + 1)]\<rparr>"
    using assms
    by (cases answer; cases s; cases "sSender s")
      (auto simp: session_Send_def rawSender_Send_def Let_def frame_call_def)
  moreover have "e = map_option Errno answer"
    using assms by (cases answer) (auto simp: session_Send_def rawSender_Send_def Let_def)
  ultimately show ?thesis by (simp add: transmitted_def)
qed

lemma transmitted_simps:
  assumes "transmitted s pkt n s'"
  shows "sCounters s' = sCounters s" "sAckCh s' = sAckCh s" "sControlCh s' = sControlCh s"
    "sRxPipe s' = sRxPipe s" "sTerminalMode s' = sTerminalMode s" "sCtxErr s' = sCtxErr s"
    "sClosed s' = sClosed s" "sConnCloses s' = sConnCloses s" "sSenderCloses s' = sSenderCloses s"
    "sPipeWClosed s' = sPipeWClosed s" "sPipeRClosed s' = sPipeRClosed s" "sDone s' = sDone s"
    "sErrVal s' = sErrVal s" "sSrcMAC s' = sSrcMAC s" "sDstMAC s' = sDstMAC s"
    "sSessionKey s' = sSessionKey s" "length (sSent s') = length (sSent s) + n"
  using assms by (auto simp: transmitted_def)

section \<open>The retransmit driver\<close>

definition data_datagram :: "session \<Rightarrow> byte list \<Rightarrow> byte list" where
  "data_datagram s payload =
    header_wire (session_header s pTypeData (ctOut (sCounters s))) DirToServer @ payload"

definition advance_out :: "session \<Rightarrow> nat \<Rightarrow> session" where
  "advance_out s n = s\<lparr>sCounters := (sCounters s)\<lparr>ctOut := ctOut (sCounters s) + of_nat n\<rparr>\<rparr>"

definition schedule_for :: "schedules \<Rightarrow> session \<Rightarrow> duration list" where
  "schedule_for cfg s = (if sTerminalMode s then dataSchedule cfg else authSchedule cfg)"

lemma data_packet_spec:
  "data_packet s payload =
    (ctOut (sCounters s) + of_nat (length payload), data_datagram s payload, advance_out s (length payload))"
proof -
  have "headerLen \<le> length (replicate (headerLen + length payload) (0 :: byte))" by simp
  note enc = header_encode_wire [OF this, of _ DirToServer]
  have "put_at (header_wire h DirToServer @ replicate (length payload) 0) headerLen payload
      = header_wire h DirToServer @ payload" for h
    using put_at_append [of "header_wire h DirToServer" headerLen "replicate (length payload) 0" payload "[]"]
    by simp
  then show ?thesis
    by (simp add: data_packet_def enc reserveOut_def ackCounterFor_def data_datagram_def advance_out_def Let_def)
qed

lemma waitForAck_ok:
  "waitForAck want dl turns = Some None \<Longrightarrow> \<exists>now. (now, GotAck want) \<in> set turns \<and> now < dl"
  by (induction want dl turns rule: waitForAck.induct)
    (auto simp: Let_def split: if_splits wait_event.splits)

lemma waitForAck_found:
  assumes "\<forall>(t, e) \<in> set pre. t < dl \<and> (\<exists>c. e = GotAck c \<and> c \<noteq> want)" and "now < dl"
  shows "waitForAck want dl (pre @ (now, GotAck want) # post) = Some None"
  using assms by (induction pre) (auto simp: Let_def)

lemma retransmit_loop_spec:
  assumes "retransmit_loop s pkt want sched atts = Some (r, s')"
  shows "\<exists>n \<le> length sched. transmitted s pkt n s'
    \<and> (r = None \<longrightarrow> (\<exists>(start, turns, a) \<in> set atts. \<exists>now. (now, GotAck want) \<in> set turns))
    \<and> (r = Some ErrRetransmitExhausted \<longrightarrow> n = length sched)"
  using assms
proof (induction s pkt want sched atts rule: retransmit_loop.induct)
  case (1 s pkt want atts)
  then show ?case by (intro exI [of _ 0]) auto
next
  case (3 s pkt want d sched start turns answer atts)
  show ?case
  proof (cases "waitForAck want (start + d) turns")
    case None
    then show ?thesis using 3(2) by simp
  next
    case (Some v)
    show ?thesis
    proof (cases v)
      case None
      then have "r = None" "s' = s" using 3(2) Some by auto
      moreover obtain now where "(now, GotAck want) \<in> set turns"
        using waitForAck_ok Some None by blast
      ultimately show ?thesis by (intro exI [of _ 0]) auto
    next
      case v: (Some e)
      show ?thesis
      proof (cases "errors_Is e Canceled \<or> errors_Is e DeadlineExceeded")
        case True
        then have r: "r = Some e" "s' = s" using 3(2) Some v by auto
        moreover have "e \<noteq> ErrRetransmitExhausted" using True by auto
        ultimately show ?thesis by (intro exI [of _ 0]) auto
      next
        case False
        obtain e1 s1 where send: "session_Send s pkt answer = (e1, s1)" by fastforce
        have t1: "transmitted s pkt 1 s1" and e1: "e1 = map_option Errno answer"
          using session_Send_transmits [OF send] by auto
        show ?thesis
        proof (cases e1)
          case None
          then have "retransmit_loop s1 pkt want sched atts = Some (r, s')"
            using 3(2) Some v False send by auto
          then obtain n where "n \<le> length sched" and t2: "transmitted s1 pkt n s'"
            and rest: "(r = None \<longrightarrow> (\<exists>(start, turns, a) \<in> set atts. \<exists>now. (now, GotAck want) \<in> set turns))"
              "(r = Some ErrRetransmitExhausted \<longrightarrow> n = length sched)"
            using 3(1) [OF Some v False send [symmetric] None] by blast
          then show ?thesis
            using transmitted_trans [OF t1 t2] by (intro exI [of _ "1 + n"]) auto
        next
          case (Some e')
          then have "r = Some e'" "s' = s1" and "\<exists>k. e' = Errno k"
            using 3(2) \<open>waitForAck want (start + d) turns = Some v\<close> v False send e1 by auto
          then show ?thesis using t1 by (intro exI [of _ 1]) auto
        qed
      qed
    qed
  qed
qed simp

text \<open>Attempts that all time out, with every retransmission going out.\<close>

definition timed_out :: "u32 \<Rightarrow> duration \<Rightarrow> attempt \<Rightarrow> bool" where
  "timed_out want d att = (case att of (start, turns, answer) \<Rightarrow>
     waitForAck want (start + d) turns = Some (Some ErrAckTimeout) \<and> answer = None)"

lemma retransmit_loop_skip:
  assumes "list_all2 (timed_out want) sched1 atts1"
  shows "\<exists>s1. transmitted s pkt (length sched1) s1
    \<and> retransmit_loop s pkt want (sched1 @ sched2) (atts1 @ atts2) = retransmit_loop s1 pkt want sched2 atts2"
  using assms
proof (induction sched1 atts1 arbitrary: s rule: list_all2_induct)
  case Nil
  show ?case by (intro exI [of _ s]) simp
next
  case (Cons d sched1 att atts1)
  obtain start turns answer where att: "att = (start, turns, answer)" by (cases att)
  have w: "waitForAck want (start + d) turns = Some (Some ErrAckTimeout)" and a: "answer = None"
    using Cons.hyps(1) by (auto simp: att timed_out_def)
  obtain s0 where send: "session_Send s pkt None = (None, s0)" and t0: "transmitted s pkt 1 s0"
    using session_Send_transmits [of s pkt None] by (cases "session_Send s pkt None") auto
  obtain s1 where "transmitted s0 pkt (length sched1) s1"
    and "retransmit_loop s0 pkt want (sched1 @ sched2) (atts1 @ atts2) = retransmit_loop s1 pkt want sched2 atts2"
    using Cons.IH by blast
  then show ?case
    using transmitted_trans [OF t0] by (intro exI [of _ s1]) (simp add: att w a send)
qed

lemma sendDataAndWaitAck_first:
  obtains e s1 where "session_Send (advance_out (s\<lparr>sAckCh := []\<rparr>) (length payload))
      (data_datagram s payload) answer = (map_option Errno answer, s1)"
    and "transmitted (advance_out (s\<lparr>sAckCh := []\<rparr>) (length payload)) (data_datagram s payload) 1 s1"
    and "sendDataAndWaitAck cfg s payload answer atts =
      (if answer = None then retransmit_loop s1 (data_datagram s payload)
           (ctOut (sCounters s) + of_nat (length payload)) (schedule_for cfg s) atts
       else Some (map_option Errno answer, s1))"
proof -
  let ?s = "advance_out (s\<lparr>sAckCh := []\<rparr>) (length payload)"
  have d: "data_datagram (s\<lparr>sAckCh := []\<rparr>) payload = data_datagram s payload"
    by (simp add: data_datagram_def session_header_def)
  obtain e s1 where send: "session_Send ?s (data_datagram s payload) answer = (e, s1)" by fastforce
  note t = session_Send_transmits [OF send]
  have "sTerminalMode s1 = sTerminalMode s"
    using transmitted_simps(5) [OF conjunct1 [OF t]] by (simp add: advance_out_def)
  then show thesis
    using t send
    by (intro that) (auto simp: sendDataAndWaitAck_def data_packet_spec d schedule_for_def Let_def)
qed

lemma sendDataAndWaitAck_spec:
  assumes "sendDataAndWaitAck cfg s payload answer atts = Some (r, s')"
  shows "\<exists>n. 1 \<le> n \<and> n \<le> length (schedule_for cfg s) + 1
    \<and> transmitted (advance_out (s\<lparr>sAckCh := []\<rparr>) (length payload)) (data_datagram s payload) n s'
    \<and> (r = None \<longrightarrow> (\<exists>(start, turns, a) \<in> set atts. \<exists>now.
          (now, GotAck (ctOut (sCounters s) + of_nat (length payload))) \<in> set turns))
    \<and> (r = Some ErrRetransmitExhausted \<longrightarrow> n = length (schedule_for cfg s) + 1)"
proof -
  obtain s1 where t1: "transmitted (advance_out (s\<lparr>sAckCh := []\<rparr>) (length payload)) (data_datagram s payload) 1 s1"
    and eq: "sendDataAndWaitAck cfg s payload answer atts =
      (if answer = None then retransmit_loop s1 (data_datagram s payload)
           (ctOut (sCounters s) + of_nat (length payload)) (schedule_for cfg s) atts
       else Some (map_option Errno answer, s1))"
    by (rule sendDataAndWaitAck_first)
  show ?thesis
  proof (cases answer)
    case (Some e)
    then show ?thesis using assms eq t1 by (intro exI [of _ 1]) auto
  next
    case None
    then have "retransmit_loop s1 (data_datagram s payload)
        (ctOut (sCounters s) + of_nat (length payload)) (schedule_for cfg s) atts = Some (r, s')"
      using assms eq by simp
    from retransmit_loop_spec [OF this] obtain n where "n \<le> length (schedule_for cfg s)"
      and "transmitted s1 (data_datagram s payload) n s'"
      and "r = None \<longrightarrow> (\<exists>(start, turns, a) \<in> set atts. \<exists>now.
          (now, GotAck (ctOut (sCounters s) + of_nat (length payload))) \<in> set turns)"
      and "r = Some ErrRetransmitExhausted \<longrightarrow> n = length (schedule_for cfg s)" by blast
    then show ?thesis using transmitted_trans [OF t1] by (intro exI [of _ "1 + n"]) auto
  qed
qed

lemma sendDataAndWaitAck_confirmed:
  assumes "schedule_for cfg s = sched1 @ d # sched2" and "list_all2 (timed_out want) sched1 atts1"
    and "want = ctOut (sCounters s) + of_nat (length payload)"
    and "waitForAck want (start + d) turns = Some None"
  shows "\<exists>s'. sendDataAndWaitAck cfg s payload None (atts1 @ (start, turns, a) # atts2) = Some (None, s')
    \<and> transmitted (advance_out (s\<lparr>sAckCh := []\<rparr>) (length payload)) (data_datagram s payload) (length sched1 + 1) s'"
proof -
  obtain s1 where t1: "transmitted (advance_out (s\<lparr>sAckCh := []\<rparr>) (length payload)) (data_datagram s payload) 1 s1"
    and eq: "sendDataAndWaitAck cfg s payload None (atts1 @ (start, turns, a) # atts2) =
      retransmit_loop s1 (data_datagram s payload) want (sched1 @ d # sched2) (atts1 @ (start, turns, a) # atts2)"
    using sendDataAndWaitAck_first [of s payload None cfg "atts1 @ (start, turns, a) # atts2"] assms(1,3)
    by metis
  obtain s2 where t2: "transmitted s1 (data_datagram s payload) (length sched1) s2"
    and "retransmit_loop s1 (data_datagram s payload) want (sched1 @ d # sched2) (atts1 @ (start, turns, a) # atts2)
      = retransmit_loop s2 (data_datagram s payload) want (d # sched2) ((start, turns, a) # atts2)"
    using retransmit_loop_skip [OF assms(2)] by blast
  then show ?thesis
    using eq assms(4) transmitted_trans [OF t1 t2] by (intro exI [of _ s2]) simp
qed

lemma sendDataAndWaitAck_exhausted:
  assumes "list_all2 (timed_out want) (schedule_for cfg s) atts"
    and "want = ctOut (sCounters s) + of_nat (length payload)"
  shows "\<exists>s'. sendDataAndWaitAck cfg s payload None atts = Some (Some ErrRetransmitExhausted, s')
    \<and> transmitted (advance_out (s\<lparr>sAckCh := []\<rparr>) (length payload)) (data_datagram s payload)
        (length (schedule_for cfg s) + 1) s'"
proof -
  obtain s1 where t1: "transmitted (advance_out (s\<lparr>sAckCh := []\<rparr>) (length payload)) (data_datagram s payload) 1 s1"
    and eq: "sendDataAndWaitAck cfg s payload None atts =
      retransmit_loop s1 (data_datagram s payload) want (schedule_for cfg s) atts"
    using sendDataAndWaitAck_first [of s payload None cfg atts] assms(2) by metis
  obtain s2 where t2: "transmitted s1 (data_datagram s payload) (length (schedule_for cfg s)) s2"
    and "retransmit_loop s1 (data_datagram s payload) want (schedule_for cfg s @ []) (atts @ [])
      = retransmit_loop s2 (data_datagram s payload) want [] []"
    using retransmit_loop_skip [OF assms(1)] by blast
  then show ?thesis
    using eq transmitted_trans [OF t1 t2] by (intro exI [of _ s2]) simp
qed

section \<open>Write and Resize\<close>

lemma encodeControl_plain:
  "encodeControl (replicate (cpHeaderLen + length p) 0) cpTypePlainData p
    = Inr (length p, p @ replicate cpHeaderLen 0)"
  by (simp add: encodeControl_spec control_wire_def Let_def)

lemma Session_Write_sends:
  assumes "\<not> sClosed s" and "p \<noteq> []" and "length p \<le> 1469"
  shows "Session_Write cfg s p answer atts =
    map_option (\<lambda>(r, s). (case r of Some e \<Rightarrow> Inl e | None \<Rightarrow> Inr (length p), s))
      (sendDataAndWaitAck cfg s p answer atts)"
  using assms encodeControl_plain [of p, unfolded cpHeaderLen_def]
  by (simp add: Session_Write_def protocol_lens)

definition resize_payload :: "u16 \<Rightarrow> u16 \<Rightarrow> byte list" where
  "resize_payload cols rows =
    concat (map control_wire [\<lparr>crCPType = cpTypeTermWidth, crBody = le16 cols\<rparr>,
                              \<lparr>crCPType = cpTypeTermHeight, crBody = le16 rows\<rparr>])"

lemma length_resize_wire:
  "length (control_wire \<lparr>crCPType = cpTypeTermWidth, crBody = le16 w\<rparr>) = 11"
  "length (control_wire \<lparr>crCPType = cpTypeTermHeight, crBody = le16 w\<rparr>) = 11"
  by (simp_all add: length_control_wire cpType_defs cpHeaderLen_def)

lemma Session_Resize_sends:
  assumes "\<not> sClosed s"
  shows "Session_Resize cfg s cols rows answer atts
    = sendDataAndWaitAck cfg s (resize_payload cols rows) answer atts"
proof -
  let ?w = "control_wire \<lparr>crCPType = cpTypeTermWidth, crBody = le16 cols\<rparr>"
  let ?h = "control_wire \<lparr>crCPType = cpTypeTermHeight, crBody = le16 rows\<rparr>"
  note l = length_resize_wire
  have "encodeControl_at ([] @ replicate (2 * (cpHeaderLen + 2)) 0) (length ([] :: byte list)) cpTypeTermWidth (le16 cols)
      = Inr (11, ?w @ replicate 11 0)"
    by (subst encodeControl_at_append [OF refl]) (simp add: l cpHeaderLen_def)
  moreover have "encodeControl_at (?w @ replicate 11 0) (length ?w) cpTypeTermHeight (le16 rows) = Inr (11, ?w @ ?h)"
    by (subst encodeControl_at_append [OF refl]) (simp add: l)
  ultimately show ?thesis
    using assms by (simp add: Session_Resize_def resize_payload_def l)
qed

lemma resize_payload_records:
  "controlRecords (resize_payload cols rows)
    = [\<lparr>crCPType = cpTypeTermWidth, crBody = le16 cols\<rparr>, \<lparr>crCPType = cpTypeTermHeight, crBody = le16 rows\<rparr>]"
proof -
  have "controlRecords (resize_payload cols rows @ [])
    = [\<lparr>crCPType = cpTypeTermWidth, crBody = le16 cols\<rparr>, \<lparr>crCPType = cpTypeTermHeight, crBody = le16 rows\<rparr>]
      @ controlRecords []"
    unfolding resize_payload_def
    by (rule control.parse_concat) (simp_all add: length_resize_wire, simp_all add: cpType_defs)
  then show ?thesis by simp
qed

section \<open>Inbound data\<close>

definition inbound_ack :: "session \<Rightarrow> u32 \<Rightarrow> nat \<Rightarrow> byte list" where
  "inbound_ack s c n = header_wire (session_header s pTypeAck (c + of_nat n)) DirToServer"

text \<open>The session after the ACK to an inbound packet, before the duplicate filter.\<close>

definition after_ack :: "session \<Rightarrow> header \<Rightarrow> byte list \<Rightarrow> errno option \<Rightarrow> session" where
  "after_ack s h payload answer = snd (session_Send s (inbound_ack s (hCounter h) (length payload)) answer)"

lemma after_ack_transmits:
  "transmitted s (inbound_ack s (hCounter h) (length payload)) 1 (after_ack s h payload answer)"
  using session_Send_transmits [of s "inbound_ack s (hCounter h) (length payload)" answer]
  unfolding after_ack_def by (metis prod.collapse)

lemmas after_ack_simps [simp] = transmitted_simps [OF after_ack_transmits]

lemma processInboundData_cases:
  "processInboundData pick s h payload answer =
    (case acceptIncoming (sCounters s) (hCounter h) of
       (False, cts) \<Rightarrow> Some (after_ack s h payload answer)
     | (True, cts) \<Rightarrow> foldWhile (deliver pick)
         (Some ((after_ack s h payload answer)\<lparr>sCounters := cts\<rparr>)) (controlRecords payload))"
proof -
  obtain v cts where v: "acceptIncoming (sCounters s) (hCounter h) = (v, cts)" by fastforce
  have "session_header s pTypeAck (hCounter h + of_nat (length payload)) = session_header s pTypeAck
      (ackCounterFor (hCounter h) (of_nat (length payload)))" by (simp add: ackCounterFor_def)
  then have a: "snd (session_Send s (header_datagram (session_header s pTypeAck
      (ackCounterFor (hCounter h) (of_nat (length payload))))) answer) = after_ack s h payload answer"
    by (simp add: after_ack_def inbound_ack_def header_datagram_wire)
  show ?thesis
  proof (cases v)
    case False
    then have "cts = sCounters s" using v by (simp add: acceptIncoming_False)
    then have "(after_ack s h payload answer)\<lparr>sCounters := cts\<rparr> = after_ack s h payload answer"
      by simp
    then show ?thesis
      using False by (simp add: processInboundData_def Let_def a v)
  qed (simp add: processInboundData_def Let_def a v iterateControl_foldWhile)
qed

definition plain_of :: "controlRecord list \<Rightarrow> byte list" where
  "plain_of rs = concat (map crBody (filter (\<lambda>r. crCPType r = cpTypePlainData) rs))"

definition control_of :: "controlRecord list \<Rightarrow> controlPacket list" where
  "control_of rs = map (\<lambda>r. \<lparr>cpCpt = crCPType r, cpBody = crBody r\<rparr>)
     (filter (\<lambda>r. crCPType r \<noteq> cpTypePlainData) rs)"

text \<open>
  With room in the channel for every control record of the packet, the whole packet is
  dispatched: terminal bytes to the reader (in terminal mode, with the pipe open), control
  records to the channel, in order.
\<close>

lemma foldWhile_deliver:
  assumes "length (sControlCh s) + length (control_of rs) \<le> controlChCap"
    and "sCtxErr s = None \<or> pick"
  shows "foldWhile (deliver pick) (Some s) rs = Some (s\<lparr>
      sRxPipe := sRxPipe s @ (if sTerminalMode s \<and> \<not> sPipeWClosed s \<and> \<not> sPipeRClosed s then plain_of rs else []),
      sControlCh := sControlCh s @ control_of rs\<rparr>)"
  using assms
proof (induction rs arbitrary: s)
  case Nil
  then show ?case by (simp add: plain_of_def control_of_def)
next
  case (Cons r rs)
  show ?case
  proof (cases "crCPType r = cpTypePlainData")
    case True
    let ?s = "if sTerminalMode s then rxPipeW_Write s (crBody r) else s"
    have len: "length (sControlCh ?s) + length (control_of rs) \<le> controlChCap"
      using Cons.prems True by (auto simp: control_of_def rxPipeW_Write_def)
    have ctx: "sCtxErr ?s = None \<or> pick"
      using Cons.prems by (auto simp: rxPipeW_Write_def)
    show ?thesis
      using Cons.IH [OF len ctx] True
      by (simp add: deliver_def plain_of_def control_of_def rxPipeW_Write_def)
  next
    case False
    let ?s = "s\<lparr>sControlCh := sControlCh s @ [\<lparr>cpCpt = crCPType r, cpBody = crBody r\<rparr>]\<rparr>"
    have len: "length (sControlCh ?s) + length (control_of rs) \<le> controlChCap"
      using Cons.prems False by (simp add: control_of_def)
    have room: "length (sControlCh s) < controlChCap"
      using Cons.prems False by (simp add: control_of_def)
    show ?thesis
      using Cons.IH [OF len] Cons.prems(2) False room
      by (auto simp: deliver_def plain_of_def control_of_def)
  qed
qed

lemma processInboundData_dispatch:
  assumes "acceptIncoming (sCounters s) (hCounter h) = (True, cts)"
    and "length (sControlCh s) + length (control_of (controlRecords payload)) \<le> controlChCap"
    and "sCtxErr s = None \<or> pick"
  shows "processInboundData pick s h payload answer = Some ((after_ack s h payload answer)\<lparr>
      sCounters := (sCounters s)\<lparr>ctInSeen := True, ctIn := hCounter h\<rparr>,
      sRxPipe := sRxPipe s @ (if sTerminalMode s \<and> \<not> sPipeWClosed s \<and> \<not> sPipeRClosed s
                              then plain_of (controlRecords payload) else []),
      sControlCh := sControlCh s @ control_of (controlRecords payload)\<rparr>)"
  using assms acceptIncoming_True [OF assms(1)]
  by (simp add: processInboundData_cases foldWhile_deliver)

section \<open>The invariant of a session\<close>

text \<open>
  The channels keep within their buffers; the sockets have been closed exactly when the
  session is closed, and once each; a closed session has a done context and a closed pipe.
\<close>

definition session_inv :: "session \<Rightarrow> bool" where
  "session_inv s \<longleftrightarrow> length (sAckCh s) \<le> ackChCap \<and> length (sControlCh s) \<le> controlChCap
    \<and> sConnCloses s = (if sClosed s then 1 else 0) \<and> sSenderCloses s = (if sClosed s then 1 else 0)
    \<and> (sClosed s \<longrightarrow> sCtxErr s \<noteq> None \<and> sPipeWClosed s)"

lemma session_inv_transmitted: "transmitted s pkt n s' \<Longrightarrow> session_inv s' = session_inv s"
  by (simp add: session_inv_def transmitted_simps)

lemma session_inv_new: "session_inv (new_session sender src dst key)"
  by (simp add: session_inv_def new_session_def)

lemma session_Send_snd: "transmitted s pkt 1 (snd (session_Send s pkt answer))"
  using session_Send_transmits [of s pkt answer] by (metis prod.collapse)

lemma session_inv_fail [intro]: "session_inv s \<Longrightarrow> session_inv (Session_fail s e)"
  by (auto simp: session_inv_def Session_fail_def ctx_cancel_def conn_Close_def sender_Close_def
      rxPipeW_Close_def Let_def split: option.splits)

lemma session_inv_Close [intro]: "session_inv s \<Longrightarrow> session_inv (Session_Close s answer)"
  using transmitted_simps [OF session_Send_snd, of "s\<lparr>sClosed := True\<rparr>"
      "header_datagram (session_header (s\<lparr>sClosed := True\<rparr>) pTypeEnd 0)" answer]
  by (auto simp: session_inv_def Session_Close_def ctx_cancel_def conn_Close_def sender_Close_def
      rxPipeW_Close_def rxPipeR_Close_def Let_def split: option.splits)

lemma deliver_inv:
  "(\<forall>s. st = Some s \<longrightarrow> session_inv s) \<Longrightarrow> deliver pick st r = (goon, Some s') \<Longrightarrow> session_inv s'"
  by (auto simp: deliver_def session_inv_def rxPipeW_Write_def split: option.splits if_splits)

lemma foldWhile_deliver_inv:
  "session_inv s \<Longrightarrow> foldWhile (deliver pick) (Some s) rs = Some s' \<Longrightarrow> session_inv s'"
proof (induction rs arbitrary: s)
  case (Cons r rs)
  obtain goon st where d: "deliver pick (Some s) r = (goon, st)" by fastforce
  show ?case
  proof (cases st)
    case None
    have "foldWhile (deliver pick) None rs = None"
      by (cases rs) (simp_all add: deliver_def)
    then show ?thesis using Cons.prems d None by (simp split: if_splits)
  next
    case (Some s1)
    then have "session_inv s1" using deliver_inv [of "Some s"] Cons.prems(1) d by blast
    then show ?thesis using Cons d Some by (auto split: if_splits)
  qed
qed simp

lemma processInboundData_inv:
  assumes "session_inv s" and "processInboundData pick s h payload answer = Some s'"
  shows "session_inv s'"
proof -
  have a: "session_inv ((after_ack s h payload answer)\<lparr>sCounters := cts\<rparr>)" for cts
    using session_inv_transmitted [OF after_ack_transmits] assms(1)
    by (simp add: session_inv_def)
  have "session_inv (after_ack s h payload answer)"
    using session_inv_transmitted [OF after_ack_transmits] assms(1) by simp
  then show ?thesis
    using assms(2) foldWhile_deliver_inv [OF a]
    by (auto simp: processInboundData_cases split: prod.splits bool.splits)
qed

interpretation acks: dropping_channel ackCh_offer sAckCh ackChCap
  by unfold_locales (simp add: ackCh_offer_def)

lemma rxLoop_turn_inv:
  assumes "session_inv s" and "rxLoop_turn s t = Ret (Some (goon, s'))"
  shows "session_inv s'"
proof -
  have offer: "session_inv (ackCh_offer s c)" for c
    using assms(1) acks.offer_bounded [of s c] by (simp add: session_inv_def) (simp add: ackCh_offer_def)
  show ?thesis
  proof (cases "sCtxErr s = None")
    case False
    then show ?thesis using assms by (auto simp: rxLoop_turn_def)
  next
    case ctx: True
    show ?thesis
    proof (cases "rtRead t")
      case (ReadOk n buf)
      show ?thesis
      proof (cases "n < headerLen")
        case True
        then show ?thesis using assms ctx ReadOk by (auto simp: rxLoop_turn_def)
      next
        case False
        then obtain d where d: "slice_to buf n = Ret d"
          using assms(2) ctx ReadOk by (auto simp: rxLoop_turn_def)
        show ?thesis
        proof (cases "decodeHeader d DirToClient")
          case (Inl e)
          then show ?thesis using assms ctx ReadOk False d by (simp add: rxLoop_turn_def)
        next
          case (Inr hp)
          obtain h payload where hp: "hp = (h, payload)" by (cases hp)
          have "(goon, s') \<in> {(True, s), (True, ackCh_offer s (hCounter h)), (False, Session_fail s (Some EOF))}
            \<or> processInboundData (rtPick t) s h payload (rtAnswer t) = Some s'"
            using assms(2) ctx ReadOk False d Inr hp by (simp add: rxLoop_turn_def split: if_splits)
          then show ?thesis using assms(1) offer processInboundData_inv [OF assms(1)] by auto
        qed
      qed
    qed (use assms ctx in \<open>auto simp: rxLoop_turn_def\<close>)
  qed
qed

lemma rxLoop_inv:
  "session_inv s \<Longrightarrow> rxLoop s ts = Ret (Some (goon, s')) \<Longrightarrow> session_inv s'"
proof (induction s ts rule: rxLoop.induct)
  case (2 s t ts)
  then obtain goon1 s1 where t: "rxLoop_turn s t = Ret (Some (goon1, s1))"
    by (auto split: option.splits)
  then have inv: "session_inv s1" using rxLoop_turn_inv 2(2) by blast
  show ?case
  proof (cases goon1)
    case True
    then show ?thesis using 2 t inv by simp
  next
    case False
    then have "s' = rxLoop_exit s1" using 2(3) t by simp
    then show ?thesis using inv by (simp add: session_inv_def rxLoop_exit_def rxPipeW_Close_def)
  qed
qed simp

text \<open>
  The receive loop as a client of a connection: what a read delivers never makes it slice
  beyond its buffer, and a closed connection ends it.
\<close>

locale session_conn = rx_conn read
  for read :: "byte list \<Rightarrow> (bool \<times> errno recv_outcome \<times> bool) list \<Rightarrow> errno read_result option"
begin

lemma rx_turn_no_panic:
  assumes "read buf turns = Some (rtRead t)"
  shows "is_ret (rxLoop_turn s t)"
proof -
  have "n \<le> length buf'" if "rtRead t = ReadOk n buf'" for n buf'
    using read_fits [of buf turns n buf'] assms that by simp
  then show ?thesis
    by (auto simp: rxLoop_turn_def slice_to_def split: read_result.splits sum.splits)
qed

lemma rx_ends_when_closed:
  assumes "read buf ((True, out, c) # turns) = Some (rtRead t)"
  shows "rxLoop s (t # ts) = Ret (Some (False, rxLoop_exit s))"
  using assms by (simp add: rxLoop_turn_def read_closed)

end

interpretation raw_session: session_conn "rawReceiver_Read r frame"
  by unfold_locales

interpretation udp_session: session_conn udpConn_Read
  by unfold_locales

section \<open>A stop-and-wait sender at the other end\<close>

text \<open>
  The device sends packet \<open>i\<close> of a stream at the counter that counts the bytes before
  it.  Under stop-and-wait packet \<open>i + 1\<close> is not sent before packet \<open>i\<close> was
  acknowledged, but copies of old packets may still arrive: \<open>arrival_ok\<close> says so of the
  indices of the packets in their order of arrival, \<open>m\<close> being the number of different
  packets that have arrived before, and that an old copy is at most 65535 bytes late.
\<close>

definition offset_of :: "byte list list \<Rightarrow> nat \<Rightarrow> nat" where
  "offset_of ps i = sum_list (map length (take i ps))"

fun arrival_ok :: "byte list list \<Rightarrow> nat \<Rightarrow> nat list \<Rightarrow> bool" where
  "arrival_ok ps m [] = True"
| "arrival_ok ps m (i # is) \<longleftrightarrow>
     i \<le> m \<and> i < length ps \<and> offset_of ps (m - 1) \<le> offset_of ps i + 65535
     \<and> arrival_ok ps (max m (Suc i)) is"

fun highest :: "nat \<Rightarrow> nat list \<Rightarrow> nat" where
  "highest m [] = m"
| "highest m (i # is) = highest (max m (Suc i)) is"

text \<open>The receive side run over such arrivals, each packet with its own header.\<close>

definition stream_header :: "session \<Rightarrow> u32 \<Rightarrow> byte list list \<Rightarrow> nat \<Rightarrow> header" where
  "stream_header s c0 ps i = \<lparr>hVersion = 1, hPType = pTypeData, hSrcAddr = sDstMAC s,
     hDstAddr = sSrcMAC s, hSessionKey = sSessionKey s, hCounter = c0 + of_nat (offset_of ps i)\<rparr>"

fun receive_stream ::
    "session option \<Rightarrow> u32 \<Rightarrow> byte list list \<Rightarrow> (nat \<times> errno option) list \<Rightarrow> session option" where
  "receive_stream st c0 ps [] = st"
| "receive_stream st c0 ps ((i, answer) # is) =
    (case st of
       None \<Rightarrow> None
     | Some s \<Rightarrow> receive_stream (processInboundData True s (stream_header s c0 ps i) (ps ! i) answer) c0 ps is)"

lemma offset_of_Suc: "i < length ps \<Longrightarrow> offset_of ps (Suc i) = offset_of ps i + length (ps ! i)"
  by (simp add: offset_of_def take_Suc_conv_app_nth)

lemma offset_of_mono: "i \<le> j \<Longrightarrow> offset_of ps i \<le> offset_of ps j"
proof -
  assume "i \<le> j"
  then have "take j ps = take i ps @ take (j - i) (drop i ps)"
    by (metis le_add_diff_inverse take_add)
  then show ?thesis by (simp add: offset_of_def)
qed

lemma offset_of_strict:
  "i < j \<Longrightarrow> i < length ps \<Longrightarrow> ps ! i \<noteq> [] \<Longrightarrow> offset_of ps i < offset_of ps j"
  using offset_of_mono [of "Suc i" j ps] offset_of_Suc [of i ps] by (cases "ps ! i") auto

text \<open>What the receiver has seen when \<open>m\<close> packets of the stream have been accepted.\<close>

definition at_packet :: "session \<Rightarrow> u32 \<Rightarrow> byte list list \<Rightarrow> nat \<Rightarrow> bool" where
  "at_packet s c0 ps m \<longleftrightarrow>
    (if m = 0 then \<not> ctInSeen (sCounters s)
     else ctInSeen (sCounters s) \<and> ctIn (sCounters s) = c0 + of_nat (offset_of ps (m - 1)))"

lemma stream_verdict:
  assumes at: "at_packet s c0 ps m" and "i \<le> m" and "i < length ps" and "m \<le> length ps"
    and nonempty: "\<forall>p \<in> set ps. p \<noteq> []"
    and size: "unat c0 + offset_of ps (length ps) < 2 ^ 32"
    and near: "offset_of ps (m - 1) \<le> offset_of ps i + 65535"
  shows "fst (acceptIncoming (sCounters s) (c0 + of_nat (offset_of ps i))) \<longleftrightarrow> i = m"
proof (cases "m = 0")
  case True
  then show ?thesis using at assms(2) by (simp add: at_packet_def acceptIncoming_def)
next
  case False
  then have seen: "ctInSeen (sCounters s)" and mark: "ctIn (sCounters s) = c0 + of_nat (offset_of ps (m - 1))"
    using at by (simp_all add: at_packet_def)
  have u: "unat (c0 + of_nat (offset_of ps j)) = unat c0 + offset_of ps j" if "j \<le> length ps" for j
  proof -
    have "offset_of ps j \<le> offset_of ps (length ps)" using that by (rule offset_of_mono)
    then show ?thesis using size by (simp add: unat_word_ariths unat_of_nat)
  qed
  have ui: "unat (c0 + of_nat (offset_of ps i)) = unat c0 + offset_of ps i"
    and um: "unat (ctIn (sCounters s)) = unat c0 + offset_of ps (m - 1)"
    using u [of i] u [of "m - 1"] mark assms(3,4) by simp_all
  show ?thesis
  proof (cases "i = m")
    case True
    have "ps ! (m - 1) \<noteq> []" using nonempty assms(3) False True by simp
    then have "offset_of ps (m - 1) < offset_of ps i"
      using offset_of_strict [of "m - 1" i ps] False True assms(3) by simp
    then have "ctIn (sCounters s) < c0 + of_nat (offset_of ps i)"
      using ui um by (simp add: word_less_nat_alt)
    then show ?thesis using True seen by (simp add: acceptIncoming_def)
  next
    case False': False
    then have "offset_of ps i \<le> offset_of ps (m - 1)"
      using assms(2) by (intro offset_of_mono) simp
    then have "acceptIncoming (sCounters s) (c0 + of_nat (offset_of ps i)) = (False, sCounters s)"
      using seen ui um near by (simp add: acceptIncoming_False)
    then show ?thesis using False' by simp
  qed
qed


text \<open>
  The reader gets the plain bytes of each packet once and in order, the handshake the
  control records of each packet once and in order.
\<close>

definition stream_plain :: "byte list list \<Rightarrow> nat \<Rightarrow> nat \<Rightarrow> byte list" where
  "stream_plain ps m n = concat (map (plain_of \<circ> controlRecords) (take (n - m) (drop m ps)))"

definition stream_control :: "byte list list \<Rightarrow> nat \<Rightarrow> nat \<Rightarrow> controlPacket list" where
  "stream_control ps m n = concat (map (control_of \<circ> controlRecords) (take (n - m) (drop m ps)))"

lemma highest_ge: "m \<le> highest m is"
proof (induction "is" arbitrary: m)
  case (Cons i "is")
  have "m \<le> max m (Suc i)" by simp
  also have "\<dots> \<le> highest (max m (Suc i)) is" by (rule Cons.IH)
  finally show ?case by simp
qed simp

lemma take_drop_Suc:
  "m < n \<Longrightarrow> m < length ps \<Longrightarrow> take (n - m) (drop m ps) = ps ! m # take (n - Suc m) (drop (Suc m) ps)"
  by (metis Cons_nth_drop_Suc Suc_diff_Suc take_Suc_Cons)

lemma stream_plain_Suc: "m < n \<Longrightarrow> m < length ps \<Longrightarrow>
    stream_plain ps m n = plain_of (controlRecords (ps ! m)) @ stream_plain ps (Suc m) n"
  and stream_control_Suc: "m < n \<Longrightarrow> m < length ps \<Longrightarrow>
    stream_control ps m n = control_of (controlRecords (ps ! m)) @ stream_control ps (Suc m) n"
  by (simp_all add: stream_plain_def stream_control_def take_drop_Suc)

lemma stream_same [simp]: "stream_plain ps m m = []" "stream_control ps m m = []"
  by (simp_all add: stream_plain_def stream_control_def)

definition same_endpoint :: "session \<Rightarrow> session \<Rightarrow> bool" where
  "same_endpoint s s' \<longleftrightarrow> sSrcMAC s' = sSrcMAC s \<and> sDstMAC s' = sDstMAC s
     \<and> sSessionKey s' = sSessionKey s \<and> sTerminalMode s' = sTerminalMode s
     \<and> sPipeWClosed s' = sPipeWClosed s \<and> sPipeRClosed s' = sPipeRClosed s \<and> sCtxErr s' = sCtxErr s"

lemma same_endpoint_trans: "same_endpoint a b \<Longrightarrow> same_endpoint b c \<Longrightarrow> same_endpoint a c"
  by (simp add: same_endpoint_def)

lemma receive_packet:
  assumes at: "at_packet s c0 ps m" and "i \<le> m" and "i < length ps" and "m \<le> length ps"
    and nonempty: "\<forall>p \<in> set ps. p \<noteq> []"
    and size: "unat c0 + offset_of ps (length ps) < 2 ^ 32"
    and near: "offset_of ps (m - 1) \<le> offset_of ps i + 65535"
    and room: "length (sControlCh s) + length (stream_control ps m (max m (Suc i))) \<le> controlChCap"
  shows "\<exists>s'. processInboundData True s (stream_header s c0 ps i) (ps ! i) answer = Some s'
    \<and> at_packet s' c0 ps (max m (Suc i)) \<and> same_endpoint s s'
    \<and> sControlCh s' = sControlCh s @ stream_control ps m (max m (Suc i))
    \<and> sRxPipe s' = sRxPipe s @ (if sTerminalMode s \<and> \<not> sPipeWClosed s \<and> \<not> sPipeRClosed s
                                then stream_plain ps m (max m (Suc i)) else [])
    \<and> length (sSent s') = Suc (length (sSent s))"
proof -
  let ?h = "stream_header s c0 ps i" and ?p = "ps ! i"
  have c: "hCounter ?h = c0 + of_nat (offset_of ps i)" by (simp add: stream_header_def)
  note verdict = stream_verdict [OF assms(1-7)]
  show ?thesis
  proof (cases "i = m")
    case False
    obtain v cts where v: "acceptIncoming (sCounters s) (hCounter ?h) = (v, cts)" by fastforce
    then have "v = False" using verdict False c by simp
    then have f: "acceptIncoming (sCounters s) (hCounter ?h) = (False, sCounters s)"
      using v acceptIncoming_False [of "sCounters s" "hCounter ?h" cts] by simp
    have "max m (Suc i) = m" "0 < m" using False assms(2) by simp_all
    then show ?thesis
      using at by (simp add: processInboundData_cases f at_packet_def same_endpoint_def)
  next
    case True
    obtain cts where t: "acceptIncoming (sCounters s) (hCounter ?h) = (True, cts)"
      using verdict True c by (cases "acceptIncoming (sCounters s) (hCounter ?h)") auto
    have m: "max m (Suc i) = Suc m" and lt: "m < length ps" using True assms(3) by auto
    have r: "length (sControlCh s) + length (control_of (controlRecords ?p)) \<le> controlChCap"
      using room True lt by (simp add: m stream_control_Suc)
    have sc: "stream_control ps m (Suc m) = control_of (controlRecords ?p)"
      and sp: "stream_plain ps m (Suc m) = plain_of (controlRecords ?p)"
      using lt True by (simp_all add: stream_control_Suc stream_plain_Suc)
    have "ctInSeen ((sCounters s)\<lparr>ctInSeen := True, ctIn := hCounter ?h\<rparr>)"
      and "ctIn ((sCounters s)\<lparr>ctInSeen := True, ctIn := hCounter ?h\<rparr>) = c0 + of_nat (offset_of ps m)"
      using c True by simp_all
    then show ?thesis
      by (subst processInboundData_dispatch [OF t r]) (simp_all add: m sc sp same_endpoint_def at_packet_def)
  qed
qed

lemma stream_split:
  assumes "m \<le> k" and "k \<le> n"
  shows "stream_plain ps m k @ stream_plain ps k n = stream_plain ps m n"
    and "stream_control ps m k @ stream_control ps k n = stream_control ps m n"
proof -
  have "take (n - m) (drop m ps) = take (k - m) (drop m ps) @ take (n - k) (drop k ps)"
  proof -
    have "n - m = (k - m) + (n - k)" using assms by simp
    then show ?thesis using assms by (simp only: take_add drop_drop) simp
  qed
  then show "stream_plain ps m k @ stream_plain ps k n = stream_plain ps m n"
    and "stream_control ps m k @ stream_control ps k n = stream_control ps m n"
    by (simp_all add: stream_plain_def stream_control_def)
qed

lemma arrival_highest_le: "arrival_ok ps m is \<Longrightarrow> m \<le> length ps \<Longrightarrow> highest m is \<le> length ps"
  by (induction "is" arbitrary: m) auto

lemma receive_stream_spec:
  assumes "at_packet s c0 ps m" and "arrival_ok ps m (map fst is)" and "m \<le> length ps"
    and "\<forall>p \<in> set ps. p \<noteq> []" and "unat c0 + offset_of ps (length ps) < 2 ^ 32"
    and "length (sControlCh s) + length (stream_control ps m (highest m (map fst is))) \<le> controlChCap"
  shows "\<exists>s'. receive_stream (Some s) c0 ps is = Some s'
    \<and> sControlCh s' = sControlCh s @ stream_control ps m (highest m (map fst is))
    \<and> sRxPipe s' = sRxPipe s @ (if sTerminalMode s \<and> \<not> sPipeWClosed s \<and> \<not> sPipeRClosed s
                                then stream_plain ps m (highest m (map fst is)) else [])
    \<and> length (sSent s') = length (sSent s) + length is"
  using assms
proof (induction "is" arbitrary: s m)
  case (Cons p "is")
  obtain i answer where p: "p = (i, answer)" by (cases p)
  let ?m = "max m (Suc i)" and ?n = "highest (max m (Suc i)) (map fst is)"
  have le: "m \<le> ?m" "?m \<le> ?n" by (simp_all add: highest_ge)
  have room: "length (sControlCh s) + length (stream_control ps m ?m) + length (stream_control ps ?m ?n) \<le> controlChCap"
    using Cons.prems(6) stream_split(2) [OF le, of ps, symmetric] by (simp add: p)
  have ok: "i \<le> m" "i < length ps" "offset_of ps (m - 1) \<le> offset_of ps i + 65535"
    "arrival_ok ps ?m (map fst is)" "?m \<le> length ps"
    using Cons.prems(2,3) by (simp_all add: p)
  obtain s1 where s1: "processInboundData True s (stream_header s c0 ps i) (ps ! i) answer = Some s1"
    and at: "at_packet s1 c0 ps ?m" and same: "same_endpoint s s1"
    and ctl: "sControlCh s1 = sControlCh s @ stream_control ps m ?m"
    and pipe: "sRxPipe s1 = sRxPipe s @ (if sTerminalMode s \<and> \<not> sPipeWClosed s \<and> \<not> sPipeRClosed s
                                then stream_plain ps m ?m else [])"
    and sent: "length (sSent s1) = Suc (length (sSent s))"
    using receive_packet [OF Cons.prems(1) ok(1,2) Cons.prems(3,4,5) ok(3)] room by force
  have "length (sControlCh s1) + length (stream_control ps ?m ?n) \<le> controlChCap"
    using room ctl by simp
  from Cons.IH [OF at ok(4,5) Cons.prems(4,5) this] obtain s' where
    "receive_stream (Some s1) c0 ps is = Some s'"
    and "sControlCh s' = sControlCh s1 @ stream_control ps ?m ?n"
    and "sRxPipe s' = sRxPipe s1 @ (if sTerminalMode s1 \<and> \<not> sPipeWClosed s1 \<and> \<not> sPipeRClosed s1
                                then stream_plain ps ?m ?n else [])"
    and "length (sSent s') = length (sSent s1) + length is" by blast
  then show ?case
    using s1 ctl pipe sent same
    by (intro exI [of _ s']) (simp add: p same_endpoint_def stream_split [OF le, of ps, symmetric])
qed simp

end
