(* ===== verification/Session_Properties.thy ===== *)
theory Session_Properties
  imports Session_Facts
begin

text \<open>
  The properties of the session layer: reliable transmission, the terminal interface,
  inbound processing, the receive loop and teardown.
\<close>

section \<open>Sample values for the instances\<close>

definition sample_sender :: rawSender where
  "sample_sender = \<lparr>rsFd = 4, rsIfindex = 2, rsSrcMAC = Mac 2 0 0 0 0 1, rsIpID = 0, rsVlanID = 0,
     rsSendErrCount = 0\<rparr>"

definition sample_session :: session where
  "sample_session = new_session sample_sender (Mac 2 0 0 0 0 1) (Mac 2 0 0 0 0 2) 0xabcd"

definition sample_cfg :: schedules where
  "sample_cfg = \<lparr>authSchedule = upstreamRamp, dataSchedule = upstreamRamp\<rparr>"

lemma sample_schedule: "schedule_for sample_cfg sample_session = upstreamRamp"
  by (simp add: schedule_for_def sample_cfg_def sample_session_def new_session_def)

lemma sample_ctOut: "ctOut (sCounters sample_session) = 0"
  by (simp add: sample_session_def new_session_def zero_counters_def)

lemma sample_want: "3 = ctOut (sCounters sample_session) + of_nat (length [1 :: byte, 2, 3])"
  by (simp add: sample_ctOut)

lemma sample_ramp: "schedule_for sample_cfg sample_session = [] @ 15 * millisecond # tl upstreamRamp"
  "schedule_for sample_cfg sample_session = [15 * millisecond] @ 20 * millisecond # drop 2 upstreamRamp"
  by (simp_all add: sample_schedule upstreamRamp_def)

lemma sample_ack:
  "\<exists>s'. sendDataAndWaitAck sample_cfg sample_session [1, 2, 3] None [(0, [(1, GotAck 3)], None)] = Some (None, s')"
proof -
  have "waitForAck 3 (0 + 15 * millisecond) [(1, GotAck 3)] = Some None"
    by (simp add: millisecond_def)
  from sendDataAndWaitAck_confirmed [OF sample_ramp(1) list_all2_Nil [THEN iffD2, OF refl] sample_want this, of None "[]"]
  show ?thesis by auto
qed

section \<open>Reliable transmission\<close>

text \<open>
  C5.  Whatever happens to the acknowledgements, sending data does this to the session and
  nothing else: the stale ACKs are drained, the outgoing counter advances by the payload
  length once, and one and the same datagram - header with the reserved counter, then the
  payload - goes out at least once and at most once more than the schedule has waits.
  Success means that an ACK for the byte behind the payload was received; exhaustion means
  that every transmission of the schedule was made.
\<close>

theorem data_sent_reliably:
  assumes "sendDataAndWaitAck cfg s payload answer atts = Some (r, s')"
  shows "\<exists>n. 1 \<le> n \<and> n \<le> length (schedule_for cfg s) + 1
    \<and> transmitted (advance_out (s\<lparr>sAckCh := []\<rparr>) (length payload)) (data_datagram s payload) n s'
    \<and> (r = None \<longrightarrow> (\<exists>(start, turns, a) \<in> set atts. \<exists>now.
          (now, GotAck (ctOut (sCounters s) + of_nat (length payload))) \<in> set turns))
    \<and> (r = Some ErrRetransmitExhausted \<longrightarrow> n = length (schedule_for cfg s) + 1)"
  using assms by (rule sendDataAndWaitAck_spec)

theorem data_sent_reliably_witness:
  "\<exists>s' n. sendDataAndWaitAck sample_cfg sample_session [1, 2, 3] None [(0, [(1, GotAck 3)], None)] = Some (None, s')
    \<and> 1 \<le> n \<and> n \<le> 10
    \<and> transmitted (advance_out (sample_session\<lparr>sAckCh := []\<rparr>) 3) (data_datagram sample_session [1, 2, 3]) n s'"
proof -
  obtain s' where run:
    "sendDataAndWaitAck sample_cfg sample_session [1, 2, 3] None [(0, [(1, GotAck 3)], None)] = Some (None, s')"
    using sample_ack by blast
  have l: "length [1 :: byte, 2, 3] = 3" by simp
  from data_sent_reliably [OF run] show ?thesis
    unfolding l using run by (auto simp: sample_schedule)
qed

text \<open>
  When the ACK comes in during some wait of the schedule, after waits that all timed
  out, the call succeeds with exactly one transmission per wait begun; other ACKs that
  arrive before it do not matter.
\<close>

theorem ack_in_time:
  assumes "schedule_for cfg s = sched1 @ d # sched2" and "list_all2 (timed_out want) sched1 atts1"
    and "want = ctOut (sCounters s) + of_nat (length payload)"
    and "\<forall>(t, e) \<in> set stale. t < start + d \<and> (\<exists>c. e = GotAck c \<and> c \<noteq> want)" and "now < start + d"
  shows "\<exists>s'. sendDataAndWaitAck cfg s payload None
        (atts1 @ (start, stale @ (now, GotAck want) # later, a) # atts2) = Some (None, s')
    \<and> transmitted (advance_out (s\<lparr>sAckCh := []\<rparr>) (length payload)) (data_datagram s payload) (length sched1 + 1) s'"
  by (rule sendDataAndWaitAck_confirmed [OF assms(1-3) waitForAck_found [OF assms(4,5)]])

theorem ack_in_time_witness:
  "\<exists>s'. sendDataAndWaitAck sample_cfg sample_session [1, 2, 3] None
        [(0, [(3, TimerFired)], None), (20000000, [(20000001, GotAck 77), (20000002, GotAck 3)], None)] = Some (None, s')
    \<and> transmitted (advance_out (sample_session\<lparr>sAckCh := []\<rparr>) 3) (data_datagram sample_session [1, 2, 3]) 2 s'"
proof -
  have l: "length [1 :: byte, 2, 3] = 3" and two: "length [15 * millisecond] + 1 = 2" by simp_all
  have t: "list_all2 (timed_out 3) [15 * millisecond] [(0, [(3, TimerFired)], None)]"
    by (simp add: timed_out_def millisecond_def)
  have st: "\<forall>(t, e) \<in> set [(20000001, GotAck 77)]. t < 20000000 + 20 * millisecond \<and> (\<exists>c. e = GotAck c \<and> c \<noteq> 3)"
    and now: "20000002 < 20000000 + 20 * millisecond"
    by (simp_all add: millisecond_def)
  from ack_in_time [OF sample_ramp(2) t sample_want st now, of "[]" None "[]"] show ?thesis
    unfolding l two by simp
qed

text \<open>
  When every wait of the schedule times out, the call returns
  \<open>ErrRetransmitExhausted\<close> after one transmission more than the schedule has waits.
\<close>

theorem silence_is_exhaustion:
  assumes "list_all2 (timed_out (ctOut (sCounters s) + of_nat (length payload))) (schedule_for cfg s) atts"
  shows "\<exists>s'. sendDataAndWaitAck cfg s payload None atts = Some (Some ErrRetransmitExhausted, s')
    \<and> transmitted (advance_out (s\<lparr>sAckCh := []\<rparr>) (length payload)) (data_datagram s payload)
        (length (schedule_for cfg s) + 1) s'"
  by (rule sendDataAndWaitAck_exhausted [OF assms refl])

theorem silence_is_exhaustion_witness:
  "\<exists>s'. sendDataAndWaitAck sample_cfg sample_session [1, 2, 3] None (replicate 9 (0, [(3, TimerFired)], None))
        = Some (Some ErrRetransmitExhausted, s')
    \<and> transmitted (advance_out (sample_session\<lparr>sAckCh := []\<rparr>) 3) (data_datagram sample_session [1, 2, 3]) 10 s'"
proof -
  have "list_all2 (timed_out (ctOut (sCounters sample_session) + of_nat (length [1 :: byte, 2, 3])))
      (schedule_for sample_cfg sample_session) (replicate 9 (0, [(3, TimerFired)], None))"
    by (simp add: sample_schedule sample_ctOut upstreamRamp_def millisecond_def timed_out_def numeral_eq_Suc)
  from silence_is_exhaustion [OF this] show ?thesis
    by (simp add: sample_schedule numeral_3_eq_3)
qed

section \<open>The terminal interface\<close>

text \<open>
  \<open>Write\<close> on every branch: a closed session, the empty slice and a slice that would not
  fit a datagram send nothing and change nothing; any other slice is sent, unframed and
  unchanged, as the payload of one DATA packet, and the count returned is its length.
\<close>

theorem write_branches:
  "Session_Write cfg s p answer atts =
    (if sClosed s then Some (Inl ErrClosed, s)
     else if p = [] then Some (Inr 0, s)
     else if 1469 < length p then
       Some (Inl (Errorf (''mactelnet: write too large ('' @ decimal (length p) @ '' bytes)'')), s)
     else map_option (\<lambda>(r, s). (case r of Some e \<Rightarrow> Inl e | None \<Rightarrow> Inr (length p), s))
       (sendDataAndWaitAck cfg s p answer atts))"
proof (cases "sClosed s \<or> p = [] \<or> 1469 < length p")
  case True
  then show ?thesis by (auto simp: Session_Write_def protocol_lens)
next
  case False
  then show ?thesis using Session_Write_sends [of s p] by simp
qed

text \<open>
  \<open>Resize\<close> sends one DATA packet, and a peer that walks it finds the new width and then
  the new height, little-endian.
\<close>

theorem resize_tells_size:
  assumes "\<not> sClosed s"
  shows "\<exists>payload. Session_Resize cfg s cols rows answer atts = sendDataAndWaitAck cfg s payload answer atts
    \<and> map crCPType (controlRecords payload) = [cpTypeTermWidth, cpTypeTermHeight]
    \<and> map (\<lambda>r. le16_at (crBody r) 0) (controlRecords payload) = [cols, rows]"
proof -
  have "le16_at (le16 w) 0 = w" for w
    using le16_at_append [of "[]" 0 w "[]"] by simp
  then show ?thesis
    using Session_Resize_sends [OF assms] by (intro exI [of _ "resize_payload cols rows"])
      (simp add: resize_payload_records)
qed

theorem resize_tells_size_witness:
  "\<exists>payload. Session_Resize sample_cfg sample_session 80 24 None [] = sendDataAndWaitAck sample_cfg sample_session payload None []
    \<and> map (\<lambda>r. le16_at (crBody r) 0) (controlRecords payload) = [80, 24]"
  using resize_tells_size [of sample_session sample_cfg 80 24 None "[]"]
  by (auto simp: sample_session_def new_session_def)

section \<open>Inbound data\<close>

text \<open>
  Every DATA packet is acknowledged with exactly one frame, an ACK whose counter is the
  packet's plus its payload length; a duplicate changes nothing else, and a new packet,
  with room in the channel, hands its terminal bytes to the reader (in terminal mode) and
  its control records to the handshake, in order.
\<close>

theorem inbound_acknowledged:
  assumes "length (sControlCh s) + length (control_of (controlRecords payload)) \<le> controlChCap"
    and "sCtxErr s = None \<or> pick"
  shows "\<exists>s'. processInboundData pick s h payload answer = Some s'
    \<and> (\<exists>s1. transmitted s (inbound_ack s (hCounter h) (length payload)) 1 s1 \<and>
        (if fst (acceptIncoming (sCounters s) (hCounter h))
         then s' = s1\<lparr>
           sCounters := (sCounters s)\<lparr>ctInSeen := True, ctIn := hCounter h\<rparr>,
           sRxPipe := sRxPipe s @ (if sTerminalMode s \<and> \<not> sPipeWClosed s \<and> \<not> sPipeRClosed s
                              then plain_of (controlRecords payload) else []),
           sControlCh := sControlCh s @ control_of (controlRecords payload)\<rparr>
         else s' = s1))"
proof -
  obtain v cts where v: "acceptIncoming (sCounters s) (hCounter h) = (v, cts)" by fastforce
  show ?thesis
  proof (cases v)
    case True
    show ?thesis
      using processInboundData_dispatch [OF _ assms, of h cts answer] after_ack_transmits
      by (intro exI conjI) (auto simp: v True)
  next
    case False
    then show ?thesis
      using after_ack_transmits by (auto simp: processInboundData_cases v)
  qed
qed

theorem inbound_acknowledged_witness:
  "\<exists>s' s1. processInboundData False sample_session (stream_header sample_session 5 [[104, 105]] 0) [104, 105] None = Some s'
    \<and> transmitted sample_session (inbound_ack sample_session 5 2) 1 s1 \<and> sRxPipe s' = []"
proof -
  have c: "length (sControlCh sample_session) + length (control_of (controlRecords [104, 105])) \<le> controlChCap"
    and x: "sCtxErr sample_session = None \<or> False" and p: "sRxPipe sample_session = []" "\<not> sTerminalMode sample_session"
    and f: "fst (acceptIncoming (sCounters sample_session) 5)"
    by (simp_all add: sample_session_def new_session_def controlRecords_plain framed_def cpHeaderLen_def
        control_of_def controlChCap_def acceptIncoming_def zero_counters_def)
  have h: "hCounter (stream_header sample_session 5 [[104, 105]] 0) = 5"
    by (simp add: stream_header_def offset_of_def)
  have l: "length [104 :: byte, 105] = 2" by simp
  from inbound_acknowledged [OF c x, of "stream_header sample_session 5 [[104, 105]] 0" None] show ?thesis
    unfolding h l using p f by auto
qed



text \<open>
  Terminal output that shares a datagram with END_AUTH is lost: the datagram is
  acknowledged and its END_AUTH reaches the handshake, but the reader gets nothing, since
  terminal mode starts only when the handshake has taken the record; when the device
  retransmits the same datagram in terminal mode it is a duplicate.
\<close>

theorem early_output_lost:
  assumes "\<not> sTerminalMode s" and "sCtxErr s = None" and "sControlCh s = []"
    and "\<not> ctInSeen (sCounters s)" and "length plain < 2 ^ 31" and "\<not> framed plain" and "plain \<noteq> []"
    and "payload = control_wire \<lparr>crCPType = cpTypeEndAuth, crBody = []\<rparr> @ plain"
  shows "\<exists>s1 s2. processInboundData pick s h payload answer = Some s1
    \<and> sRxPipe s1 = sRxPipe s \<and> sControlCh s1 = [\<lparr>cpCpt = cpTypeEndAuth, cpBody = []\<rparr>]
    \<and> length (sSent s1) = Suc (length (sSent s))
    \<and> processInboundData pick (s1\<lparr>sTerminalMode := True\<rparr>) h payload answer = Some s2
    \<and> sRxPipe s2 = sRxPipe s"
proof -
  let ?r = "\<lparr>crCPType = cpTypeEndAuth, crBody = []\<rparr>"
  have recs: "controlRecords payload = [?r, \<lparr>crCPType = cpTypePlainData, crBody = plain\<rparr>]"
    using assms(5-8) controlRecords_wire [of ?r plain] by (simp add: controlRecords_plain cpType_defs)
  have room: "length (sControlCh s) + length (control_of (controlRecords payload)) \<le> controlChCap"
    using assms(3) by (simp add: recs control_of_def controlChCap_def)
  have acc: "acceptIncoming (sCounters s) (hCounter h)
      = (True, (sCounters s)\<lparr>ctInSeen := True, ctIn := hCounter h\<rparr>)"
    using assms(4) by (simp add: acceptIncoming_def)
  note one = processInboundData_dispatch [OF acc room, of pick answer]
  have ctl: "control_of (controlRecords payload) = [\<lparr>cpCpt = cpTypeEndAuth, cpBody = []\<rparr>]"
    by (simp add: recs control_of_def cpType_defs)
  show ?thesis
    using assms one ctl by (auto simp: processInboundData_cases acceptIncoming_def)
qed

theorem early_output_lost_witness:
  "\<exists>s1 s2. processInboundData True sample_session (stream_header sample_session 0 [[]] 0)
        (control_wire \<lparr>crCPType = cpTypeEndAuth, crBody = []\<rparr> @ [72, 105]) None = Some s1
    \<and> sRxPipe s1 = [] \<and> processInboundData True (s1\<lparr>sTerminalMode := True\<rparr>) (stream_header sample_session 0 [[]] 0)
        (control_wire \<lparr>crCPType = cpTypeEndAuth, crBody = []\<rparr> @ [72, 105]) None = Some s2
    \<and> sRxPipe s2 = []"
  using early_output_lost [of sample_session "[72, 105]" _ True "stream_header sample_session 0 [[]] 0" None, OF _ _ _ _ _ _ _ refl]
  by (auto simp: sample_session_def new_session_def zero_counters_def framed_def cpHeaderLen_def)

section \<open>The receive loop and teardown\<close>

text \<open>
  C36.  The receive loop never panics on what either kind of connection delivers, and ignores
  a datagram that is short, of another session key, or of an unknown type: it then goes on
  with the session as it was.
\<close>

theorem receive_loop_filters:
  assumes "rawReceiver_Read r frame buf turns = Some (rtRead t) \<or> udpConn_Read buf turns = Some (rtRead t)"
    and "sCtxErr s = None"
  shows "is_ret (rxLoop_turn s t)
    \<and> (\<forall>n buf'. rtRead t = ReadOk n buf' \<longrightarrow>
          n < headerLen
          \<or> hSessionKey (fst (projr (decodeHeader (take n buf') DirToClient))) \<noteq> sSessionKey s
          \<or> hPType (fst (projr (decodeHeader (take n buf') DirToClient))) \<notin> {pTypeAck, pTypeData, pTypeEnd}
          \<longrightarrow> rxLoop_turn s t = Ret (Some (True, s)))"
proof -
  have fits: "n \<le> length buf'" if "rtRead t = ReadOk n buf'" for n buf'
    using assms(1) that raw_rx.read_fits [of r frame buf turns n buf'] udp_rx.read_fits [of buf turns n buf'] by auto
  have ret: "is_ret (rxLoop_turn s t)"
    using assms(1) raw_session.rx_turn_no_panic udp_session.rx_turn_no_panic by blast
  show ?thesis
    using ret assms(2) by (auto simp: rxLoop_turn_def slice_to_def fits decodeHeader_def Let_def)
qed

theorem receive_loop_filters_witness:
  "rxLoop_turn sample_session \<lparr>rtRead = ReadOk 3 [1, 2, 3], rtAnswer = None, rtPick = True\<rparr> = Ret (Some (True, sample_session))"
proof -
  let ?t = "\<lparr>rtRead = ReadOk 3 [1, 2, 3], rtAnswer = None, rtPick = True\<rparr>"
  have "udpConn_Read [0, 0, 0] [(False, RecvFrame [1, 2, 3], False)] = Some (rtRead ?t)"
    by (simp add: put_at_eval)
  then have "rawReceiver_Read r frame [0, 0, 0] [(False, RecvFrame [1, 2, 3], False)] = Some (rtRead ?t)
      \<or> udpConn_Read [0, 0, 0] [(False, RecvFrame [1, 2, 3], False)] = Some (rtRead ?t)" for r frame by blast
  from receive_loop_filters [OF this] show ?thesis
    by (simp add: sample_session_def new_session_def headerLen_def)
qed

text \<open>
  C26.  Teardown: whatever sequence of closes, failures and receive turns hits a session, the
  sockets are closed once, exactly when the session is closed; the first error reported
  stays; and closing again changes nothing.
\<close>

theorem teardown_once:
  assumes "session_inv s"
  shows "session_inv (Session_Close s answer) \<and> session_inv (Session_fail s e)
    \<and> (rxLoop s ts = Ret (Some (goon, s')) \<longrightarrow> session_inv s')
    \<and> Session_Close (Session_Close s answer) answer' = Session_Close s answer
    \<and> Session_Close (Session_fail s e) answer' = Session_fail s e
    \<and> sConnCloses (Session_Close s answer) = 1 \<and> sSenderCloses (Session_fail s e) = 1
    \<and> (sErrVal s = Some e0 \<longrightarrow> sErrVal (Session_fail s e) = Some e0)"
proof -
  have c: "sClosed (Session_Close s answer)" "sClosed (Session_fail s e)"
    using transmitted_simps [OF session_Send_snd, of "s\<lparr>sClosed := True\<rparr>"
        "header_datagram (session_header (s\<lparr>sClosed := True\<rparr>) pTypeEnd 0)" answer]
    by (auto simp: Session_Close_def Session_fail_def ctx_cancel_def conn_Close_def sender_Close_def
      rxPipeW_Close_def rxPipeR_Close_def Let_def)
  have inv: "session_inv (Session_Close s answer)" "session_inv (Session_fail s e)"
    using assms by auto
  have "Session_Close x answer' = x" if "sClosed x" for x
    using that by (simp add: Session_Close_def)
  moreover have "sErrVal s = Some e0 \<longrightarrow> sErrVal (Session_fail s e) = Some e0"
    by (auto simp: Session_fail_def ctx_cancel_def conn_Close_def sender_Close_def rxPipeW_Close_def
        Let_def split: option.splits)
  moreover have "sConnCloses (Session_Close s answer) = 1" "sSenderCloses (Session_fail s e) = 1"
    using inv c by (simp_all add: session_inv_def)
  ultimately show ?thesis using inv c assms rxLoop_inv by blast
qed

theorem teardown_once_witness:
  "sConnCloses (Session_Close sample_session None) = 1 \<and> session_inv (Session_fail sample_session (Some EOF))"
  using teardown_once [OF session_inv_new, of sample_sender "Mac 2 0 0 0 0 1" "Mac 2 0 0 0 0 2" "0xabcd" None]
  by (auto simp: sample_session_def)

end
