(* ===== verification/Hash.thy ===== *)
theory Hash
  imports Prelude
begin

text \<open>
  The two digests of Go's standard library that the authentication uses,
  \<^verbatim>\<open>crypto/sha256\<close> and \<^verbatim>\<open>crypto/md5\<close>, as functions from the bytes written to the
  digest returned.  What the protocol code relies on is their length; the functions are
  executable, so that an instance of the protocol can be evaluated.
\<close>

section \<open>Blocks and padding\<close>

function chunks64 :: "byte list \<Rightarrow> byte list list" where
  "chunks64 b = (if length b < 64 then [] else take 64 b # chunks64 (drop 64 b))"
  by pat_completeness auto
termination by (relation "measure length") auto

declare chunks64.simps [simp del]

text \<open>The message, a one bit, zeros up to 56 modulo 64, and the length in bits.\<close>

definition bit_length :: "byte list \<Rightarrow> 64 word" where
  "bit_length b = of_nat (8 * length b)"

definition be64 :: "64 word \<Rightarrow> byte list" where
  "be64 w = map (\<lambda>i. ucast (drop_bit (56 - 8 * i) w)) [0..<8]"

definition pad_message :: "byte list \<Rightarrow> byte list \<Rightarrow> byte list" where
  "pad_message b len = b @ [0x80] @ replicate ((119 - length b mod 64) mod 64) 0 @ len"

lemma length_pad_message:
  "length len = 8 \<Longrightarrow> 64 dvd length (pad_message b len)"
proof -
  assume len: "length len = 8"
  have "length (pad_message b len) = length b + 9 + (119 - length b mod 64) mod 64"
    by (simp add: pad_message_def len)
  moreover have "64 dvd n + 9 + (119 - n mod 64) mod 64" for n :: nat
  proof -
    define q r where "q = n div 64" and "r = n mod 64"
    have n: "n = 64 * q + r" and r: "r < 64" by (simp_all add: q_def r_def)
    have "\<exists>c. n + 9 + (119 - r) mod 64 = 64 * c"
    proof (cases "r < 56")
      case True
      then have "119 - r = 64 + (55 - r)" by simp
      then have "(119 - r) mod 64 = 55 - r" using r by (simp only: mod_add_self1) simp
      then show ?thesis using n True by (intro exI [of _ "q + 1"]) simp
    next
      case False
      then have "(119 - r) mod 64 = 119 - r" using r by simp
      then show ?thesis using n False r by (intro exI [of _ "q + 2"]) simp
    qed
    then show ?thesis unfolding r_def dvd_def .
  qed
  ultimately show ?thesis by (simp only:)
qed

section \<open>SHA-256\<close>

type_synonym sha_state = "u32 list"

definition sha256_k :: "u32 list" where
  "sha256_k =
    [1116352408, 1899447441, 3049323471, 3921009573, 961987163, 1508970993, 2453635748,
     2870763221, 3624381080, 310598401, 607225278, 1426881987, 1925078388, 2162078206,
     2614888103, 3248222580, 3835390401, 4022224774, 264347078, 604807628, 770255983, 1249150122,
     1555081692, 1996064986, 2554220882, 2821834349, 2952996808, 3210313671, 3336571891,
     3584528711, 113926993, 338241895, 666307205, 773529912, 1294757372, 1396182291, 1695183700,
     1986661051, 2177026350, 2456956037, 2730485921, 2820302411, 3259730800, 3345764771,
     3516065817, 3600352804, 4094571909, 275423344, 430227734, 506948616, 659060556, 883997877,
     958139571, 1322822218, 1537002063, 1747873779, 1955562222, 2024104815, 2227730452,
     2361852424, 2428436474, 2756734187, 3204031479, 3329325298]"

definition sha256_init :: sha_state where
  "sha256_init =
    [1779033703, 3144134277, 1013904242, 2773480762, 1359893119, 2600822924, 528734635, 1541459225]"

definition sigma_word :: "nat \<Rightarrow> nat \<Rightarrow> nat \<Rightarrow> u32 \<Rightarrow> u32" where
  "sigma_word i j k w = word_rotr i w XOR word_rotr j w XOR drop_bit k w"

definition rotate_word :: "nat \<Rightarrow> nat \<Rightarrow> nat \<Rightarrow> u32 \<Rightarrow> u32" where
  "rotate_word i j k w = word_rotr i w XOR word_rotr j w XOR word_rotr k w"

text \<open>The message schedule, extended one word at a time.\<close>

fun extend_words :: "nat \<Rightarrow> u32 list \<Rightarrow> u32 list" where
  "extend_words 0 ws = ws"
| "extend_words (Suc n) ws =
    (let t = length ws
     in extend_words n (ws @ [sigma_word 17 19 10 (ws ! (t - 2)) + ws ! (t - 7)
          + sigma_word 7 18 3 (ws ! (t - 15)) + ws ! (t - 16)]))"

type_synonym sha_regs = "u32 \<times> u32 \<times> u32 \<times> u32 \<times> u32 \<times> u32 \<times> u32 \<times> u32"

definition sha256_round :: "sha_regs \<Rightarrow> u32 \<times> u32 \<Rightarrow> sha_regs" where
  "sha256_round = (\<lambda>(a, b, c, d, e, f, g, h) (k, w).
     let t1 = h + rotate_word 6 11 25 e + ((e AND f) XOR (NOT e AND g)) + k + w;
         t2 = rotate_word 2 13 22 a + ((a AND b) XOR (a AND c) XOR (b AND c))
     in (t1 + t2, a, b, c, d + t1, e, f, g))"

definition sha256_block :: "sha_state \<Rightarrow> byte list \<Rightarrow> sha_state" where
  "sha256_block st blk =
    (let ws = extend_words 48 (map (\<lambda>i. be32_at blk (4 * i)) [0..<16]);
         regs = (st ! 0, st ! 1, st ! 2, st ! 3, st ! 4, st ! 5, st ! 6, st ! 7)
     in case foldl sha256_round regs (zip sha256_k ws) of
          (a, b, c, d, e, f, g, h) \<Rightarrow> map2 (+) st [a, b, c, d, e, f, g, h])"

definition sha256 :: "byte list \<Rightarrow> byte list" where
  "sha256 b = concat (map be32
     (foldl sha256_block sha256_init (chunks64 (pad_message b (be64 (bit_length b))))))"

lemma length_fold_sha256: "length st = 8 \<Longrightarrow> length (foldl sha256_block st blks) = 8"
  by (induction blks arbitrary: st) (simp_all add: sha256_block_def Let_def split: prod.split)

lemma length_sha256 [simp]: "length (sha256 b) = 32"
proof -
  have "length (concat (map be32 ws)) = 4 * length ws" for ws
    by (induction ws) simp_all
  then show ?thesis
    using length_fold_sha256 [of sha256_init] by (simp add: sha256_def sha256_init_def)
qed

section \<open>MD5\<close>

definition md5_t :: "u32 list" where
  "md5_t =
    [3614090360, 3905402710, 606105819, 3250441966, 4118548399, 1200080426, 2821735955,
     4249261313, 1770035416, 2336552879, 4294925233, 2304563134, 1804603682, 4254626195,
     2792965006, 1236535329, 4129170786, 3225465664, 643717713, 3921069994, 3593408605, 38016083,
     3634488961, 3889429448, 568446438, 3275163606, 4107603335, 1163531501, 2850285829,
     4243563512, 1735328473, 2368359562, 4294588738, 2272392833, 1839030562, 4259657740,
     2763975236, 1272893353, 4139469664, 3200236656, 681279174, 3936430074, 3572445317, 76029189,
     3654602809, 3873151461, 530742520, 3299628645, 4096336452, 1126891415, 2878612391,
     4237533241, 1700485571, 2399980690, 4293915773, 2240044497, 1873313359, 4264355552,
     2734768916, 1309151649, 4149444226, 3174756917, 718787259, 3951481745]"

definition md5_init :: "u32 list" where
  "md5_init = [1732584193, 4023233417, 2562383102, 271733878]"

definition md5_shifts :: "nat list" where
  "md5_shifts = concat (map (\<lambda>r. concat (replicate 4 r))
     [[7, 12, 17, 22], [5, 9, 14, 20], [4, 11, 16, 23], [6, 10, 15, 21]])"

text \<open>The mixing function of round \<open>i\<close> and the message word it uses.\<close>

definition md5_mix :: "nat \<Rightarrow> u32 \<Rightarrow> u32 \<Rightarrow> u32 \<Rightarrow> u32" where
  "md5_mix i b c d =
    (if i < 16 then (b AND c) OR (NOT b AND d)
     else if i < 32 then (d AND b) OR (NOT d AND c)
     else if i < 48 then b XOR c XOR d
     else c XOR (b OR NOT d))"

definition md5_index :: "nat \<Rightarrow> nat" where
  "md5_index i =
    (if i < 16 then i else if i < 32 then (5 * i + 1) mod 16
     else if i < 48 then (3 * i + 5) mod 16 else (7 * i) mod 16)"

definition md5_round :: "u32 list \<Rightarrow> u32 \<times> u32 \<times> u32 \<times> u32 \<Rightarrow> nat \<Rightarrow> u32 \<times> u32 \<times> u32 \<times> u32" where
  "md5_round ws = (\<lambda>(a, b, c, d) i.
     (d, b + word_rotl (md5_shifts ! i) (a + md5_mix i b c d + ws ! md5_index i + md5_t ! i), b, c))"

definition md5_block :: "u32 list \<Rightarrow> byte list \<Rightarrow> u32 list" where
  "md5_block st blk =
    (case foldl (md5_round (map (\<lambda>i. le32_at blk (4 * i)) [0..<16])) (st ! 0, st ! 1, st ! 2, st ! 3) [0..<64] of
       (a, b, c, d) \<Rightarrow> map2 (+) st [a, b, c, d])"

definition md5 :: "byte list \<Rightarrow> byte list" where
  "md5 b = concat (map le32
     (foldl md5_block md5_init (chunks64 (pad_message b (rev (be64 (bit_length b)))))))"

lemma length_fold_md5: "length st = 4 \<Longrightarrow> length (foldl md5_block st blks) = 4"
  by (induction blks arbitrary: st) (simp_all add: md5_block_def split: prod.split)

lemma length_md5 [simp]: "length (md5 b) = 16"
proof -
  have "length (concat (map le32 ws)) = 4 * length ws" for ws
    by (induction ws) simp_all
  then show ?thesis
    using length_fold_md5 [of md5_init] by (simp add: md5_def md5_init_def)
qed

end
