(* ===== verification/Auth.thy ===== *)
theory Auth
  imports Protocol Hash
begin

text \<open>
  \<^verbatim>\<open>src/internal/mactelnet/auth.go\<close>: the choice of the authentication mode, the two
  credentials, and the control records of the two packets that the client sends.
\<close>

section \<open>Modes and sizes\<close>

datatype authMode = AuthModeMD5 | AuthModeECSRP

definition md5SaltLen :: nat where "md5SaltLen = 16"
definition ecsrpSaltLen :: nat where "ecsrpSaltLen = 49"
definition ecsrpPubkeyLen :: nat where "ecsrpPubkeyLen = 33"
definition md5ResponseLen :: nat where "md5ResponseLen = 17"
definition ecsrpResponseLen :: nat where "ecsrpResponseLen = 32"
definition mtweiValidatorLen :: nat where "mtweiValidatorLen = 32"

lemmas auth_lens = md5SaltLen_def ecsrpSaltLen_def ecsrpPubkeyLen_def md5ResponseLen_def
  ecsrpResponseLen_def mtweiValidatorLen_def

definition detectAuthMode :: "byte list \<Rightarrow> string + authMode" where
  "detectAuthMode passSaltBody =
    (if length passSaltBody = md5SaltLen then Inr AuthModeMD5
     else if length passSaltBody = ecsrpSaltLen then Inr AuthModeECSRP
     else Inl (''mactelnet: PASSSALT length '' @ decimal (length passSaltBody) @
       '' is neither MD5 (16) nor EC-SRP (49)''))"

section \<open>Credentials\<close>

definition computeMD5Response :: "string \<Rightarrow> byte list \<Rightarrow> byte list" where
  "computeMD5Response password salt =
    (let out = replicate md5ResponseLen 0;
         sum_bytes = md5 ([0x00] @ bytes_of_string password @ salt);
         out = out[0 := 0]
     in put_at out 1 sum_bytes)"

definition mtweiID :: "string \<Rightarrow> string \<Rightarrow> byte list \<Rightarrow> byte list" where
  "mtweiID username password salt =
    (let innerSum = sha256 (bytes_of_string username @ bytes_of_string '':'' @ bytes_of_string password);
         outer = sha256 (salt @ innerSum)
     in put_at (replicate mtweiValidatorLen 0) 0 outer)"

lemma put_at_tail: "length src = length buf \<Longrightarrow> put_at (x # buf) (Suc 0) src = x # src"
  by (simp add: put_at_def)

lemma computeMD5Response_eq:
  "computeMD5Response password salt = 0 # md5 (0 # bytes_of_string password @ salt)"
proof -
  have "replicate md5ResponseLen (0 :: byte) = 0 # replicate 16 0"
    by (simp add: md5ResponseLen_def numeral_eq_Suc)
  then show ?thesis by (simp add: computeMD5Response_def Let_def put_at_tail)
qed

lemma mtweiID_eq:
  "mtweiID username password salt = sha256 (salt @ sha256 (bytes_of_string (username @ '':'' @ password)))"
  by (simp add: mtweiID_def put_at_self mtweiValidatorLen_def del: append_assoc)
    (simp add: bytes_of_string_def)

section \<open>The packets\<close>

definition buildAuthInit :: "byte list \<Rightarrow> string \<Rightarrow> byte list \<Rightarrow> mt_error + nat \<times> byte list" where
  "buildAuthInit buf username clientPub =
    err_bind (encodeControl_at buf 0 cpTypeBeginAuth []) (\<lambda>(n, buf).
     let body = bytes_of_string username @ [0] @ clientPub in
    err_bind (encodeControl_at buf n cpTypePassSalt body) (\<lambda>(m, buf).
      Inr (n + m, buf)))"

definition buildAuthFinish ::
    "byte list \<Rightarrow> byte list \<Rightarrow> byte list \<Rightarrow> byte list \<Rightarrow> u16 \<Rightarrow> u16 \<Rightarrow> mt_error + nat \<times> byte list" where
  "buildAuthFinish buf response username termType cols rows =
    err_bind (encodeControl_at buf 0 cpTypePassword response) (\<lambda>(n, buf).
    err_bind (encodeControl_at buf n cpTypeUsername username) (\<lambda>(m, buf).
     let n = n + m in
    err_bind (encodeControl_at buf n cpTypeTermType termType) (\<lambda>(m, buf).
     let n = n + m; dim = le16 cols in
    err_bind (encodeControl_at buf n cpTypeTermWidth dim) (\<lambda>(m, buf).
     let n = n + m; dim = le16 rows in
    err_bind (encodeControl_at buf n cpTypeTermHeight dim) (\<lambda>(m, buf).
     let n = n + m in Inr (n, buf))))))"

text \<open>Both builders append a list of records, one after the other, or give up.\<close>

fun emit_records :: "byte list \<Rightarrow> nat \<Rightarrow> controlRecord list \<Rightarrow> mt_error + nat \<times> byte list" where
  "emit_records buf n [] = Inr (n, buf)"
| "emit_records buf n (r # rs) =
    err_bind (encodeControl_at buf n (crCPType r) (crBody r)) (\<lambda>(m, buf). emit_records buf (n + m) rs)"

definition rec_of :: "cpType \<Rightarrow> byte list \<Rightarrow> controlRecord" where
  "rec_of ct body = \<lparr>crCPType = ct, crBody = body\<rparr>"

lemma rec_of_simps [simp]: "crCPType (rec_of ct body) = ct" "crBody (rec_of ct body) = body"
  by (simp_all add: rec_of_def)

definition auth_init_records :: "string \<Rightarrow> byte list \<Rightarrow> controlRecord list" where
  "auth_init_records username clientPub =
    [rec_of cpTypeBeginAuth [], rec_of cpTypePassSalt (bytes_of_string username @ [0] @ clientPub)]"

definition auth_finish_records ::
    "byte list \<Rightarrow> byte list \<Rightarrow> byte list \<Rightarrow> u16 \<Rightarrow> u16 \<Rightarrow> controlRecord list" where
  "auth_finish_records response username termType cols rows =
    [rec_of cpTypePassword response, rec_of cpTypeUsername username, rec_of cpTypeTermType termType,
     rec_of cpTypeTermWidth (le16 cols), rec_of cpTypeTermHeight (le16 rows)]"

lemma buildAuthInit_emits:
  "buildAuthInit buf username clientPub = emit_records buf 0 (auth_init_records username clientPub)"
  by (simp add: buildAuthInit_def auth_init_records_def Let_def)

lemma buildAuthFinish_emits:
  "buildAuthFinish buf response username termType cols rows
    = emit_records buf 0 (auth_finish_records response username termType cols rows)"
  by (simp add: buildAuthFinish_def auth_finish_records_def Let_def)

lemma emit_records_spec:
  "emit_records (pre @ post) (length pre) rs =
    (let w = concat (map control_wire rs)
     in if length w \<le> length post then Inr (length pre + length w, pre @ w @ drop (length w) post)
        else Inl ErrShortControl)"
proof (induction rs arbitrary: pre post)
  case (Cons r rs)
  let ?w = "control_wire r"
  have e: "encodeControl_at (pre @ post) (length pre) (crCPType r) (crBody r)
    = (if length ?w > length post then Inl ErrShortControl
       else Inr (length ?w, pre @ ?w @ drop (length ?w) post))"
    by (rule encodeControl_at_append) (cases r, simp)
  show ?case
  proof (cases "length ?w > length post")
    case True
    then show ?thesis by (simp add: e)
  next
    case False
    then show ?thesis
      using Cons.IH [of "pre @ ?w" "drop (length ?w) post"] by (auto simp: e Let_def add.commute)
  qed
qed simp

lemma emit_records_at_0:
  "emit_records buf 0 rs =
    (let w = concat (map control_wire rs)
     in if length w \<le> length buf then Inr (length w, w @ drop (length w) buf) else Inl ErrShortControl)"
  using emit_records_spec [of "[]" buf rs] by (simp add: Let_def)

lemma not_plain_auth:
  "\<forall>r \<in> set (auth_init_records u k). crCPType r \<noteq> cpTypePlainData"
  "\<forall>r \<in> set (auth_finish_records p u' t c r'). crCPType r \<noteq> cpTypePlainData"
  by (simp_all add: auth_init_records_def auth_finish_records_def cpType_defs)

lemma controlRecords_concat:
  assumes "\<forall>r \<in> set rs. crCPType r \<noteq> cpTypePlainData" and "length (concat (map control_wire rs)) < 2 ^ 32"
  shows "controlRecords (concat (map control_wire rs)) = rs"
  using control.parse_concat [of rs "[]"] assms by simp

text \<open>How long the two packets are.\<close>

lemma auth_init_length:
  "length (concat (map control_wire (auth_init_records username clientPub)))
    = 19 + length username + length clientPub"
  by (simp add: auth_init_records_def length_control_wire cpType_defs cpHeaderLen_def)

lemma auth_finish_length:
  "length (concat (map control_wire (auth_finish_records response username termType cols rows)))
    = 49 + length response + length username + length termType"
  by (simp add: auth_finish_records_def length_control_wire cpType_defs cpHeaderLen_def)

section \<open>Properties\<close>

text \<open>
  \<open>buildAuthInit\<close> fails exactly when user name and key do not fit the buffer; otherwise
  the bytes it reports, walked by a peer, are BEGINAUTH with an empty body followed by
  PASSSALT, whose body is the user name, a zero byte and the key.
\<close>

theorem auth_init_packet:
  assumes "length buf < 2 ^ 32"
  shows "(case buildAuthInit buf username clientPub of
      Inl e \<Rightarrow> e = ErrShortControl \<and> length buf < 19 + length username + length clientPub
    | Inr (n, buf') \<Rightarrow> n = 19 + length username + length clientPub \<and> n \<le> length buf
        \<and> length buf' = length buf
        \<and> controlRecords (take n buf') = [\<lparr>crCPType = cpTypeBeginAuth, crBody = []\<rparr>,
            \<lparr>crCPType = cpTypePassSalt, crBody = bytes_of_string username @ [0] @ clientPub\<rparr>])"
proof -
  let ?rs = "auth_init_records username clientPub"
  have "controlRecords (concat (map control_wire ?rs)) = ?rs"
    if "length (concat (map control_wire ?rs)) \<le> length buf"
    by (rule controlRecords_concat) (use that assms not_plain_auth in auto)
  then show ?thesis
    using auth_init_length [of username clientPub]
    by (auto simp: buildAuthInit_emits emit_records_at_0 Let_def)
      (auto simp: auth_init_records_def rec_of_def)
qed

theorem auth_init_packet_witness:
  "\<exists>n buf'. buildAuthInit (replicate 1478 0) ''admin'' (replicate 33 7) = Inr (n, buf') \<and> n = 57
    \<and> controlRecords (take n buf') = [\<lparr>crCPType = cpTypeBeginAuth, crBody = []\<rparr>,
        \<lparr>crCPType = cpTypePassSalt, crBody = bytes_of_string ''admin'' @ [0] @ replicate 33 7\<rparr>]"
  using auth_init_packet [of "replicate 1478 0" "''admin''" "replicate 33 7"]
  by (auto split: sum.splits)

text \<open>
  \<open>buildAuthFinish\<close> fails exactly when its records do not fit; otherwise a peer reads
  back the response, the user name, the terminal type and, little-endian, the two
  terminal dimensions, in this order.
\<close>

theorem auth_finish_packet:
  assumes "length buf < 2 ^ 32"
  shows "(case buildAuthFinish buf response username termType cols rows of
      Inl e \<Rightarrow> e = ErrShortControl \<and> length buf < 49 + length response + length username + length termType
    | Inr (n, buf') \<Rightarrow> n = 49 + length response + length username + length termType \<and> n \<le> length buf
        \<and> map crCPType (controlRecords (take n buf')) = [cpTypePassword, cpTypeUsername, cpTypeTermType,
            cpTypeTermWidth, cpTypeTermHeight]
        \<and> (\<exists>w h. map crBody (controlRecords (take n buf')) = [response, username, termType, w, h]
            \<and> le16_at w 0 = cols \<and> le16_at h 0 = rows))"
proof -
  let ?rs = "auth_finish_records response username termType cols rows"
  have walk: "controlRecords (concat (map control_wire ?rs)) = ?rs"
    if "length (concat (map control_wire ?rs)) \<le> length buf"
    by (rule controlRecords_concat) (use that assms not_plain_auth in auto)
  have le: "le16_at (le16 w) 0 = w" for w
    using le16_at_append [of "[]" 0 w "[]"] by simp
  show ?thesis
    using auth_finish_length [of response username termType cols rows] walk
    by (auto simp: buildAuthFinish_emits emit_records_at_0 Let_def)
      (auto simp: auth_finish_records_def le)
qed

theorem auth_finish_packet_witness:
  "\<exists>n buf'. buildAuthFinish (replicate 200 0) [1, 2] [97] [120, 116] 80 24 = Inr (n, buf') \<and> n = 54
    \<and> map crCPType (controlRecords (take n buf')) = [cpTypePassword, cpTypeUsername, cpTypeTermType,
            cpTypeTermWidth, cpTypeTermHeight]"
  using auth_finish_packet [of "replicate 200 0" "[1, 2]" "[97]" "[120, 116]" 80 24]
  by (auto split: sum.splits)

text \<open>
  The two credentials have the sizes that the wire format and the SRP exchange rely on:
  the MD5 response is a zero byte and the digest of zero byte, password and salt; the
  validator is the digest of the salt and the digest of user name, colon, password.  A
  challenge selects a mode by its length alone, 16 for MD5 and 49 for EC-SRP.
\<close>

theorem credentials:
  "computeMD5Response password salt = 0 # md5 (0 # bytes_of_string password @ salt)
   \<and> length (computeMD5Response password salt) = md5ResponseLen
   \<and> mtweiID username password salt = sha256 (salt @ sha256 (bytes_of_string (username @ '':'' @ password)))
   \<and> length (mtweiID username password salt) = mtweiValidatorLen
   \<and> (detectAuthMode salt = Inr AuthModeMD5 \<longleftrightarrow> length salt = 16)
   \<and> (detectAuthMode salt = Inr AuthModeECSRP \<longleftrightarrow> length salt = 49)
   \<and> (isl (detectAuthMode salt) \<longleftrightarrow> length salt \<noteq> 16 \<and> length salt \<noteq> 49)"
  by (simp add: computeMD5Response_eq mtweiID_eq) (simp add: detectAuthMode_def auth_lens)

end
