(* ===== verification/Mac_Text.thy ===== *)
theory Mac_Text
  imports Prelude
begin

text \<open>
  MAC addresses as text: \<open>formatMAC\<close> of \<^verbatim>\<open>src/internal/mndp/discover.go\<close> prints them,
  \<open>parseMAC\<close> of \<^verbatim>\<open>src/internal/mactelnet/conn.go\<close> reads them back.  The latter rests on
  \<^verbatim>\<open>net.ParseMAC\<close>, which is modelled with its two hexadecimal helpers.
\<close>

section \<open>Printing\<close>

definition hex_digit :: "nat \<Rightarrow> char" where
  "hex_digit n = (if n < 10 then char_of (48 + n) else char_of (87 + n))"

text \<open>\<^verbatim>\<open>%02x\<close> of a byte.\<close>

definition hex2 :: "byte \<Rightarrow> string" where
  "hex2 b = [hex_digit (unat b div 16), hex_digit (unat b mod 16)]"

definition formatMAC :: "mac \<Rightarrow> string" where
  "formatMAC m = (case m of Mac a b c d e f \<Rightarrow>
     hex2 a @ '':'' @ hex2 b @ '':'' @ hex2 c @ '':'' @ hex2 d @ '':'' @ hex2 e @ '':'' @ hex2 f)"

section \<open>Reading: net.ParseMAC\<close>

definition code :: "char \<Rightarrow> nat" where
  "code c = of_char c"

text \<open>
  \<^verbatim>\<open>xtoi\<close>: the value of the leading hexadecimal digits, how many there are, and whether
  there is one.  Its overflow test is not reached on the two characters it is given.
\<close>

definition hex_value :: "char \<Rightarrow> nat option" where
  "hex_value c =
    (if 48 \<le> code c \<and> code c \<le> 57 then Some (code c - 48)
     else if 97 \<le> code c \<and> code c \<le> 102 then Some (code c - 97 + 10)
     else if 65 \<le> code c \<and> code c \<le> 70 then Some (code c - 65 + 10)
     else None)"

fun xtoi_loop :: "string \<Rightarrow> nat \<Rightarrow> nat \<Rightarrow> nat \<times> nat" where
  "xtoi_loop [] n i = (n, i)"
| "xtoi_loop (c # cs) n i =
    (case hex_value c of None \<Rightarrow> (n, i) | Some v \<Rightarrow> xtoi_loop cs (16 * n + v) (Suc i))"

definition xtoi :: "string \<Rightarrow> nat \<times> nat \<times> bool" where
  "xtoi s = (case xtoi_loop s 0 0 of (n, i) \<Rightarrow> if i = 0 then (0, i, False) else (n, i, True))"

definition xtoi2 :: "string \<Rightarrow> nat \<Rightarrow> byte option" where
  "xtoi2 s e =
    (if length s > 2 \<and> code (s ! 2) \<noteq> e then None
     else case xtoi (take 2 s) of (n, ei, ok) \<Rightarrow> if ok \<and> ei = 2 then Some (of_nat n) else None)"

fun mac_pairs :: "string \<Rightarrow> nat \<Rightarrow> nat \<Rightarrow> byte list option" where
  "mac_pairs s e 0 = Some []"
| "mac_pairs s e (Suc n) =
    (case xtoi2 s e of
       None \<Rightarrow> None
     | Some b \<Rightarrow> map_option (Cons b) (mac_pairs (drop 3 s) e n))"

fun mac_quads :: "string \<Rightarrow> nat \<Rightarrow> nat \<Rightarrow> byte list option" where
  "mac_quads s e 0 = Some []"
| "mac_quads s e (Suc n) =
    (case xtoi2 (take 2 s) 0 of
       None \<Rightarrow> None
     | Some b \<Rightarrow> (case xtoi2 (drop 2 s) e of
         None \<Rightarrow> None
       | Some b' \<Rightarrow> map_option (\<lambda>r. b # b' # r) (mac_quads (drop 5 s) e n)))"

definition net_ParseMAC :: "string \<Rightarrow> byte list option" where
  "net_ParseMAC s =
    (if length s < 14 then None
     else if s ! 2 = CHR '':'' \<or> s ! 2 = CHR ''-'' then
       (if (length s + 1) mod 3 \<noteq> 0 then None
        else let n = (length s + 1) div 3 in
          if n \<noteq> 6 \<and> n \<noteq> 8 \<and> n \<noteq> 20 then None else mac_pairs s (code (s ! 2)) n)
     else if s ! 4 = CHR ''.'' then
       (if (length s + 1) mod 5 \<noteq> 0 then None
        else let n = 2 * (length s + 1) div 5 in
          if n \<noteq> 6 \<and> n \<noteq> 8 \<and> n \<noteq> 20 then None else mac_quads s (code (s ! 4)) (n div 2))
     else None)"

datatype mac_error = MacSyntax | MacLength nat

definition parseMAC :: "string \<Rightarrow> mac_error + mac" where
  "parseMAC s =
    (case net_ParseMAC s of
       None \<Rightarrow> Inl MacSyntax
     | Some hw \<Rightarrow> if length hw \<noteq> 6 then Inl (MacLength (length hw)) else Inr (mac_at hw 0))"

section \<open>Round trip\<close>

lemma code_char_of [simp]: "n < 256 \<Longrightarrow> code (char_of n) = n"
  by (simp add: code_def)

lemma hex_value_digit: "n < 16 \<Longrightarrow> hex_value (hex_digit n) = Some n"
  by (auto simp: hex_value_def hex_digit_def)

lemma xtoi2_hex2:
  "xtoi2 (hex2 b) e = Some b" "code c = e \<Longrightarrow> xtoi2 (hex2 b @ c # r) e = Some b"
proof -
  have n: "16 * (unat b div 16) + unat b mod 16 = unat b" by simp
  have d: "unat b div 16 < 16" using unat_byte_lt [of b] by (simp add: less_mult_imp_div_less)
  have x: "xtoi (hex2 b) = (unat b, 2, True)"
    using d n by (simp add: xtoi_def hex2_def hex_value_digit)
  show "xtoi2 (hex2 b) e = Some b"
    using x by (simp add: xtoi2_def hex2_def)
  show "xtoi2 (hex2 b @ c # r) e = Some b" if "code c = e"
    using x that by (simp add: xtoi2_def hex2_def)
qed

lemma length_hex2 [simp]: "length (hex2 b) = 2"
  by (simp add: hex2_def)

lemma drop_hex2 [simp]: "drop 3 (hex2 b @ c # r) = r"
  by (simp add: hex2_def numeral_3_eq_3)

lemma mac_pairs_step:
  "code c = e \<Longrightarrow> mac_pairs (hex2 b @ c # r) e (Suc n) = map_option (Cons b) (mac_pairs r e n)"
  "mac_pairs (hex2 b) e (Suc 0) = Some [b]"
  by (simp_all add: xtoi2_hex2)

lemma length_formatMAC [simp]: "length (formatMAC m) = 17"
  by (cases m) (simp add: formatMAC_def)

lemma parse_format: "parseMAC (formatMAC m) = Inr m"
proof (cases m)
  case (Mac a b c d e f)
  have colon: "(formatMAC m) ! 2 = CHR '':''"
    by (simp add: Mac formatMAC_def hex2_def)
  let ?e = "code (CHR '':'')"
  have "mac_pairs (formatMAC m) ?e (Suc (Suc (Suc (Suc (Suc (Suc 0)))))) = Some [a, b, c, d, e, f]"
    by (simp add: Mac formatMAC_def mac_pairs_step del: mac_pairs.simps)
  moreover have "Suc (Suc (Suc (Suc (Suc (Suc 0))))) = 6" by simp
  ultimately have "mac_pairs (formatMAC m) ?e 6 = Some [a, b, c, d, e, f]" by (simp only:)
  then have "net_ParseMAC (formatMAC m) = Some [a, b, c, d, e, f]"
    by (simp add: net_ParseMAC_def colon)
  then show ?thesis by (simp add: parseMAC_def mac_at_def Mac)
qed

lemma formatMAC_inject: "formatMAC m = formatMAC m' \<longleftrightarrow> m = m'"
  by (metis parse_format sum.inject(2))

text \<open>Whatever notation is accepted, the address has the bytes that were read.\<close>

lemma length_mac_pairs: "mac_pairs s e n = Some hw \<Longrightarrow> length hw = n"
  by (induction s e n arbitrary: hw rule: mac_pairs.induct) (auto split: option.splits)

lemma length_mac_quads: "mac_quads s e n = Some hw \<Longrightarrow> length hw = 2 * n"
  by (induction s e n arbitrary: hw rule: mac_quads.induct) (auto split: option.splits)

lemma parseMAC_length: "parseMAC s = Inr m \<Longrightarrow> length s \<in> {17, 14}"
  by (auto simp: parseMAC_def net_ParseMAC_def Let_def split: option.splits if_splits
      dest!: length_mac_pairs length_mac_quads) presburger+

section \<open>Properties\<close>

text \<open>
  Printing an address and parsing the text gives the address back, whatever the six
  bytes are; different addresses print differently; and no text but one of 17 characters
  (six pairs) or 14 (three groups) is accepted.
\<close>

theorem mac_text_roundtrip:
  "parseMAC (formatMAC m) = Inr m
   \<and> (formatMAC m = formatMAC m' \<longleftrightarrow> m = m')
   \<and> (length s \<notin> {17, 14} \<longrightarrow> isl (parseMAC s))"
proof -
  have "isl (parseMAC s)" if "length s \<notin> {17, 14}"
    using parseMAC_length [of s] that by (cases "parseMAC s") auto
  then show ?thesis using parse_format formatMAC_inject by blast
qed

theorem mac_text_roundtrip_witness: "isl (parseMAC ''00:11:22:33:44:55:66:77'')"
  using mac_text_roundtrip [of _ _ "''00:11:22:33:44:55:66:77''"] by simp

end
