(* ===== verification/Mtwei.thy ===== *)
theory Mtwei
  imports Auth Mac_Text
begin

text \<open>
  \<^verbatim>\<open>src/internal/mactelnet/mtwei.go\<close>: EC-SRP over Curve25519 in Weierstrass form.  A
  \<^verbatim>\<open>*big.Int\<close> is an \<open>int option\<close>, \<open>None\<close> being the nil pointer that the coordinates of
  the point at infinity hold; using it is a panic.  The functions of \<^verbatim>\<open>math/big\<close> that the
  file calls are modelled first.
\<close>

section \<open>math/big\<close>

definition deref :: "'a option \<Rightarrow> 'a go" where
  "deref x = (case x of Some v \<Rightarrow> Ret v | None \<Rightarrow> Panic)"

lemma deref_simps [simp]: "deref (Some v) = Ret v" "deref None = Panic"
  by (simp_all add: deref_def)

text \<open>\<open>SetBytes\<close> and \<open>FillBytes\<close>: big-endian; the latter panics when the value does not fit.\<close>

definition SetBytes :: "byte list \<Rightarrow> int" where
  "SetBytes b = foldl (\<lambda>acc w. 256 * acc + uint w) 0 b"

definition FillBytes :: "nat \<Rightarrow> int \<Rightarrow> byte list go" where
  "FillBytes n x =
    (if \<bar>x\<bar> < 256 ^ n then Ret (map (\<lambda>i. word_of_int (\<bar>x\<bar> div 256 ^ (n - 1 - i))) [0..<n]) else Panic)"

fun BitLen_nat :: "nat \<Rightarrow> nat" where
  "BitLen_nat n = (if n = 0 then 0 else Suc (BitLen_nat (n div 2)))"

declare BitLen_nat.simps [simp del]

definition BitLen :: "int \<Rightarrow> nat" where
  "BitLen k = BitLen_nat (nat \<bar>k\<bar>)"

text \<open>\<open>ModInverse\<close> by the extended Euclidean algorithm; nil when there is no inverse.\<close>

function egcd :: "int \<Rightarrow> int \<Rightarrow> int \<times> int \<times> int" where
  "egcd a b = (if b = 0 then (a, 1, 0)
     else case egcd b (a mod b) of (g, x, y) \<Rightarrow> (g, y, x - (a div b) * y))"
  by pat_completeness auto
termination
  by (relation "measure (\<lambda>(a, b). nat \<bar>b\<bar>)") (auto simp: abs_mod_less)

declare egcd.simps [simp del]

definition ModInverse :: "int \<Rightarrow> int \<Rightarrow> int option" where
  "ModInverse g n = (case egcd (g mod n) n of (d, x, y) \<Rightarrow> if d = 1 then Some (x mod n) else None)"

text \<open>
  \<open>ModSqrt\<close> for a prime modulus that is 5 modulo 8, the case of this curve: Atkin's
  candidate, which is a root whenever there is one; nil when it is not.
\<close>

function powmod :: "int \<Rightarrow> nat \<Rightarrow> int \<Rightarrow> int" where
  "powmod x e m =
    (if e = 0 then 1 mod m
     else let r = powmod (x * x mod m) (e div 2) m in if odd e then x * r mod m else r)"
  by pat_completeness auto
termination by (relation "measure (\<lambda>(x, e, m). e)") auto

declare powmod.simps [simp del]

definition ModSqrt :: "int \<Rightarrow> int \<Rightarrow> int option" where
  "ModSqrt x p =
    (let x = x mod p;
         alpha = powmod (2 * x) (nat (p div 8)) p;
         beta = 2 * x * alpha mod p * alpha mod p;
         z = (beta - 1) * x mod p * alpha mod p
     in if z * z mod p = x then Some z else None)"

lemma uint_byte_range: "0 \<le> uint (w :: byte)" "uint w < 256"
  using uint_lt2p [of w] by simp_all

lemma SetBytes_snoc: "SetBytes (b @ [w]) = 256 * SetBytes b + uint w"
  by (simp add: SetBytes_def)

lemma SetBytes_range: "0 \<le> SetBytes b \<and> SetBytes b < 256 ^ length b"
proof (induction b rule: rev_induct)
  case Nil
  then show ?case by (simp add: SetBytes_def)
next
  case (snoc w b)
  then show ?case using uint_byte_range [of w] by (auto simp: SetBytes_snoc)
qed

lemma fill_digits:
  assumes "0 \<le> x" and "x < 256 ^ n"
  shows "SetBytes (map (\<lambda>i. word_of_int (x div 256 ^ (n - 1 - i))) [0..<n]) = x"
  using assms
proof (induction n arbitrary: x)
  case 0
  then show ?case by (simp add: SetBytes_def)
next
  case (Suc n)
  have digits: "map (\<lambda>i. word_of_int (x div 256 ^ (Suc n - 1 - i)) :: byte) [0..<n]
      = map (\<lambda>i. word_of_int ((x div 256) div 256 ^ (n - 1 - i))) [0..<n]"
  proof (rule map_cong [OF refl])
    fix i
    assume "i \<in> set [0..<n]"
    then have "Suc n - 1 - i = Suc (n - 1 - i)" by auto
    then show "(word_of_int (x div 256 ^ (Suc n - 1 - i)) :: byte) = word_of_int (x div 256 div 256 ^ (n - 1 - i))"
      by (simp add: zdiv_zmult2_eq)
  qed
  have "x div 256 < 256 ^ n"
  proof -
    have "256 * (x div 256) + x mod 256 = x" and "0 \<le> x mod 256" by simp_all
    then have "256 * (x div 256) < 256 * 256 ^ n" using Suc.prems(2) by simp
    then show ?thesis by simp
  qed
  then have ih: "SetBytes (map (\<lambda>i. word_of_int ((x div 256) div 256 ^ (n - 1 - i))) [0..<n]) = x div 256"
    by (intro Suc.IH) (use Suc.prems in \<open>simp_all add: pos_imp_zdiv_nonneg_iff\<close>)
  have "SetBytes (map (\<lambda>i. word_of_int (x div 256 ^ (Suc n - 1 - i))) [0..<Suc n])
      = 256 * SetBytes (map (\<lambda>i. word_of_int (x div 256 ^ (Suc n - 1 - i))) [0..<n]) + x mod 256"
    by (simp add: SetBytes_snoc take_bit_eq_mod uint_word_of_int)
  also have "\<dots> = 256 * (x div 256) + x mod 256" unfolding digits ih ..
  finally show ?case by simp
qed

text \<open>The two conversions are inverse to each other.\<close>

lemma SetBytes_FillBytes:
  assumes "FillBytes n x = Ret b" and "0 \<le> x"
  shows "SetBytes b = x \<and> length b = n"
proof -
  from assms have "x < 256 ^ n" and b: "b = map (\<lambda>i. word_of_int (x div 256 ^ (n - 1 - i))) [0..<n]"
    by (simp_all add: FillBytes_def split: if_splits)
  then show ?thesis using fill_digits assms(2) by simp
qed

lemma FillBytes_ok: "0 \<le> x \<Longrightarrow> x < 256 ^ n \<Longrightarrow> \<exists>b. FillBytes n x = Ret b \<and> length b = n \<and> SetBytes b = x"
  using fill_digits by (simp add: FillBytes_def)

lemma egcd_spec:
  assumes "egcd a b = (g, x, y)" and "0 \<le> a" and "0 \<le> b"
  shows "a * x + b * y = g \<and> g = gcd a b"
  using assms
proof (induction a b arbitrary: g x y rule: egcd.induct)
  case (1 a b)
  show ?case
  proof (cases "b = 0")
    case True
    then show ?thesis using 1 by (subst (asm) egcd.simps) auto
  next
    case False
    obtain g' x' y' where r: "egcd b (a mod b) = (g', x', y')" by (cases "egcd b (a mod b)")
    then have "b * x' + (a mod b) * y' = g'" and "g' = gcd b (a mod b)"
      using 1(1) [OF False r] 1(3,4) False by auto
    moreover have "g = g'" "x = y'" "y = x' - (a div b) * y'"
      using 1(2) r False by (subst (asm) egcd.simps, simp)+
    moreover have "b * x' + (a mod b) * y' = a * y' + b * (x' - (a div b) * y')"
    proof -
      obtain q r where "a = b * q + r" "a div b = q" "a mod b = r"
        using mult_div_mod_eq [of b a, symmetric] by blast
      then show ?thesis by (simp add: algebra_simps)
    qed
    moreover have "gcd a b = gcd b (a mod b)" by (rule gcd_red_int)
    ultimately show ?thesis by simp
  qed
qed

lemma ModInverse_Some:
  assumes "ModInverse g n = Some i" and "0 < n"
  shows "0 \<le> i \<and> i < n \<and> n dvd g * i - 1"
proof -
  obtain d x y where e: "egcd (g mod n) n = (d, x, y)" by (cases "egcd (g mod n) n")
  then have d: "d = 1" and i: "i = x mod n" using assms by (auto simp: ModInverse_def split: if_splits)
  have "(g mod n) * x + n * y = 1"
    using egcd_spec [OF e] assms(2) d by simp
  then have "(g mod n * x) mod n = 1 mod n"
    by (metis mod_mult_self2)
  moreover have "(g * i) mod n = (g mod n * x) mod n"
    by (simp add: i mod_mult_left_eq mod_mult_right_eq)
  ultimately have "(g * i) mod n = 1 mod n" by simp
  then show ?thesis using i assms(2) by (simp add: mod_eq_dvd_iff)
qed

lemma ModInverse_None:
  assumes "0 < n"
  shows "ModInverse g n = None \<longleftrightarrow> gcd g n \<noteq> 1"
proof -
  obtain d x y where e: "egcd (g mod n) n = (d, x, y)" by (cases "egcd (g mod n) n")
  have "d = gcd (g mod n) n" using egcd_spec [OF e] assms by simp
  also have "\<dots> = gcd g n" by (metis gcd.commute gcd_red_int)
  finally show ?thesis by (simp add: ModInverse_def e)
qed

lemma ModSqrt_Some:
  assumes "ModSqrt x p = Some z" and "0 < p"
  shows "0 \<le> z \<and> z < p \<and> p dvd z * z - x"
proof -
  have "\<exists>w. z = w mod p \<and> z * z mod p = x mod p"
    using assms(1) unfolding ModSqrt_def Let_def
    by (simp only: option.inject option.distinct split: if_split_asm) blast
  then show ?thesis using assms(2) by (auto simp only: mod_eq_dvd_iff) simp_all
qed

section \<open>The curve\<close>

record mtweiState =
  msP :: int
  msA :: int
  msB :: int
  msGx :: int
  msGy :: int
  msN :: int
  msW2m :: int
  msM2w :: int

definition newMtweiState :: mtweiState where
  "newMtweiState = \<lparr>
     msP = 0x7fffffffffffffffffffffffffffffffffffffffffffffffffffffffffffffed,
     msA = 0x2aaaaaaaaaaaaaaaaaaaaaaaaaaaaaaaaaaaaaaaaaaaaaaaaaaaaa984914a144,
     msB = 0x7b425ed097b425ed097b425ed097b425ed097b425ed097b4260b5e9c7710c864,
     msGx = 0x2aaaaaaaaaaaaaaaaaaaaaaaaaaaaaaaaaaaaaaaaaaaaaaaaaaaaaaaaaad245a,
     msGy = 0x5f51e65e475f794b1fe122d388b72eb36dc2b28192839e4dd6163a5d81312c14,
     msN = 0x1000000000000000000000000000000014def9dea2f79cd65812631a5cf5d3ed,
     msW2m = 0x555555555555555555555555555555555555555555555555555555555552db9c,
     msM2w = 0x2aaaaaaaaaaaaaaaaaaaaaaaaaaaaaaaaaaaaaaaaaaaaaaaaaaaaaaaaaad2451\<rparr>"

text \<open>
  The source has these constants as hexadecimal texts.  \<open>SetString16\<close> is \<^verbatim>\<open>SetString(s, 16)\<close>:
  an optional sign and at least one digit.
\<close>

fun hex_number :: "string \<Rightarrow> int \<Rightarrow> int option" where
  "hex_number [] acc = Some acc"
| "hex_number (c # cs) acc =
    (case hex_value c of None \<Rightarrow> None | Some d \<Rightarrow> hex_number cs (16 * acc + int d))"

definition SetString16 :: "string \<Rightarrow> int option" where
  "SetString16 s =
    (case s of
       [] \<Rightarrow> None
     | c # cs \<Rightarrow>
         if c = CHR ''-'' then (if cs = [] then None else map_option uminus (hex_number cs 0))
         else if c = CHR ''+'' then (if cs = [] then None else hex_number cs 0)
         else hex_number s 0)"

definition mustHex :: "string \<Rightarrow> int go" where
  "mustHex s = (case SetString16 s of None \<Rightarrow> Panic | Some n \<Rightarrow> Ret n)"

lemma newMtweiState_texts:
  "mustHex ''7fffffffffffffffffffffffffffffffffffffffffffffffffffffffffffffed'' = Ret (msP newMtweiState)"
  "mustHex ''2aaaaaaaaaaaaaaaaaaaaaaaaaaaaaaaaaaaaaaaaaaaaaaaaaaaaa984914a144'' = Ret (msA newMtweiState)"
  "mustHex ''7b425ed097b425ed097b425ed097b425ed097b425ed097b4260b5e9c7710c864'' = Ret (msB newMtweiState)"
  "mustHex ''2aaaaaaaaaaaaaaaaaaaaaaaaaaaaaaaaaaaaaaaaaaaaaaaaaaaaaaaaaad245a'' = Ret (msGx newMtweiState)"
  "mustHex ''5f51e65e475f794b1fe122d388b72eb36dc2b28192839e4dd6163a5d81312c14'' = Ret (msGy newMtweiState)"
  "mustHex ''1000000000000000000000000000000014def9dea2f79cd65812631a5cf5d3ed'' = Ret (msN newMtweiState)"
  "mustHex ''555555555555555555555555555555555555555555555555555555555552db9c'' = Ret (msW2m newMtweiState)"
  "mustHex ''2aaaaaaaaaaaaaaaaaaaaaaaaaaaaaaaaaaaaaaaaaaaaaaaaaaaaaaaaaad2451'' = Ret (msM2w newMtweiState)"
  by (simp_all add: mustHex_def SetString16_def hex_value_def code_def newMtweiState_def)

record point =
  ptX :: "int option"
  ptY :: "int option"
  ptInf :: bool

definition affine :: "int \<Rightarrow> int \<Rightarrow> point" where
  "affine x y = \<lparr>ptX = Some x, ptY = Some y, ptInf = False\<rparr>"

text \<open>\<^verbatim>\<open>&point{Inf: true}\<close>, whose coordinates are nil.\<close>

definition infinity :: point where
  "infinity = \<lparr>ptX = None, ptY = None, ptInf = True\<rparr>"

definition mtwei_generator :: "mtweiState \<Rightarrow> point" where
  "mtwei_generator s = affine (msGx s) (msGy s)"

definition mtwei_double :: "mtweiState \<Rightarrow> point \<Rightarrow> point go" where
  "mtwei_double s pt =
    (if ptInf pt then Ret infinity
     else go_bind (deref (ptY pt)) (\<lambda>y.
       if y = 0 then Ret infinity
       else go_bind (deref (ptX pt)) (\<lambda>x.
         let pxSq = x * x;
             num = pxSq * 3;
             num = num + msA s;
             num = num mod msP s;
             den = 2 * y;
             den = den mod msP s
         in case ModInverse den (msP s) of
              None \<Rightarrow> Ret infinity
            | Some iv \<Rightarrow>
                let lam = num * iv;
                    lam = lam mod msP s;
                    rx = lam * lam;
                    rx = rx - x;
                    rx = rx - x;
                    rx = rx mod msP s;
                    ry = x - rx;
                    ry = ry * lam;
                    ry = ry - y;
                    ry = ry mod msP s
                in Ret (affine rx ry))))"

text \<open>\<^verbatim>\<open>&point{X: new(big.Int).Set(p.X), Y: new(big.Int).Set(p.Y), Inf: p.Inf}\<close>\<close>

definition copy_point :: "point \<Rightarrow> point go" where
  "copy_point p = go_bind (deref (ptX p)) (\<lambda>x. go_bind (deref (ptY p)) (\<lambda>y.
     Ret \<lparr>ptX = Some x, ptY = Some y, ptInf = ptInf p\<rparr>))"

definition mtwei_add :: "mtweiState \<Rightarrow> point \<Rightarrow> point \<Rightarrow> point go" where
  "mtwei_add s p1 p2 =
    (if ptInf p1 then copy_point p2
     else if ptInf p2 then copy_point p1
     else go_bind (deref (ptX p1)) (\<lambda>x1. go_bind (deref (ptX p2)) (\<lambda>x2.
          go_bind (deref (ptY p1)) (\<lambda>y1. go_bind (deref (ptY p2)) (\<lambda>y2.
       if x1 = x2 then (if y1 = y2 then mtwei_double s p1 else Ret infinity)
       else
         let num = y2 - y1;
             num = num mod msP s;
             den = x2 - x1;
             den = den mod msP s
         in case ModInverse den (msP s) of
              None \<Rightarrow> Ret infinity
            | Some iv \<Rightarrow>
                let lam = num * iv;
                    lam = lam mod msP s;
                    rx = lam * lam;
                    rx = rx - x1;
                    rx = rx - x2;
                    rx = rx mod msP s;
                    ry = x1 - rx;
                    ry = ry * lam;
                    ry = ry - y1;
                    ry = ry mod msP s
                in Ret (affine rx ry))))))"

text \<open>The double-and-add loop, from bit \<open>i\<close>, with \<open>n\<close> bits left.\<close>

primrec scalar_loop :: "nat \<Rightarrow> mtweiState \<Rightarrow> int \<Rightarrow> nat \<Rightarrow> point \<Rightarrow> point \<Rightarrow> point go" where
  "scalar_loop 0 s k i res cur = Ret res"
| "scalar_loop (Suc n) s k i res cur =
    go_bind (if bit k i then mtwei_add s res cur else Ret res) (\<lambda>res.
    go_bind (mtwei_double s cur) (\<lambda>cur. scalar_loop n s k (Suc i) res cur))"

definition mtwei_scalarMult :: "mtweiState \<Rightarrow> int \<Rightarrow> point \<Rightarrow> point go" where
  "mtwei_scalarMult s k pt =
    (let res = infinity
     in go_bind (copy_point pt) (\<lambda>cur. scalar_loop (BitLen k) s k 0 res cur))"

definition mtwei_liftX :: "mtweiState \<Rightarrow> int \<Rightarrow> byte \<Rightarrow> point option" where
  "mtwei_liftX s x yParity =
    (let rhs = x * x;
         rhs = rhs mod msP s;
         rhs = rhs * x;
         ax = msA s * x;
         rhs = rhs + ax;
         rhs = rhs + msB s;
         rhs = rhs mod msP s
     in case ModSqrt rhs (msP s) of
          None \<Rightarrow> None
        | Some y \<Rightarrow>
            let y = (if of_int (y mod 2) \<noteq> yParity then msP s - y else y)
            in Some (affine x y))"

section \<open>The exchange\<close>

text \<open>
  The search for a point in \<open>tangle\<close>.  It ends at the latest when the seed no longer fits
  32 bytes, where \<open>FillBytes\<close> panics.
\<close>

function tangle_loop :: "mtweiState \<Rightarrow> byte \<Rightarrow> int \<Rightarrow> point go" where
  "tangle_loop s negate edpx =
    (case FillBytes 32 edpx of
       Panic \<Rightarrow> Panic
     | Ret edpxBuf \<Rightarrow>
         let h = sha256 edpxBuf;
             edpxm = SetBytes h;
             edpxm = edpxm + msM2w s;
             edpxm = edpxm mod msP s
         in case mtwei_liftX s edpxm negate of
              Some pt \<Rightarrow> Ret pt
            | None \<Rightarrow> tangle_loop s negate (edpx + 1))"
  by pat_completeness auto
termination
  by (relation "measure (\<lambda>(s, negate, edpx). nat (256 ^ 32 - edpx))")
    (auto simp: FillBytes_def split: if_splits)

declare tangle_loop.simps [simp del]

text \<open>\<open>tangle\<close> returns the validator as a number and the target with the new coordinates.\<close>

definition mtwei_tangle :: "mtweiState \<Rightarrow> point \<Rightarrow> byte list \<Rightarrow> byte \<Rightarrow> (int \<times> point) go" where
  "mtwei_tangle s target validator negate =
    (let v = SetBytes validator in
     go_bind (mtwei_scalarMult s v (mtwei_generator s)) (\<lambda>valPt.
     go_bind (deref (ptX valPt)) (\<lambda>valX.
     let vpubX = valX + msW2m s;
         vpubX = vpubX mod msP s in
     go_bind (FillBytes 32 vpubX) (\<lambda>buf.
     let seed = sha256 buf;
         edpx = SetBytes seed in
     go_bind (tangle_loop s negate edpx) (\<lambda>lifted.
     go_bind (mtwei_add s target lifted) (\<lambda>tot.
       Ret (v, target\<lparr>ptX := ptX tot, ptY := ptY tot, ptInf := ptInf tot\<rparr>)))))))"

text \<open>
  \<open>keygen\<close> with what \<^verbatim>\<open>io.ReadFull\<close> gives as an argument: an error, or 32 random bytes.
\<close>

definition clamp :: "byte list \<Rightarrow> byte list" where
  "clamp raw =
    (let raw = raw[0 := raw ! 0 AND 248];
         raw = raw[31 := raw ! 31 AND 127]
     in raw[31 := raw ! 31 OR 64])"

definition mtwei_keygen ::
    "mtweiState \<Rightarrow> 'e + byte list \<Rightarrow> byte list option \<Rightarrow> ('e + int \<times> byte list) go" where
  "mtwei_keygen s rand validator =
    (case rand of
       Inl e \<Rightarrow> Ret (Inl e)
     | Inr raw \<Rightarrow>
         let raw = clamp raw;
             priv = SetBytes raw in
         go_bind (mtwei_scalarMult s priv (mtwei_generator s)) (\<lambda>pub.
         go_bind (case validator of
             None \<Rightarrow> Ret pub
           | Some val \<Rightarrow> go_bind (mtwei_tangle s pub val 0) (\<lambda>(v, pub). Ret pub)) (\<lambda>pub.
         go_bind (deref (ptX pub)) (\<lambda>px.
         let x = px + msW2m s;
             x = x mod msP s in
         go_bind (FillBytes 32 x) (\<lambda>key.
         go_bind (deref (ptY pub)) (\<lambda>py.
           Ret (Inr (priv, key @ [of_int (py mod 2)]))))))))"

datatype mtwei_error = ServerKeyNotOnCurve

definition mtwei_docrypto ::
    "mtweiState \<Rightarrow> int \<Rightarrow> byte list \<Rightarrow> byte list \<Rightarrow> byte list \<Rightarrow> (mtwei_error + byte list) go" where
  "mtwei_docrypto s priv serverKey clientKey validator =
    (let serverPubX = SetBytes (take 32 serverKey);
         serverPubX = serverPubX + msM2w s;
         serverPubX = serverPubX mod msP s
     in case mtwei_liftX s serverPubX (serverKey ! 32) of
          None \<Rightarrow> Ret (Inl ServerKeyNotOnCurve)
        | Some serverPub \<Rightarrow>
            go_bind (mtwei_tangle s serverPub validator 1) (\<lambda>(v, serverPub).
            let hSum = sha256 (take 32 clientKey @ take 32 serverKey);
                h = SetBytes hSum;
                vh = v * h;
                vh = vh mod msN s;
                vh = vh + priv;
                vh = vh mod msN s in
            go_bind (mtwei_scalarMult s vh serverPub) (\<lambda>pt.
            go_bind (deref (ptX pt)) (\<lambda>px.
            let zInput = px + msW2m s;
                zInput = zInput mod msP s in
            go_bind (FillBytes 32 zInput) (\<lambda>zBytes.
              Ret (Inr (sha256 (hSum @ zBytes))))))))"

end
