(* ===== verification/Mtwei_Facts.thy ===== *)
theory Mtwei_Facts
  imports Mtwei
begin

text \<open>
  What the curve arithmetic of \<^verbatim>\<open>mtwei.go\<close> keeps: points stay on the curve, the nil
  coordinates of the point at infinity are met only where they are, and the numbers that
  are written into 32 bytes fit.  The facts hold for any curve constants with the
  properties collected in the locale \<open>curve\<close>; those of the source are an instance.
\<close>

section \<open>Points\<close>

definition on_curve :: "mtweiState \<Rightarrow> int \<Rightarrow> int \<Rightarrow> bool" where
  "on_curve s x y \<longleftrightarrow> msP s dvd y * y - (x * x * x + msA s * x + msB s)"

definition ok_point :: "mtweiState \<Rightarrow> point \<Rightarrow> bool" where
  "ok_point s pt \<longleftrightarrow> pt = infinity \<or> (\<exists>x y. pt = affine x y \<and> on_curve s x y)"

lemma affine_simps [simp]:
  "ptX (affine x y) = Some x" "ptY (affine x y) = Some y" "\<not> ptInf (affine x y)"
  "affine x y \<noteq> infinity" "infinity \<noteq> affine x y" "affine x y = affine x' y' \<longleftrightarrow> x = x' \<and> y = y'"
  by (simp_all add: affine_def infinity_def)

lemma infinity_simps [simp]: "ptX infinity = None" "ptY infinity = None" "ptInf infinity"
  by (simp_all add: infinity_def)

lemma copy_point_simps [simp]: "copy_point (affine x y) = Ret (affine x y)" "copy_point infinity = Panic"
  by (simp_all add: copy_point_def affine_def infinity_def)

text \<open>A number divided through by the modulus differs from its remainder by a multiple.\<close>

lemma mod_obtain:
  obtains q where "(t :: int) mod m = t - m * q"
  using minus_mult_div_eq_mod [of t m] by metis

lemma dvd_mod_diff: "(m :: int) dvd t mod m - t"
  by (simp add: mod_eq_dvd_iff [symmetric])

text \<open>
  The two identities behind the formulas.  The line through the points meets the cubic in a
  third point whose first coordinate is the square of the slope minus the other two.
\<close>

lemma tangent_identity:
  fixes p x y a b lam rx ry :: int
  assumes c: "p dvd y * y - (x * x * x + a * x + b)"
    and slope: "p dvd lam * (2 * y) - (3 * (x * x) + a)"
    and rx: "p dvd rx - (lam * lam - x - x)" and ry: "p dvd ry - ((x - rx) * lam - y)"
  shows "p dvd ry * ry - (rx * rx * rx + a * rx + b)"
proof -
  obtain k1 where k1: "y * y - (x * x * x + a * x + b) = p * k1" using c by (auto elim: dvdE)
  obtain k2 where k2: "lam * (2 * y) - (3 * (x * x) + a) = p * k2" using slope by (auto elim: dvdE)
  obtain k3 where k3: "rx - (lam * lam - x - x) = p * k3" using rx by (auto elim: dvdE)
  obtain k4 where k4: "ry - ((x - rx) * lam - y) = p * k4" using ry by (auto elim: dvdE)
  have "\<exists>k. ry * ry - (rx * rx * rx + a * rx + b) = p * k"
    using k1 k2 k3 k4 by algebra
  then show ?thesis by auto
qed

lemma chord_identity:
  fixes p x1 y1 x2 y2 a b lam iv rx ry :: int
  assumes c1: "p dvd y1 * y1 - (x1 * x1 * x1 + a * x1 + b)"
    and c2: "p dvd y2 * y2 - (x2 * x2 * x2 + a * x2 + b)"
    and iv: "p dvd (x2 - x1) * iv - 1"
    and slope: "p dvd lam - (y2 - y1) * iv"
    and rx: "p dvd rx - (lam * lam - x1 - x2)" and ry: "p dvd ry - ((x1 - rx) * lam - y1)"
  shows "p dvd ry * ry - (rx * rx * rx + a * rx + b)"
proof -
  obtain k1 where k1: "y1 * y1 - (x1 * x1 * x1 + a * x1 + b) = p * k1" using c1 by (auto elim: dvdE)
  obtain k2 where k2: "y2 * y2 - (x2 * x2 * x2 + a * x2 + b) = p * k2" using c2 by (auto elim: dvdE)
  obtain k3 where k3: "(x2 - x1) * iv - 1 = p * k3" using iv by (auto elim: dvdE)
  obtain k4 where k4: "lam - (y2 - y1) * iv = p * k4" using slope by (auto elim: dvdE)
  obtain k5 where k5: "rx - (lam * lam - x1 - x2) = p * k5" using rx by (auto elim: dvdE)
  obtain k6 where k6: "ry - ((x1 - rx) * lam - y1) = p * k6" using ry by (auto elim: dvdE)
  have "\<exists>k. ry * ry - (rx * rx * rx + a * rx + b) = p * k"
    using k1 k2 k3 k4 k5 k6 by algebra
  then show ?thesis by auto
qed

section \<open>Names for parts of the exchange\<close>

text \<open>The candidate that \<open>tangle\<close> tries for a seed, and what its search amounts to.\<close>

definition candidate :: "mtweiState \<Rightarrow> byte \<Rightarrow> int \<Rightarrow> point option" where
  "candidate s negate seed =
    (case FillBytes 32 seed of
       Panic \<Rightarrow> None
     | Ret b \<Rightarrow> mtwei_liftX s ((SetBytes (sha256 b) + msM2w s) mod msP s) negate)"

definition srp_hash :: "byte list \<Rightarrow> byte list \<Rightarrow> byte list" where
  "srp_hash clientKey serverKey = sha256 (take 32 clientKey @ take 32 serverKey)"

definition srp_scalar :: "mtweiState \<Rightarrow> int \<Rightarrow> byte list \<Rightarrow> byte list \<Rightarrow> byte list \<Rightarrow> int" where
  "srp_scalar s priv serverKey clientKey validator =
    ((SetBytes validator * SetBytes (srp_hash clientKey serverKey)) mod msN s + priv) mod msN s"

section \<open>Curves\<close>

locale curve =
  fixes s :: mtweiState
  assumes p_pos: "0 < msP s" and p_small: "msP s \<le> 256 ^ 32" and p_odd: "odd (msP s)"
    and offsets: "msP s dvd msW2m s + msM2w s"
    and gen_on_curve: "on_curve s (msGx s) (msGy s)"
begin

lemma double_infinity [simp]: "mtwei_double s infinity = Ret infinity"
  by (simp add: mtwei_double_def)

lemma double_affine:
  assumes "on_curve s x y"
  shows "\<exists>r. mtwei_double s (affine x y) = Ret r \<and> ok_point s r"
proof (cases "y = 0 \<or> ModInverse (2 * y mod msP s) (msP s) = None")
  case True
  then show ?thesis by (auto simp: mtwei_double_def ok_point_def)
next
  case False
  then obtain iv where iv: "ModInverse (2 * y mod msP s) (msP s) = Some iv" and y: "y \<noteq> 0" by auto
  define lam where "lam = ((x * x * 3 + msA s) mod msP s) * iv mod msP s"
  define rx where "rx = (lam * lam - x - x) mod msP s"
  define ry where "ry = ((x - rx) * lam - y) mod msP s"
  have r: "mtwei_double s (affine x y) = Ret (affine rx ry)"
    using iv y by (simp add: mtwei_double_def lam_def rx_def ry_def Let_def)
  have i: "msP s dvd (2 * y mod msP s) * iv - 1" using ModInverse_Some [OF iv p_pos] by simp
  obtain q1 where q1: "(x * x * 3 + msA s) mod msP s = (x * x * 3 + msA s) - msP s * q1" by (rule mod_obtain)
  obtain q2 where q2: "2 * y mod msP s = 2 * y - msP s * q2" by (rule mod_obtain)
  obtain q3 where q3: "lam = ((x * x * 3 + msA s) mod msP s) * iv - msP s * q3"
    unfolding lam_def by (rule mod_obtain)
  obtain k where k: "(2 * y mod msP s) * iv - 1 = msP s * k" using i by (auto elim: dvdE)
  have "\<exists>c. lam * (2 * y) - (3 * (x * x) + msA s) = msP s * c"
    using k q1 q2 q3 by algebra
  then have slope: "msP s dvd lam * (2 * y) - (3 * (x * x) + msA s)" by auto
  have "msP s dvd rx - (lam * lam - x - x)" "msP s dvd ry - ((x - rx) * lam - y)"
    unfolding rx_def ry_def by (rule dvd_mod_diff)+
  from tangent_identity [OF assms [unfolded on_curve_def] slope this] show ?thesis
    using r by (auto simp: ok_point_def on_curve_def)
qed

lemma double_closed: "ok_point s pt \<Longrightarrow> \<exists>r. mtwei_double s pt = Ret r \<and> ok_point s r"
  using double_affine by (auto simp: ok_point_def)

lemma add_affine:
  assumes "on_curve s x1 y1" and "on_curve s x2 y2"
  shows "\<exists>r. mtwei_add s (affine x1 y1) (affine x2 y2) = Ret r \<and> ok_point s r"
proof (cases "x1 = x2")
  case True
  then show ?thesis
    using double_affine [OF assms(1)] by (auto simp: mtwei_add_def ok_point_def)
next
  case neq: False
  show ?thesis
  proof (cases "ModInverse ((x2 - x1) mod msP s) (msP s)")
    case None
    then show ?thesis using neq by (auto simp: mtwei_add_def ok_point_def)
  next
    case (Some iv)
    define lam where "lam = ((y2 - y1) mod msP s) * iv mod msP s"
    define rx where "rx = (lam * lam - x1 - x2) mod msP s"
    define ry where "ry = ((x1 - rx) * lam - y1) mod msP s"
    have r: "mtwei_add s (affine x1 y1) (affine x2 y2) = Ret (affine rx ry)"
      using Some neq by (simp add: mtwei_add_def lam_def rx_def ry_def Let_def)
    have i: "msP s dvd ((x2 - x1) mod msP s) * iv - 1" using ModInverse_Some [OF Some p_pos] by simp
    obtain q1 where q1: "(y2 - y1) mod msP s = (y2 - y1) - msP s * q1" by (rule mod_obtain)
    obtain q2 where q2: "(x2 - x1) mod msP s = (x2 - x1) - msP s * q2" by (rule mod_obtain)
    obtain q3 where q3: "lam = ((y2 - y1) mod msP s) * iv - msP s * q3" unfolding lam_def by (rule mod_obtain)
    obtain k where k: "((x2 - x1) mod msP s) * iv - 1 = msP s * k" using i by (auto elim: dvdE)
    have "\<exists>c. (x2 - x1) * iv - 1 = msP s * c" using k q2 by algebra
    then have inv': "msP s dvd (x2 - x1) * iv - 1" by auto
    have "\<exists>c. lam - (y2 - y1) * iv = msP s * c"
      unfolding q3 q1 by (intro exI [of _ "- (q1 * iv) - q3"]) (simp add: algebra_simps)
    then have slope: "msP s dvd lam - (y2 - y1) * iv" by auto
    have "msP s dvd rx - (lam * lam - x1 - x2)" "msP s dvd ry - ((x1 - rx) * lam - y1)"
      unfolding rx_def ry_def by (rule dvd_mod_diff)+
    from chord_identity [OF assms [unfolded on_curve_def] inv' slope this] show ?thesis
      using r by (auto simp: ok_point_def on_curve_def)
  qed
qed

lemma add_infinity [simp]:
  "mtwei_add s infinity (affine x y) = Ret (affine x y)" "mtwei_add s (affine x y) infinity = Ret (affine x y)"
  "mtwei_add s infinity infinity = Panic"
  by (simp_all add: mtwei_add_def)

lemma add_closed:
  assumes "ok_point s p1" and "ok_point s p2"
  shows "if p1 = infinity \<and> p2 = infinity then mtwei_add s p1 p2 = Panic
    else \<exists>r. mtwei_add s p1 p2 = Ret r \<and> ok_point s r"
  using assms add_affine by (auto simp: ok_point_def)

lemma scalar_loop_closed:
  "ok_point s res \<Longrightarrow> ok_point s cur \<Longrightarrow> scalar_loop n s k i res cur = Ret r \<Longrightarrow> ok_point s r"
proof (induction n arbitrary: i res cur)
  case (Suc n)
  from Suc.prems(3) obtain res' cur' where
    r: "(if bit k i then mtwei_add s res cur else Ret res) = Ret res'"
    and c: "mtwei_double s cur = Ret cur'" and l: "scalar_loop n s k (Suc i) res' cur' = Ret r"
    by auto
  have "ok_point s res'"
    using r add_closed [OF Suc.prems(1,2)] Suc.prems(1) by (auto split: if_splits)
  moreover have "ok_point s cur'" using c double_closed [OF Suc.prems(2)] by auto
  ultimately show ?case using Suc.IH l by blast
qed simp

lemma scalarMult_closed:
  assumes "ok_point s pt" and "mtwei_scalarMult s k pt = Ret r"
  shows "ok_point s r"
proof -
  from assms(2) obtain cur where "copy_point pt = Ret cur"
    and l: "scalar_loop (BitLen k) s k 0 infinity cur = Ret r"
    by (auto simp: mtwei_scalarMult_def)
  then have "cur = pt" using assms(1) by (auto simp: ok_point_def)
  then show ?thesis
    using scalar_loop_closed [OF _ assms(1) l [unfolded \<open>cur = pt\<close>]] by (simp add: ok_point_def)
qed

lemma scalarMult_infinity: "mtwei_scalarMult s k infinity = Panic"
  by (simp add: mtwei_scalarMult_def)

lemma generator_ok: "ok_point s (mtwei_generator s)"
  using gen_on_curve by (auto simp: ok_point_def mtwei_generator_def)

text \<open>Lifting a coordinate: a point of the curve with the parity asked for.\<close>

lemma liftX_on_curve:
  assumes "mtwei_liftX s x par = Some pt"
  shows "\<exists>y. pt = affine x y \<and> on_curve s x y \<and> 0 \<le> y \<and> y \<le> msP s
    \<and> (par \<in> {0, 1} \<longrightarrow> of_int (y mod 2) = par)"
proof -
  define rhs where "rhs = ((x * x) mod msP s * x + msA s * x + msB s) mod msP s"
  obtain z where z: "ModSqrt rhs (msP s) = Some z"
    and pt: "pt = affine x (if of_int (z mod 2) \<noteq> par then msP s - z else z)"
    using assms by (auto simp: mtwei_liftX_def rhs_def Let_def split: option.splits)
  have zr: "0 \<le> z" "z < msP s" and sq: "msP s dvd z * z - rhs"
    using ModSqrt_Some [OF z p_pos] by auto
  obtain q1 where q1: "(x * x) mod msP s = x * x - msP s * q1" by (rule mod_obtain)
  obtain q2 where q2: "rhs = ((x * x) mod msP s * x + msA s * x + msB s) - msP s * q2"
    unfolding rhs_def by (rule mod_obtain)
  obtain k where k: "z * z - rhs = msP s * k" using sq by (auto elim: dvdE)
  have "\<exists>c. z * z - (x * x * x + msA s * x + msB s) = msP s * c" using q1 q2 k by algebra
  then have oz: "on_curve s x z" by (auto simp: on_curve_def)
  then obtain c where c: "z * z - (x * x * x + msA s * x + msB s) = msP s * c"
    by (auto simp: on_curve_def elim: dvdE)
  have "\<exists>c. (msP s - z) * (msP s - z) - (x * x * x + msA s * x + msB s) = msP s * c" using c by algebra
  then have on: "on_curve s x (msP s - z)" by (auto simp: on_curve_def)
  have par: "of_int ((msP s - z) mod 2) = par" if "par \<in> {0, 1}" "of_int (z mod 2) \<noteq> par"
  proof -
    have "(msP s - z) mod 2 = 1 - z mod 2" using p_odd by presburger
    moreover have "z mod 2 = 0 \<or> z mod 2 = 1" by presburger
    ultimately show ?thesis using that by auto
  qed
  show ?thesis using pt oz on zr par by auto
qed

lemma tangle_loop_step:
  assumes "0 \<le> seed"
  shows "tangle_loop s negate seed =
    (if seed < 256 ^ 32 then
       (case candidate s negate seed of Some pt \<Rightarrow> Ret pt | None \<Rightarrow> tangle_loop s negate (seed + 1))
     else Panic)"
  by (subst tangle_loop.simps) (use assms in \<open>auto simp: FillBytes_def candidate_def Let_def split: option.split\<close>)

lemma tangle_loop_search:
  assumes "0 \<le> seed"
  shows "(case tangle_loop s negate seed of
      Ret pt \<Rightarrow> \<exists>i. seed \<le> i \<and> i < 256 ^ 32 \<and> candidate s negate i = Some pt
        \<and> (\<forall>j. seed \<le> j \<and> j < i \<longrightarrow> candidate s negate j = None)
    | Panic \<Rightarrow> \<forall>i. seed \<le> i \<and> i < 256 ^ 32 \<longrightarrow> candidate s negate i = None)"
  using assms
proof (induction "nat (256 ^ 32 - seed)" arbitrary: seed rule: less_induct)
  case less
  show ?case
  proof (cases "seed < 256 ^ 32")
    case False
    then show ?thesis using tangle_loop_step [OF less.prems, of negate] by auto
  next
    case True
    show ?thesis
    proof (cases "candidate s negate seed")
      case (Some pt)
      then have "tangle_loop s negate seed = Ret pt"
        using tangle_loop_step [OF less.prems, of negate] True by simp
      then show ?thesis using Some True by auto
    next
      case None
      then have step: "tangle_loop s negate seed = tangle_loop s negate (seed + 1)"
        using tangle_loop_step [OF less.prems, of negate] True by simp
      have split: "seed \<le> j \<longleftrightarrow> j = seed \<or> seed + 1 \<le> j" for j by auto
      have "nat (256 ^ 32 - (seed + 1)) < nat (256 ^ 32 - seed)" using True by simp
      from less.hyps [OF this] have ih: "case tangle_loop s negate (seed + 1) of
          Ret pt \<Rightarrow> \<exists>i. seed + 1 \<le> i \<and> i < 256 ^ 32 \<and> candidate s negate i = Some pt
            \<and> (\<forall>j. seed + 1 \<le> j \<and> j < i \<longrightarrow> candidate s negate j = None)
        | Panic \<Rightarrow> \<forall>i. seed + 1 \<le> i \<and> i < 256 ^ 32 \<longrightarrow> candidate s negate i = None"
        using less.prems by simp
      show ?thesis
      proof (cases "tangle_loop s negate (seed + 1)")
        case (Ret pt)
        then obtain i where i: "seed + 1 \<le> i" "i < 256 ^ 32" "candidate s negate i = Some pt"
          "\<forall>j. seed + 1 \<le> j \<and> j < i \<longrightarrow> candidate s negate j = None" using ih by auto
        then have "\<forall>j. seed \<le> j \<and> j < i \<longrightarrow> candidate s negate j = None"
          using None by (auto simp: split)
        then show ?thesis using i by (auto simp: step Ret intro: exI [of _ i])
      next
        case Panic
        then have "candidate s negate i = None" if "seed \<le> i" "i < 256 ^ 32" for i
          using ih that None split [of i] by auto
        then show ?thesis by (simp add: step Panic)
      qed
    qed
  qed
qed

lemma candidate_on_curve: "candidate s negate seed = Some pt \<Longrightarrow> \<exists>x y. pt = affine x y \<and> on_curve s x y"
  using liftX_on_curve by (fastforce simp: candidate_def split: go.splits)

lemma tangle_loop_on_curve:
  assumes "0 \<le> seed" and "tangle_loop s negate seed = Ret pt"
  shows "\<exists>x y. pt = affine x y \<and> on_curve s x y"
  using tangle_loop_search [OF assms(1), of negate] assms(2) candidate_on_curve by auto

lemma tangle_ok:
  assumes "ok_point s target" and "mtwei_tangle s target validator negate = Ret (v, t)"
  shows "v = SetBytes validator \<and> ok_point s t"
proof -
  from assms(2) obtain buf lifted tot where v: "v = SetBytes validator"
    and l: "tangle_loop s negate (SetBytes (sha256 buf)) = Ret lifted"
    and a: "mtwei_add s target lifted = Ret tot"
    and t: "t = target\<lparr>ptX := ptX tot, ptY := ptY tot, ptInf := ptInf tot\<rparr>"
    by (auto simp: mtwei_tangle_def Let_def)
  have "\<exists>x y. lifted = affine x y \<and> on_curve s x y"
    using tangle_loop_on_curve [OF _ l] SetBytes_range by blast
  then have "ok_point s lifted" by (auto simp: ok_point_def)
  then have "ok_point s tot" using add_closed [OF assms(1), of lifted] a by (auto split: if_splits)
  moreover have "t = tot" unfolding t by (rule point.equality) simp_all
  ultimately show ?thesis using v by simp
qed

lemma FillBytes_mod: "\<exists>b. FillBytes 32 (x mod msP s) = Ret b \<and> length b = 32 \<and> SetBytes b = x mod msP s"
proof -
  have "x mod msP s < msP s" using p_pos by simp
  also note p_small
  finally have "x mod msP s < 256 ^ 32" .
  moreover have "0 \<le> x mod msP s" using p_pos by simp
  ultimately show ?thesis by (intro FillBytes_ok)
qed

lemma offsets_cancel: "((x + msW2m s) mod msP s + msM2w s) mod msP s = x mod msP s"
proof -
  obtain k where k: "msW2m s + msM2w s = msP s * k" using offsets by (auto elim: dvdE)
  have "((x + msW2m s) mod msP s + msM2w s) mod msP s = (x + msW2m s + msM2w s) mod msP s"
    by (rule mod_add_left_eq)
  also have "x + msW2m s + msM2w s = x + msP s * k" using k by simp
  finally show ?thesis by simp
qed

text \<open>A client key: the peer that undoes the offset recovers the public point's coordinate.\<close>

lemma keygen_spec:
  "mtwei_keygen s (Inr raw) None =
    (case mtwei_scalarMult s (SetBytes (clamp raw)) (mtwei_generator s) of
       Panic \<Rightarrow> Panic
     | Ret pub \<Rightarrow>
         if pub = infinity then Panic
         else Ret (Inr (SetBytes (clamp raw),
           (case FillBytes 32 ((the (ptX pub) + msW2m s) mod msP s) of Ret b \<Rightarrow> b | Panic \<Rightarrow> [])
             @ [of_int (the (ptY pub) mod 2)])))"
proof (cases "mtwei_scalarMult s (SetBytes (clamp raw)) (mtwei_generator s)")
  case (Ret pub)
  then have "ok_point s pub" using scalarMult_closed generator_ok by blast
  then consider "pub = infinity" | x y where "pub = affine x y" by (auto simp: ok_point_def)
  then show ?thesis
  proof cases
    case 1
    then show ?thesis using Ret by (simp add: mtwei_keygen_def Let_def)
  next
    case 2
    obtain b where "FillBytes 32 ((x + msW2m s) mod msP s) = Ret b" using FillBytes_mod by blast
    then show ?thesis using Ret 2 by (simp add: mtwei_keygen_def Let_def)
  qed
qed (simp add: mtwei_keygen_def Let_def)

lemma docrypto_spec:
  "mtwei_docrypto s priv serverKey clientKey validator =
    (case mtwei_liftX s ((SetBytes (take 32 serverKey) + msM2w s) mod msP s) (serverKey ! 32) of
       None \<Rightarrow> Ret (Inl ServerKeyNotOnCurve)
     | Some serverPub \<Rightarrow>
        (case mtwei_tangle s serverPub validator 1 of
           Panic \<Rightarrow> Panic
         | Ret (v, target) \<Rightarrow>
            (case mtwei_scalarMult s (srp_scalar s priv serverKey clientKey validator) target of
               Panic \<Rightarrow> Panic
             | Ret pt \<Rightarrow>
                 if pt = infinity then Panic
                 else (case FillBytes 32 ((the (ptX pt) + msW2m s) mod msP s) of
                     Panic \<Rightarrow> Panic
                   | Ret z \<Rightarrow> Ret (Inr (sha256 (srp_hash clientKey serverKey @ z)))))))"
proof (cases "mtwei_liftX s ((SetBytes (take 32 serverKey) + msM2w s) mod msP s) (serverKey ! 32)")
  case None
  then show ?thesis by (simp add: mtwei_docrypto_def Let_def)
next
  case (Some P)
  have okP: "ok_point s P" using liftX_on_curve [OF Some] by (auto simp: ok_point_def)
  show ?thesis
  proof (cases "mtwei_tangle s P validator 1")
    case Panic
    then show ?thesis using Some by (simp add: mtwei_docrypto_def Let_def)
  next
    case (Ret vt)
    obtain v t where vt: "vt = (v, t)" by (cases vt)
    have v: "v = SetBytes validator" and okt: "ok_point s t"
      using tangle_ok [OF okP, of validator 1 v t] Ret vt by auto
    let ?k = "srp_scalar s priv serverKey clientKey validator"
    show ?thesis
    proof (cases "mtwei_scalarMult s ?k t")
      case Panic
      then show ?thesis using Some Ret vt v
        by (simp add: mtwei_docrypto_def Let_def srp_scalar_def srp_hash_def)
    next
      case pt: (Ret pt)
      have "ok_point s pt" using scalarMult_closed [OF okt pt] .
      then consider "pt = infinity" | x y where "pt = affine x y" by (auto simp: ok_point_def)
      then show ?thesis
      proof cases
        case 1
        then show ?thesis using Some Ret vt v pt
          by (simp add: mtwei_docrypto_def Let_def srp_scalar_def srp_hash_def)
      next
        case 2
        obtain b where "FillBytes 32 ((x + msW2m s) mod msP s) = Ret b" using FillBytes_mod by blast
        then show ?thesis using Some Ret vt v pt 2
          by (simp add: mtwei_docrypto_def Let_def srp_scalar_def srp_hash_def)
      qed
    qed
  qed
qed

lemma docrypto_length:
  "mtwei_docrypto s priv serverKey clientKey validator = Ret (Inr r) \<Longrightarrow> length r = 32"
  by (auto simp: docrypto_spec split: option.splits go.splits if_splits prod.splits)

lemma keygen_length:
  assumes "mtwei_keygen s (Inr raw) None = Ret (Inr (priv, key))"
  shows "length key = 33"
proof -
  obtain pub where pub: "mtwei_scalarMult s (SetBytes (clamp raw)) (mtwei_generator s) = Ret pub"
    using assms by (cases "mtwei_scalarMult s (SetBytes (clamp raw)) (mtwei_generator s)") (simp_all add: keygen_spec)
  obtain b where "FillBytes 32 ((the (ptX pub) + msW2m s) mod msP s) = Ret b" "length b = 32"
    using FillBytes_mod by blast
  then show ?thesis using assms pub by (auto simp: keygen_spec split: if_splits)
qed

end

interpretation mikrotik: curve newMtweiState
proof
  show "0 < msP newMtweiState" "msP newMtweiState \<le> 256 ^ 32" "odd (msP newMtweiState)"
    by (simp_all add: newMtweiState_def)
  have "msW2m newMtweiState + msM2w newMtweiState = msP newMtweiState"
    by (simp add: newMtweiState_def)
  then show "msP newMtweiState dvd msW2m newMtweiState + msM2w newMtweiState" by simp
  show "on_curve newMtweiState (msGx newMtweiState) (msGy newMtweiState)"
    unfolding on_curve_def
    by (rule dvdI [where k = "- 0x25ed097b425ed097b425ed097b425ed097b425ed097b425ed097b425ed101518020ab6bfc92a44b53744121f6cedd6b2644f2cb6e667c628956d945beec6574"])
      (simp add: newMtweiState_def)
qed

end
