(* ===== verification/Mtwei_Properties.thy ===== *)
theory Mtwei_Properties
  imports Mtwei_Facts
begin

text \<open>
  The properties of the EC-SRP code on the constants of the source.
\<close>

text \<open>
  C29.  Doubling and adding points of the curve give points of the curve; doubling never
  panics, adding panics exactly when both arguments are the point at infinity, whose
  coordinates are nil; and a scalar multiple, when it is returned, is on the curve too.
\<close>

theorem curve_arithmetic:
  assumes "ok_point newMtweiState p1" and "ok_point newMtweiState p2"
  shows "(\<exists>r. mtwei_double newMtweiState p1 = Ret r \<and> ok_point newMtweiState r)
    \<and> (if p1 = infinity \<and> p2 = infinity then mtwei_add newMtweiState p1 p2 = Panic
       else \<exists>r. mtwei_add newMtweiState p1 p2 = Ret r \<and> ok_point newMtweiState r)
    \<and> (mtwei_scalarMult newMtweiState k p1 = Ret r' \<longrightarrow> ok_point newMtweiState r')"
  using mikrotik.double_closed [OF assms(1)] mikrotik.add_closed [OF assms]
    mikrotik.scalarMult_closed [OF assms(1)] by blast

theorem curve_arithmetic_witness:
  "\<exists>r. mtwei_add newMtweiState (mtwei_generator newMtweiState) infinity = Ret r \<and> ok_point newMtweiState r"
proof -
  have "ok_point newMtweiState infinity" by (simp add: ok_point_def)
  from curve_arithmetic [OF mikrotik.generator_ok this] show ?thesis
    by (simp add: mtwei_generator_def)
qed

text \<open>
  \<open>liftX\<close> either says that there is no point or returns one of the curve, over the very
  coordinate asked for and with the parity asked for.
\<close>

theorem lift_sound:
  "case mtwei_liftX newMtweiState x par of
     None \<Rightarrow> True
   | Some pt \<Rightarrow> \<exists>y. pt = affine x y \<and> on_curve newMtweiState x y \<and> 0 \<le> y \<and> y \<le> msP newMtweiState
       \<and> (par \<in> {0, 1} \<longrightarrow> of_int (y mod 2) = par)"
  using mikrotik.liftX_on_curve [of x par] by (auto split: option.split)

text \<open>
  The search in \<open>tangle\<close> ends: it returns the point of the first seed, counting up from
  the given one, whose candidate is on the curve, and panics when no 32-byte seed is left.
\<close>

theorem tangle_search_ends:
  assumes "0 \<le> seed"
  shows "(case tangle_loop newMtweiState negate seed of
      Ret pt \<Rightarrow> \<exists>i. seed \<le> i \<and> i < 256 ^ 32 \<and> candidate newMtweiState negate i = Some pt
        \<and> (\<forall>j. seed \<le> j \<and> j < i \<longrightarrow> candidate newMtweiState negate j = None)
    | Panic \<Rightarrow> \<forall>i. seed \<le> i \<and> i < 256 ^ 32 \<longrightarrow> candidate newMtweiState negate i = None)"
  by (rule mikrotik.tangle_loop_search [OF assms])

theorem tangle_search_ends_witness:
  "tangle_loop newMtweiState 1 (256 ^ 32) = Panic"
proof -
  have "(0 :: int) \<le> 256 ^ 32" by simp
  from tangle_search_ends [OF this, of 1] show ?thesis
    by (cases "tangle_loop newMtweiState 1 (256 ^ 32)") auto
qed

text \<open>
  The client's key: for 32 random bytes \<open>keygen\<close> returns the clamped scalar and a
  33-byte key from which the peer, adding the other offset, gets back the coordinate and
  the parity of the public point, a point of the curve; the only other outcome is a panic,
  when the multiple of the generator is the point at infinity.
\<close>

theorem client_key:
  "case mtwei_keygen newMtweiState (Inr raw) None of
     Panic \<Rightarrow> mtwei_scalarMult newMtweiState (SetBytes (clamp raw)) (mtwei_generator newMtweiState)
         \<in> {Panic, Ret infinity}
   | Ret (Inl e) \<Rightarrow> False
   | Ret (Inr (priv, key)) \<Rightarrow> priv = SetBytes (clamp raw) \<and> length key = 33
       \<and> (\<exists>x y. mtwei_scalarMult newMtweiState priv (mtwei_generator newMtweiState) = Ret (affine x y)
           \<and> on_curve newMtweiState x y
           \<and> (SetBytes (take 32 key) + msM2w newMtweiState) mod msP newMtweiState = x mod msP newMtweiState
           \<and> key ! 32 = of_int (y mod 2))"
proof (cases "mtwei_scalarMult newMtweiState (SetBytes (clamp raw)) (mtwei_generator newMtweiState)")
  case Panic
  then show ?thesis by (simp add: mikrotik.keygen_spec)
next
  case (Ret pub)
  then have "ok_point newMtweiState pub"
    using mikrotik.scalarMult_closed mikrotik.generator_ok by blast
  then consider "pub = infinity" | x y where "pub = affine x y" "on_curve newMtweiState x y"
    by (auto simp: ok_point_def)
  then show ?thesis
  proof cases
    case 1
    then show ?thesis using Ret by (simp add: mikrotik.keygen_spec)
  next
    case 2
    obtain b where "FillBytes 32 ((x + msW2m newMtweiState) mod msP newMtweiState) = Ret b" "length b = 32"
      "SetBytes b = (x + msW2m newMtweiState) mod msP newMtweiState"
      using mikrotik.FillBytes_mod by blast
    then show ?thesis
      using Ret 2 mikrotik.offsets_cancel by (simp add: mikrotik.keygen_spec nth_append)
  qed
qed


end
