(* ===== verification/Mtwei_Sample.thy ===== *)
theory Mtwei_Sample
  imports Mtwei_Facts
begin

text \<open>
  A concrete client key, for the instances of the session properties.  From 32 zero bytes
  \<open>keygen\<close> clamps the scalar 64, so that the public point is the generator doubled six
  times; each doubling is checked by multiplication with the quotients given.
\<close>

section \<open>Doubling with given quotients\<close>

lemma ModInverse_unique:
  assumes "(g * i) mod n = 1" and "0 \<le> i" and "i < n"
  shows "ModInverse g n = Some i"
proof -
  have n: "0 < n" using assms by linarith
  have "n dvd g * i - 1" using assms(1) by (metis mod_eq_dvd_iff mod_mod_trivial)
  then have "gcd g n dvd 1"
    by (metis dvd_diff_right_iff dvd_mult2 dvd_trans gcd_dvd1 gcd_dvd2)
  then obtain j where j: "ModInverse g n = Some j" using ModInverse_None [OF n, of g] by (cases "ModInverse g n") auto
  note J = ModInverse_Some [OF j n]
  have "n dvd (g * j - 1) * i - (g * i - 1) * j" using J \<open>n dvd g * i - 1\<close> by (meson dvd_diff dvd_mult2)
  then have "n dvd j - i" by (simp add: algebra_simps)
  then have "j mod n = i mod n" by (simp add: mod_eq_dvd_iff)
  then show ?thesis using J assms j by simp
qed

lemma mod_at: "(a :: int) = q * n + r \<Longrightarrow> 0 \<le> r \<Longrightarrow> r < n \<Longrightarrow> a mod n = r"
  by (simp add: mod_pos_pos_trivial)

lemma double_at:
  assumes "y \<noteq> 0" and "2 * y = q1 * msP s + den" and "0 \<le> den" and "den < msP s"
    and "den * iv = q2 * msP s + 1" and "1 < msP s" and "0 \<le> iv" and "iv < msP s"
    and "x * x * 3 + msA s = q3 * msP s + num" and "0 \<le> num" and "num < msP s"
    and "num * iv = q4 * msP s + lam" and "0 \<le> lam" and "lam < msP s"
    and "lam * lam - x - x = q5 * msP s + rx" and "0 \<le> rx" and "rx < msP s"
    and "(x - rx) * lam - y = q6 * msP s + ry" and "0 \<le> ry" and "ry < msP s"
  shows "mtwei_double s (affine x y) = Ret (affine rx ry)"
proof -
  have m: "2 * y mod msP s = den" "den * iv mod msP s = 1" "(x * x * 3 + msA s) mod msP s = num" "num * iv mod msP s = lam"
    "(lam * lam - x - x) mod msP s = rx" "((x - rx) * lam - y) mod msP s = ry"
    using assms by (simp_all only: mod_at zero_le_one)
  have "ModInverse den (msP s) = Some iv" by (rule ModInverse_unique [OF m(2) assms(7,8)])
  then show ?thesis using assms(1) m by (simp add: mtwei_double_def Let_def)
qed

lemma double_0: "mtwei_double newMtweiState (affine 0x2aaaaaaaaaaaaaaaaaaaaaaaaaaaaaaaaaaaaaaaaaaaaaaaaaaaaaaaaaad245a 0x5f51e65e475f794b1fe122d388b72eb36dc2b28192839e4dd6163a5d81312c14)
    = Ret (affine 0x4b7ded7fc31e9c62841fb71327c01bbf39ea0797c8dfb6070758f1478815734c 0x6c4a81fee8ff1751faf5ff6ba2d45d0c889a614d7272c6e14328fb9a38d20a8a)"
  by (rule double_at [where den = "0x3ea3ccbc8ebef2963fc245a7116e5d66db85650325073c9bac2c74bb0262583b" and iv = "0x17c0352637055e53e57dda7416bf5d19884d679a48452248d369f21940001670" and num = "0x85ab60" and lam = "0x686f0adf399ba4239e6d4825b936c7d5a462740c17a95691d38fe743b90c7ab9"
      and ?q1.0 = "0x1" and ?q2.0 = "0xb9f7e7f82d04ba0af8a44dfc144f08daca7d2457d501c9e4482e37b687e8b2b" and ?q3.0 = "0x2aaaaaaaaaaaaaaaaaaaaaaaaaaaaaaaaaaaaaaaaaaaaaaaaaaaaaaaaaaf9e10" and ?q4.0 = "0x18cd83"
      and ?q5.0 = "0x5534d1ff99b13af5b51b3313984bdced70ce66bb289e2a318c031cb9e1a53455" and ?q6.0 = "-12113726349862277999191262285623507782831750570832173804948227452781382600064"])
    (simp_all add: newMtweiState_def)

lemma double_1: "mtwei_double newMtweiState (affine 0x4b7ded7fc31e9c62841fb71327c01bbf39ea0797c8dfb6070758f1478815734c 0x6c4a81fee8ff1751faf5ff6ba2d45d0c889a614d7272c6e14328fb9a38d20a8a)
    = Ret (affine 0x247943628b134828927c7b1f4c05dc0aa8c2b08a7807d4cdba99308effad3853 0x78a50a40b14238a3701d978cbd82d8a28c3f04ec25c9ef885a9aac60b921e3bd)"
  by (rule double_at [where den = "0x589503fdd1fe2ea3f5ebfed745a8ba191134c29ae4e58dc28651f73471a41527" and iv = "0x184c0343932a94879c2e6ee22967d15c2abb27d0e702cda324c0bf9ee34841ae" and num = "0x30c0f202bff5353a988962ca22c3d2a0f9023d01f1d3861efc6e0ef2dc9dbca3" and lam = "0x1c00308490088876ca11904bd8c7d06e09a6fa661003c15f30b0c29a110a06c5"
      and ?q1.0 = "0x1" and ?q2.0 = "0x10d08b7c3804fbb743eac61e42f3eda61b33cb994ea329b4939dafdea952ab65" and ?q3.0 = "0x85922a9fec95bf61c99cfb29960ff276b3d0fa8ac4221eccdf877750a1480d75" and ?q4.0 = "0x941212e78587f5421276b4ea2b05e6c488b22f20fe005e3bae293f657448c79"
      and ?q5.0 = "0x620153a1167b104126d6f4c06478cb4efe8d0081504be68c8c99476b41ea5a6" and ?q6.0 = "3860698886292349943066216167568912306814005277818166219365159013948436604910"])
    (simp_all add: newMtweiState_def)

lemma double_2: "mtwei_double newMtweiState (affine 0x247943628b134828927c7b1f4c05dc0aa8c2b08a7807d4cdba99308effad3853 0x78a50a40b14238a3701d978cbd82d8a28c3f04ec25c9ef885a9aac60b921e3bd)
    = Ret (affine 0x520a5182558106d882e632f87361074c25239875581f53c99c1c1a97f376bdb9 0x6085bbba8fb939e48dcf44694066b08c4f479c6770c591f9c5296d6e9f728718)"
  by (rule double_at [where den = "0x714a148162847146e03b2f197b05b145187e09d84b93df10b53558c17243c78d" and iv = "0x394c762b5591bb8d7df08ca5245137baca8b2706b5eecb34f179e8165e3d3608" and num = "0x3a3cd9a0469bd4784fb4ccc43b250735644fcd8556eb3f71d629ac15e1f52946" and lam = "0x7cc6ef679ff287401ef0c8044bf9cdf60f3b68c38a71cdc8294294d4cfba8acc"
      and ?q1.0 = "0x1" and ?q2.0 = "0x32b6a9b47037d0e69ddf4bc096a941bc53a0fdeabcc5fb2ba9cd70dbc7895123" and ?q3.0 = "0x1f2dfa5ae809bb82f1d77b1e1cef9523fe4db920a4ebc70dd1e43d3600458a7d" and ?q4.0 = "0x1a11e2ce669ae4db57de585eb219effb876504bc50fc992cd2ae09fe9aee3c74"
      and ?q5.0 = "0x79a2a5072e4209908d95aebb5d2d8f46ed182f2ba4d14077fcbe2f71cae6c4d5" and ?q6.0 = "-20091420430811720747879118848612574310605772464647253589618801805064979226353"])
    (simp_all add: newMtweiState_def)

lemma double_3: "mtwei_double newMtweiState (affine 0x520a5182558106d882e632f87361074c25239875581f53c99c1c1a97f376bdb9 0x6085bbba8fb939e48dcf44694066b08c4f479c6770c591f9c5296d6e9f728718)
    = Ret (affine 0x5d6488ca90b77e2eb3d6d47e1ee85aa0b99783056129be2945200b0c7aea43a7 0x7cca8f46e8eec7da4a9b184293210c6115bf9b763a27e03f27a7a6f97949e476)"
  by (rule double_at [where den = "0x410b77751f7273c91b9e88d280cd61189e8f38cee18b23f38a52dadd3ee50e43" and iv = "0x553145e1c639259c5565b2ccbc370daff3ca7704a21f2e35fa3ba6d25f43ba7d" and num = "0x4d464bd58ec189c5d31d42d5c27d46cae19337c36232070bba06f8c9335c017f" and lam = "0x6c766cc109ba84ee7699fff7d003e61a28f3ccf7f7f74e2cbcb61d369b8b9cb4"
      and ?q1.0 = "0x1" and ?q2.0 = "0x2b4aa73a6afff089f9a19316411f58d0cc7b29889413dc9f3667ac2961f604ce" and ?q3.0 = "0x9dbfabcbc9767193083b95a8a41ee42d662dac1ec0f92a3a3bde1de11a0b1f38" and ?q4.0 = "0x336e6d750aaad53e31783fbcb53c3707c19ce6b940f33f69856d6233bece15ab"
      and ?q5.0 = "0x5be84516a0bb93c197571da0100c1a40215db6e21b6dbf62677ff28c26a7c873" and ?q6.0 = "-4351078009478087724604646633300911700854810720043621126008785041716383891902"])
    (simp_all add: newMtweiState_def)

lemma double_4: "mtwei_double newMtweiState (affine 0x5d6488ca90b77e2eb3d6d47e1ee85aa0b99783056129be2945200b0c7aea43a7 0x7cca8f46e8eec7da4a9b184293210c6115bf9b763a27e03f27a7a6f97949e476)
    = Ret (affine 0x4d01ad2db686119cc248463025c241785b8c54974b39cbc4bc1e9a981dd87ca0 0x7c8cb749c59d5a502f33883b20fcd537b21b39a7bb874a5d154a4df711908fa1)"
  by (rule double_at [where den = "0x79951e8dd1dd8fb495363085264218c22b7f36ec744fc07e4f4f4df2f293c8ff" and iv = "0x6d273936a1a0032f35298c1af9c63b5e230c9ef7424b691d292790f6c700cbd4" and num = "0x5357a32fc575f79607d9e395f3cf0ac39b408e6c1d83f251dacec88d75ab7098" and lam = "0x37ba7f83ee48a2b9b5c25fe33e902b70f16bfdab441d2debf6dce11fcd9f247"
      and ?q1.0 = "0x1" and ?q2.0 = "0x67ae3dcc5ff63705acc36aa781080a51b7078a3085babfdd346c2cf4d3975577" and ?q3.0 = "0xcc6d3135faf562790b9db2e75e72adf1131a9a6c0d2e2cfa09b6168c716ca59b" and ?q4.0 = "0x47122aeaff9527bde51ec8e44f16bb9f99e0475e3b3f5ab1a9dda9949a22f4dd"
      and ?q5.0 = "0x18435550773b43c41f172676320b5e62cfff3f6d21d908902c8cab8236246f" and ?q6.0 = "201680391023351857339267503878683429976288251510611579104982697438810157314"])
    (simp_all add: newMtweiState_def)

lemma double_5: "mtwei_double newMtweiState (affine 0x4d01ad2db686119cc248463025c241785b8c54974b39cbc4bc1e9a981dd87ca0 0x7c8cb749c59d5a502f33883b20fcd537b21b39a7bb874a5d154a4df711908fa1)
    = Ret (affine 0x62e970c865b4b371dc0f799a2ebeffb65f98d10cc2f3a80df245f585ffb651f9 0x5594dd0237fe40345bf4d885a9f526ff69fd7d1a55f145f173ab2889c143c0d9)"
  by (rule double_at [where den = "0x79196e938b3ab4a05e67107641f9aa6f6436734f770e94ba2a949bee23211f55" and iv = "0x532b65a7f30a88cadf630e56a7472da506b38f9e9c8b12ef721b48950356977" and num = "0x20e53bd4f351bc23662a888d4c15a45c0576d57b96fef42cb39fec94fe020246" and lam = "0x5f440ae258b814d00597af35208538375d4a0fed9a3c14664364d3f4f6458abf"
      and ?q1.0 = "0x1" and ?q2.0 = "0x4eaf8c6bc837c68857045d2ab2643d6ece70c3b72a9a822dd2809401b6ddf4a" and ?q3.0 = "0x8afc0d21dbd95afbe707c26cfd8f80b1ca68adc1439c80c04c42ebb004782b36" and ?q4.0 = "0x155fcbee3a10b9eec088faffb3cff0d430c47b25e04b2223c015219fc34b997"
      and ?q5.0 = "0x46e724538d1c7099301b3e0a58de467fe9f178fc271af6d8871c52445f393368" and ?q6.0 = "-7374213415215240538677538541826946931712370918912257852844510680034850754885"])
    (simp_all add: newMtweiState_def)

section \<open>The key\<close>

lemma sample_scalar: "SetBytes (clamp (replicate 32 0)) = 64"
  by code_simp

lemma sample_bits: "BitLen 64 = Suc (Suc (Suc (Suc (Suc (Suc (Suc 0))))))"
  by code_simp

lemma sample_bit:
  "\<not> bit (64 :: int) 0" "\<not> bit (64 :: int) (Suc 0)" "\<not> bit (64 :: int) (Suc (Suc 0))"
  "\<not> bit (64 :: int) (Suc (Suc (Suc 0)))" "\<not> bit (64 :: int) (Suc (Suc (Suc (Suc 0))))"
  "\<not> bit (64 :: int) (Suc (Suc (Suc (Suc (Suc 0)))))" "bit (64 :: int) (Suc (Suc (Suc (Suc (Suc (Suc 0))))))"
  by (simp_all add: bit_iff_odd)

lemma sample_generator: "mtwei_generator newMtweiState = affine
    0x2aaaaaaaaaaaaaaaaaaaaaaaaaaaaaaaaaaaaaaaaaaaaaaaaaaaaaaaaaad245a
    0x5f51e65e475f794b1fe122d388b72eb36dc2b28192839e4dd6163a5d81312c14"
  by (simp add: mtwei_generator_def newMtweiState_def)

lemma add_infinity_left: "mtwei_add s infinity (affine x y) = Ret (affine x y)"
  by (simp add: mtwei_add_def)

lemma double_total: "\<exists>r. mtwei_double s (affine x y) = Ret r"
  by (cases "ModInverse (2 * y mod msP s) (msP s)") (simp_all add: mtwei_double_def Let_def)

lemma sample_multiple:
  obtains x y where "mtwei_scalarMult newMtweiState 64 (mtwei_generator newMtweiState) = Ret (affine x y)"
proof -
  obtain r where r: "mtwei_double newMtweiState (affine 0x62e970c865b4b371dc0f799a2ebeffb65f98d10cc2f3a80df245f585ffb651f9 0x5594dd0237fe40345bf4d885a9f526ff69fd7d1a55f145f173ab2889c143c0d9) = Ret r"
    using double_total by blast
  show ?thesis
    by (rule that) (simp add: mtwei_scalarMult_def sample_bits sample_generator add_infinity_left sample_bit
        double_0 double_1 double_2 double_3 double_4 double_5 r)
qed

lemma sample_keygen:
  obtains pub where "mtwei_keygen newMtweiState (Inr (replicate 32 0)) None = Ret (Inr (64, pub))"
proof -
  obtain x y where "mtwei_scalarMult newMtweiState 64 (mtwei_generator newMtweiState) = Ret (affine x y)"
    by (rule sample_multiple)
  then show ?thesis using that by (simp add: mikrotik.keygen_spec sample_scalar)
qed

end
