(* ===== verification/Mndp_Parser.thy ===== *)
theory Mndp_Parser
  imports Sequencing
begin

text \<open>
  \<^verbatim>\<open>src/internal/mndp/parser.go\<close> and \<^verbatim>\<open>types.go\<close>: MNDP announcements, a 4-byte header
  and type-length-value attributes, decoded as far as they go.
\<close>

section \<open>Packets\<close>

definition mndp_headerLen :: nat where "mndp_headerLen = 4"
definition minPacketLen :: nat where "minPacketLen = 18"
definition mndpMaxStringLen :: nat where "mndpMaxStringLen = 128"

definition attrAddress :: u16 where "attrAddress = 0x0001"
definition attrIdentity :: u16 where "attrIdentity = 0x0005"
definition attrVersion :: u16 where "attrVersion = 0x0007"
definition attrPlatform :: u16 where "attrPlatform = 0x0008"
definition attrTimestamp :: u16 where "attrTimestamp = 0x000a"
definition attrSoftID :: u16 where "attrSoftID = 0x000b"
definition attrHardware :: u16 where "attrHardware = 0x000c"
definition attrIfname :: u16 where "attrIfname = 0x0010"

lemmas attr_defs = attrAddress_def attrIdentity_def attrVersion_def attrPlatform_def
  attrTimestamp_def attrSoftID_def attrHardware_def attrIfname_def

record Packet =
  pkHeaderVersion :: byte
  pkTTL :: byte
  pkChecksum :: u16
  pkMAC :: mac
  pkIdentity :: string
  pkVersion :: string
  pkPlatform :: string
  pkUptime :: duration
  pkSoftID :: string
  pkHardware :: string
  pkIface :: string

datatype mndp_error = ErrShortPacket

definition zero_mac :: mac where "zero_mac = Mac 0 0 0 0 0 0"

definition clipString :: "byte list \<Rightarrow> string" where
  "clipString b =
    (let b = (if length b \<ge> mndpMaxStringLen then take (mndpMaxStringLen - 1) b else b)
     in string_of_bytes b)"

text \<open>The \<^verbatim>\<open>switch\<close> on an attribute.\<close>

definition apply_attr :: "Packet \<Rightarrow> u16 \<Rightarrow> byte list \<Rightarrow> Packet" where
  "apply_attr pkt typ val =
    (if typ = attrAddress then
       (if length val \<ge> 6 then pkt\<lparr>pkMAC := mac_at val 0\<rparr> else pkt)
     else if typ = attrIdentity then pkt\<lparr>pkIdentity := clipString val\<rparr>
     else if typ = attrVersion then pkt\<lparr>pkVersion := clipString val\<rparr>
     else if typ = attrPlatform then pkt\<lparr>pkPlatform := clipString val\<rparr>
     else if typ = attrTimestamp then
       (if length val \<ge> 4 then
          let secs = le32_at val 0 in pkt\<lparr>pkUptime := wrap64 (uint secs * second)\<rparr>
        else pkt)
     else if typ = attrSoftID then pkt\<lparr>pkSoftID := clipString val\<rparr>
     else if typ = attrHardware then pkt\<lparr>pkHardware := clipString val\<rparr>
     else if typ = attrIfname then pkt\<lparr>pkIface := clipString val\<rparr>
     else pkt)"

function parse_attrs :: "Packet \<Rightarrow> byte list \<Rightarrow> Packet" where
  "parse_attrs pkt p =
    (if length p < 4 then pkt
     else
       let typ = be16_at p 0;
           ln = unat (be16_at p 2);
           p = drop 4 p
       in if ln > length p then pkt
          else
            let val = take ln p;
                p = drop ln p
            in parse_attrs (apply_attr pkt typ val) p)"
  by pat_completeness auto
termination by (relation "measure (\<lambda>(pkt, p). length p)") auto

declare parse_attrs.simps [simp del]

definition ParsePacket :: "byte list \<Rightarrow> mndp_error + Packet" where
  "ParsePacket buf =
    (if length buf < minPacketLen then Inl ErrShortPacket
     else
       let pkt = \<lparr>pkHeaderVersion = buf ! 0, pkTTL = buf ! 1, pkChecksum = be16_at buf 2,
             pkMAC = zero_mac, pkIdentity = [], pkVersion = [], pkPlatform = [], pkUptime = 0,
             pkSoftID = [], pkHardware = [], pkIface = []\<rparr>;
           p = drop mndp_headerLen buf
       in Inr (parse_attrs pkt p))"

section \<open>Attributes as a framed stream\<close>

record tlv =
  tlvType :: u16
  tlvVal :: "byte list"

definition tlv_wire :: "tlv \<Rightarrow> byte list" where
  "tlv_wire t = be16 (tlvType t) @ be16 (of_nat (length (tlvVal t))) @ tlvVal t"

function tlvs :: "byte list \<Rightarrow> tlv list" where
  "tlvs p =
    (if length p < 4 \<or> length p - 4 < unat (be16_at p 2) then []
     else \<lparr>tlvType = be16_at p 0, tlvVal = take (unat (be16_at p 2)) (drop 4 p)\<rparr>
       # tlvs (drop (unat (be16_at p 2)) (drop 4 p)))"
  by pat_completeness auto
termination by (relation "measure length") auto

declare tlvs.simps [simp del]

lemma parse_attrs_tlvs:
  "parse_attrs pkt p = foldl (\<lambda>pkt t. apply_attr pkt (tlvType t) (tlvVal t)) pkt (tlvs p)"
proof (induction pkt p rule: parse_attrs.induct)
  case (1 pkt p)
  let ?ln = "unat (be16_at p 2)"
  show ?case
  proof (cases "length p < 4 \<or> length p - 4 < ?ln")
    case True
    then show ?thesis by (subst parse_attrs.simps, subst tlvs.simps) (auto simp: Let_def)
  next
    case False
    then have "parse_attrs (apply_attr pkt (be16_at p 0) (take ?ln (drop 4 p))) (drop ?ln (drop 4 p))
      = foldl (\<lambda>pkt t. apply_attr pkt (tlvType t) (tlvVal t)) (apply_attr pkt (be16_at p 0) (take ?ln (drop 4 p)))
          (tlvs (drop ?ln (drop 4 p)))"
      using 1 [OF _ refl refl refl _ refl refl] by simp
    then show ?thesis
      using False by (subst parse_attrs.simps, subst tlvs.simps) (simp add: Let_def)
  qed
qed

lemma tlvs_wire:
  assumes "length (tlvVal t) < 65536"
  shows "tlvs (tlv_wire t @ rest) = t # tlvs rest"
proof -
  let ?n = "of_nat (length (tlvVal t)) :: u16"
  let ?p = "tlv_wire t @ rest"
  have p: "?p = be16 (tlvType t) @ be16 ?n @ tlvVal t @ rest"
    by (simp add: tlv_wire_def)
  have "be16_at ?p 0 = tlvType t"
    using be16_at_append [of "[]" 0 "tlvType t"] by (simp add: p)
  moreover have ln: "be16_at ?p 2 = ?n"
    using be16_at_append [of "be16 (tlvType t)" 2 ?n] by (simp add: p)
  moreover have n: "unat ?n = length (tlvVal t)" using assms by (simp add: unat_of_nat)
  moreover have "drop 4 ?p = tlvVal t @ rest" by (simp add: p be16_def)
  moreover have "length ?p = 4 + length (tlvVal t) + length rest" by (simp add: p)
  ultimately show ?thesis by (subst tlvs.simps) simp
qed

text \<open>The attribute stream is a second instance of the framing interface.\<close>

interpretation mndp: framing tlv_wire tlvs "\<lambda>t. length (tlvVal t) < 65536" "\<lambda>p. True"
  by unfold_locales (simp_all add: tlvs_wire)

section \<open>Announcements\<close>

text \<open>The attributes with which a device announces the contents of a \<open>Packet\<close>.\<close>

definition announce_attrs :: "Packet \<Rightarrow> u32 \<Rightarrow> tlv list" where
  "announce_attrs pkt secs =
    [\<lparr>tlvType = attrAddress, tlvVal = mac_bytes (pkMAC pkt)\<rparr>,
     \<lparr>tlvType = attrIdentity, tlvVal = bytes_of_string (pkIdentity pkt)\<rparr>,
     \<lparr>tlvType = attrVersion, tlvVal = bytes_of_string (pkVersion pkt)\<rparr>,
     \<lparr>tlvType = attrPlatform, tlvVal = bytes_of_string (pkPlatform pkt)\<rparr>,
     \<lparr>tlvType = attrTimestamp, tlvVal = le32 secs\<rparr>,
     \<lparr>tlvType = attrSoftID, tlvVal = bytes_of_string (pkSoftID pkt)\<rparr>,
     \<lparr>tlvType = attrHardware, tlvVal = bytes_of_string (pkHardware pkt)\<rparr>,
     \<lparr>tlvType = attrIfname, tlvVal = bytes_of_string (pkIface pkt)\<rparr>]"

definition announcement :: "Packet \<Rightarrow> u32 \<Rightarrow> byte list" where
  "announcement pkt secs =
    [pkHeaderVersion pkt, pkTTL pkt] @ be16 (pkChecksum pkt) @ concat (map tlv_wire (announce_attrs pkt secs))"

definition short_texts :: "Packet \<Rightarrow> bool" where
  "short_texts pkt \<longleftrightarrow> (\<forall>s \<in> {pkIdentity pkt, pkVersion pkt, pkPlatform pkt, pkSoftID pkt, pkHardware pkt,
     pkIface pkt}. length s < mndpMaxStringLen)"

lemma clipString_short [simp]: "length s < mndpMaxStringLen \<Longrightarrow> clipString (bytes_of_string s) = s"
  by (simp add: clipString_def)

lemma length_clipString: "length (clipString b) < mndpMaxStringLen"
  by (simp add: clipString_def mndpMaxStringLen_def)

lemma length_tlv_wire [simp]: "length (tlv_wire t) = 4 + length (tlvVal t)"
  by (simp add: tlv_wire_def)

lemma uptime_no_wrap: "wrap64 (uint (secs :: u32) * second) = uint secs * second"
proof -
  have "uint secs < 2 ^ 32" using uint_lt2p [of secs] by simp
  then have "uint secs * second < 2 ^ 63" by (simp add: second_def)
  moreover have "0 \<le> uint secs * second" by (simp add: second_def)
  ultimately show ?thesis by (intro wrap64_id) linarith+
qed

lemma parse_announcement:
  assumes "short_texts pkt" and "pkUptime pkt = uint secs * second"
  shows "ParsePacket (announcement pkt secs @ junk)
    = Inr (foldl (\<lambda>pkt t. apply_attr pkt (tlvType t) (tlvVal t)) pkt (tlvs junk))"
proof -
  let ?start = "\<lparr>pkHeaderVersion = pkHeaderVersion pkt, pkTTL = pkTTL pkt, pkChecksum = pkChecksum pkt,
             pkMAC = zero_mac, pkIdentity = [], pkVersion = [], pkPlatform = [], pkUptime = 0,
             pkSoftID = [], pkHardware = [], pkIface = []\<rparr>"
  let ?f = "\<lambda>pkt t. apply_attr pkt (tlvType t) (tlvVal t)"
  have len: "\<forall>t \<in> set (announce_attrs pkt secs). length (tlvVal t) < 65536"
    using assms(1) by (auto simp: announce_attrs_def short_texts_def mndpMaxStringLen_def)
  have "tlvs (concat (map tlv_wire (announce_attrs pkt secs)) @ junk) = announce_attrs pkt secs @ tlvs junk"
    by (rule mndp.parse_concat [OF len]) simp
  then have attrs: "parse_attrs ?start (concat (map tlv_wire (announce_attrs pkt secs)) @ junk)
      = foldl ?f (foldl ?f ?start (announce_attrs pkt secs)) (tlvs junk)"
    by (simp add: parse_attrs_tlvs)
  have m: "mac_at (mac_bytes (pkMAC pkt)) 0 = pkMAC pkt"
    using mac_at_append [of "[]" 0 "pkMAC pkt" "[]"] by simp
  have u: "le32_at (le32 secs) 0 = secs"
    using le32_at_append [of "[]" 0 secs "[]"] by simp
  have fields: "foldl ?f ?start (announce_attrs pkt secs) = pkt"
    using assms by (simp add: announce_attrs_def apply_attr_def attr_defs m u uptime_no_wrap short_texts_def)
  have "be16_at ([pkHeaderVersion pkt, pkTTL pkt] @ be16 (pkChecksum pkt) @ r) 2 = pkChecksum pkt" for r
    by (rule be16_at_append) simp
  moreover have "\<not> length (announcement pkt secs @ junk) < minPacketLen"
    by (simp add: announcement_def announce_attrs_def minPacketLen_def)
  moreover have "drop mndp_headerLen (announcement pkt secs @ junk)
      = concat (map tlv_wire (announce_attrs pkt secs)) @ junk"
    by (simp add: announcement_def mndp_headerLen_def be16_def)
  ultimately show ?thesis
    using attrs fields by (simp add: ParsePacket_def Let_def) (simp add: announcement_def)
qed

section \<open>Properties\<close>

text \<open>
  C39.  An announcement parses back into what was announced: header, address, all texts of up
  to 127 bytes and the uptime, with whatever truncated attribute may follow.
\<close>

theorem announcement_roundtrip:
  assumes "short_texts pkt" and "pkUptime pkt = uint secs * second" and "tlvs junk = []"
  shows "ParsePacket (announcement pkt secs @ junk) = Inr pkt"
  using parse_announcement [OF assms(1,2), of junk] assms(3) by simp

definition sample_packet :: Packet where
  "sample_packet = \<lparr>pkHeaderVersion = 1, pkTTL = 0, pkChecksum = 0xbeef, pkMAC = Mac 2 0 0 0 0 9,
     pkIdentity = ''core'', pkVersion = ''7.16'', pkPlatform = ''MikroTik'', pkUptime = 90 * second,
     pkSoftID = ''AB-CD'', pkHardware = ''CCR2004'', pkIface = ''ether1''\<rparr>"

theorem announcement_roundtrip_witness:
  "ParsePacket (announcement sample_packet 90 @ [0, 5, 0, 9, 120]) = Inr sample_packet"
proof -
  have "tlvs [0, 5, 0, 9, 120] = []" by (subst tlvs.simps) (simp add: be16_at_def)
  then show ?thesis
    by (intro announcement_roundtrip)
      (simp_all add: sample_packet_def short_texts_def mndpMaxStringLen_def)
qed

text \<open>
  Parsing is total and bounded: it fails exactly on datagrams below 18 bytes; otherwise
  it applies, in order, the complete attributes at the front of the body, so that the last
  one of a type wins, and every text is shorter than 128 bytes.
\<close>

theorem parse_best_effort:
  "(isl (ParsePacket buf) \<longleftrightarrow> length buf < minPacketLen)
   \<and> (case ParsePacket buf of
        Inl e \<Rightarrow> e = ErrShortPacket
      | Inr pkt \<Rightarrow> short_texts pkt
         \<and> pkt = foldl (\<lambda>pkt t. apply_attr pkt (tlvType t) (tlvVal t))
             \<lparr>pkHeaderVersion = buf ! 0, pkTTL = buf ! 1, pkChecksum = be16_at buf 2,
              pkMAC = zero_mac, pkIdentity = [], pkVersion = [], pkPlatform = [], pkUptime = 0,
              pkSoftID = [], pkHardware = [], pkIface = []\<rparr> (tlvs (drop 4 buf)))"
proof -
  have step: "short_texts (apply_attr pkt ty v)" if "short_texts pkt" for pkt ty v
    using that length_clipString by (auto simp: short_texts_def apply_attr_def Let_def)
  have fold: "short_texts (foldl (\<lambda>pkt t. apply_attr pkt (tlvType t) (tlvVal t)) pkt ts)"
    if "short_texts pkt" for pkt ts
    using that by (induction ts arbitrary: pkt) (simp_all add: step)
  have start: "short_texts \<lparr>pkHeaderVersion = v, pkTTL = t, pkChecksum = c, pkMAC = zero_mac,
      pkIdentity = [], pkVersion = [], pkPlatform = [], pkUptime = 0, pkSoftID = [], pkHardware = [],
      pkIface = []\<rparr>" for v t c
    by (simp add: short_texts_def mndpMaxStringLen_def)
  show ?thesis
    by (simp add: ParsePacket_def Let_def parse_attrs_tlvs mndp_headerLen_def fold [OF start])
qed

end
