(* ===== verification/Mac_Order.thy ===== *)
theory Mac_Order
  imports Mac_Text "HOL-Library.Char_ord" "HOL-Library.List_Lexorder"
begin

text \<open>
  The order of addresses by their bytes, and that the order of their texts, by which
  \<^verbatim>\<open>collectNeighbors\<close> sorts, is the same.
\<close>

section \<open>The order\<close>

instantiation mac :: linorder
begin

definition less_eq_mac :: "mac \<Rightarrow> mac \<Rightarrow> bool" where
  "less_eq_mac m m' \<longleftrightarrow> mac_bytes m \<le> mac_bytes m'"

definition less_mac :: "mac \<Rightarrow> mac \<Rightarrow> bool" where
  "less_mac m m' \<longleftrightarrow> mac_bytes m < mac_bytes m'"

instance
  by standard (auto simp: less_eq_mac_def less_mac_def less_le)

end

section \<open>Texts in the same order\<close>

lemma append_less:
  fixes xs ys us vs :: "'a :: linorder list"
  assumes "length xs = length us"
  shows "xs @ ys < us @ vs \<longleftrightarrow> xs < us \<or> xs = us \<and> ys < vs"
  using assms by (induction xs us rule: list_induct2) auto

lemma hex_digit_less: "m < 16 \<Longrightarrow> n < 16 \<Longrightarrow> hex_digit m < hex_digit n \<longleftrightarrow> m < n"
  by (auto simp: hex_digit_def less_char_def)

lemma hex_digit_eq: "m < 16 \<Longrightarrow> n < 16 \<Longrightarrow> hex_digit m = hex_digit n \<longleftrightarrow> m = n"
  by (metis hex_value_digit option.inject)

lemma less_by_digits: "(a :: nat) < b \<longleftrightarrow> a div 16 < b div 16 \<or> a div 16 = b div 16 \<and> a mod 16 < b mod 16"
proof -
  have "16 * (a div 16) + a mod 16 = a" "16 * (b div 16) + b mod 16 = b" "a mod 16 < 16" "b mod 16 < 16"
    by simp_all
  then show ?thesis by linarith
qed

lemma hex2_less: "hex2 b < hex2 b' \<longleftrightarrow> b < b'"
proof -
  have d: "unat b div 16 < 16" "unat b' div 16 < 16"
    using unat_byte_lt [of b] unat_byte_lt [of b'] by (simp_all add: less_mult_imp_div_less)
  have "b < b' \<longleftrightarrow> unat b div 16 < unat b' div 16 \<or> unat b div 16 = unat b' div 16 \<and> unat b mod 16 < unat b' mod 16"
    unfolding word_less_nat_alt by (rule less_by_digits)
  then show ?thesis using d by (simp add: hex2_def hex_digit_less hex_digit_eq)
qed

lemma hex2_eq: "hex2 b = hex2 b' \<longleftrightarrow> b = b'"
  by (metis hex2_less linorder_neq_iff less_irrefl)

lemma formatMAC_less: "formatMAC m < formatMAC m' \<longleftrightarrow> m < m'"
  by (cases m; cases m') (simp add: formatMAC_def less_mac_def append_less hex2_less hex2_eq)

lemma formatMAC_sorted: "sorted_wrt (<) (map formatMAC ms) \<longleftrightarrow> sorted_wrt (<) ms"
  by (simp add: sorted_wrt_map formatMAC_less)

end
