(* ===== verification/Mndp_Discover.thy ===== *)
theory Mndp_Discover
  imports Mndp_Parser Mac_Order "HOL-Library.Multiset"
begin

text \<open>
  \<^verbatim>\<open>src/internal/mndp/discover.go\<close> and \<open>resolveBroadcast\<close> of \<^verbatim>\<open>conn.go\<close>: the listening
  loop, the deduplication by MAC address, and the sorted result.  Times are nanoseconds;
  what the clock, the context and the socket say in a turn of the loop is an argument.
\<close>

section \<open>IP addresses as text (net.IP)\<close>

type_synonym ip = "byte list"

definition To4 :: "ip \<Rightarrow> ip option" where
  "To4 b =
    (if length b = 4 then Some b
     else if length b = 16 \<and> take 10 b = replicate 10 0 \<and> b ! 10 = 0xff \<and> b ! 11 = 0xff
       then Some (drop 12 b)
     else None)"

definition ip4_text :: "ip \<Rightarrow> string" where
  "ip4_text b = decimal (unat (b ! 0)) @ ''.'' @ decimal (unat (b ! 1)) @ ''.''
     @ decimal (unat (b ! 2)) @ ''.'' @ decimal (unat (b ! 3))"

fun hex_text :: "nat \<Rightarrow> string" where
  "hex_text n = (if n < 16 then [hex_digit n] else hex_text (n div 16) @ [hex_digit (n mod 16)])"

declare hex_text.simps [simp del]

text \<open>The first longest run of at least two zero groups: its start and its end.\<close>

definition zero_run :: "nat list \<Rightarrow> nat \<Rightarrow> nat" where
  "zero_run g i = length (takeWhile (\<lambda>x. x = 0) (drop i g))"

definition best_run :: "nat list \<Rightarrow> (nat \<times> nat) option" where
  "best_run g = foldl (\<lambda>best i.
     let l = zero_run g i;
         cur = (case best of None \<Rightarrow> 0 | Some (a, b) \<Rightarrow> b - a)
     in if l \<ge> 2 \<and> l > cur then Some (i, i + l) else best) None [0..<8]"

definition groups_text :: "nat list \<Rightarrow> string" where
  "groups_text g = (case g of [] \<Rightarrow> [] | x # xs \<Rightarrow> concat (hex_text x # map (\<lambda>y. '':'' @ hex_text y) xs))"

definition ip6_text :: "ip \<Rightarrow> string" where
  "ip6_text b =
    (let g = map (\<lambda>i. unat (be16_at b (2 * i))) [0..<8]
     in case best_run g of
          None \<Rightarrow> groups_text g
        | Some (a, e) \<Rightarrow> groups_text (take a g) @ ''::'' @ groups_text (drop e g))"

definition ip_text :: "ip \<Rightarrow> string" where
  "ip_text b =
    (if length b = 0 then ''<nil>''
     else if length b \<noteq> 4 \<and> length b \<noteq> 16 then ''?'' @ concat (map hex2 b)
     else case To4 b of Some b4 \<Rightarrow> ip4_text b4 | None \<Rightarrow> ip6_text b)"

section \<open>Neighbors\<close>

record Neighbor =
  nMAC :: string
  nIdentity :: string
  nPlatform :: string
  nVersion :: string
  nBoard :: string
  nSoftwareID :: string
  nIface :: string
  nIPv4 :: string
  nIPv6 :: string
  nUptime :: duration
  nSeenAt :: int

definition packetToNeighbor :: "Packet \<Rightarrow> ip option option \<Rightarrow> int \<Rightarrow> Neighbor" where
  "packetToNeighbor pkt src now =
    (let n = \<lparr>nMAC = formatMAC (pkMAC pkt), nIdentity = pkIdentity pkt, nPlatform = pkPlatform pkt,
           nVersion = pkVersion pkt, nBoard = pkHardware pkt, nSoftwareID = pkSoftID pkt,
           nIface = pkIface pkt, nIPv4 = [], nIPv6 = [], nUptime = pkUptime pkt, nSeenAt = now\<rparr>
     in case src of
          None \<Rightarrow> n
        | Some None \<Rightarrow> n
        | Some (Some ip) \<Rightarrow>
            (case To4 ip of
               Some ip4 \<Rightarrow> n\<lparr>nIPv4 := ip_text ip4\<rparr>
             | None \<Rightarrow> n\<lparr>nIPv6 := ip_text ip\<rparr>))"

text \<open>
  Go iterates over a map in an unspecified order: it is the argument \<open>order\<close>, a list of
  the keys.  \<^verbatim>\<open>sort.Slice\<close> compares the texts bytewise.
\<close>

definition collectNeighbors :: "mac list \<Rightarrow> (mac \<rightharpoonup> Neighbor) \<Rightarrow> Neighbor list" where
  "collectNeighbors order seen = sort_key nMAC (map (\<lambda>m. the (seen m)) order)"

definition map_order :: "(mac \<rightharpoonup> Neighbor) \<Rightarrow> mac list \<Rightarrow> bool" where
  "map_order seen order \<longleftrightarrow> distinct order \<and> set order = dom seen"

section \<open>The listening loop\<close>

datatype 'e mndp_read = MndpDeadline | MndpErr 'e | MndpOk "byte list" "ip option option"

record 'e mndp_turn =
  mtTop :: int
  mtCtxDone :: bool
  mtNow :: int
  mtRead :: "'e mndp_read"
  mtSeen :: int

definition maxPacketBuf :: nat where "maxPacketBuf = 1500"

definition mndp_read_deadline :: "int \<Rightarrow> int \<Rightarrow> int" where
  "mndp_read_deadline now deadline =
    (let readDeadline = now + 500 * millisecond
     in if readDeadline > deadline then deadline else readDeadline)"

text \<open>
  The loop of \<open>Discover\<close>.  The result is the map it ends with, the error if it ends with
  one, and the read deadlines it set; \<open>None\<close> while the window is still open.
\<close>

fun discover_loop ::
    "int \<Rightarrow> (mac \<rightharpoonup> Neighbor) \<Rightarrow> int list \<Rightarrow> 'e mndp_turn list \<Rightarrow> ((mac \<rightharpoonup> Neighbor) \<times> 'e option \<times> int list) option"
where
  "discover_loop deadline seen dl [] = None"
| "discover_loop deadline seen dl (t # ts) =
    (if \<not> mtTop t < deadline then Some (seen, None, dl)
     else if mtCtxDone t then Some (seen, None, dl)
     else
       let dl = dl @ [mndp_read_deadline (mtNow t) deadline]
       in case mtRead t of
            MndpDeadline \<Rightarrow> discover_loop deadline seen dl ts
          | MndpErr e \<Rightarrow> Some (seen, Some e, dl)
          | MndpOk datagram src \<Rightarrow>
              (case ParsePacket (take maxPacketBuf datagram) of
                 Inl perr \<Rightarrow> discover_loop deadline seen dl ts
               | Inr pkt \<Rightarrow>
                   if pkMAC pkt = zero_mac then discover_loop deadline seen dl ts
                   else discover_loop deadline
                     (seen(pkMAC pkt \<mapsto> packetToNeighbor pkt src (mtSeen t))) dl ts))"

section \<open>The SOLICIT destination\<close>

datatype iface_addr = IPNet ip "byte list" | OtherAddr

datatype 'e bcast_error = BcastIface 'e | BcastAddrs 'e | BcastNoIPv4

definition directed_broadcast :: "ip \<Rightarrow> byte list \<Rightarrow> ip" where
  "directed_broadcast ip4 msk = map (\<lambda>i. ip4 ! i OR NOT (msk ! i)) [0..<4]"

fun first_broadcast :: "iface_addr list \<Rightarrow> ip option" where
  "first_broadcast [] = None"
| "first_broadcast (OtherAddr # as) = first_broadcast as"
| "first_broadcast (IPNet ip msk # as) =
    (case To4 ip of
       None \<Rightarrow> first_broadcast as
     | Some ip4 \<Rightarrow> Some (directed_broadcast ip4 msk))"

definition mndpPort :: nat where "mndpPort = 5678"

text \<open>
  \<open>lookup\<close> is what \<^verbatim>\<open>net.InterfaceByName\<close> and \<^verbatim>\<open>Addrs\<close> answer: an error of the first, or
  what the second returns.
\<close>

definition resolveBroadcast ::
    "string \<Rightarrow> ('e + ('e + iface_addr list)) \<Rightarrow> 'e bcast_error + (ip \<times> nat)" where
  "resolveBroadcast iface lookup =
    (if iface = [] then Inr ([255, 255, 255, 255], mndpPort)
     else case lookup of
       Inl e \<Rightarrow> Inl (BcastIface e)
     | Inr (Inl e) \<Rightarrow> Inl (BcastAddrs e)
     | Inr (Inr addrs) \<Rightarrow>
         (case first_broadcast addrs of
            None \<Rightarrow> Inl BcastNoIPv4
          | Some b \<Rightarrow> Inr (b, mndpPort)))"

section \<open>Discovery\<close>

datatype 'e discover_error = DiscoverBind 'e | DiscoverRead 'e

text \<open>
  \<open>Discover\<close>: the listener, the best-effort SOLICIT (an unresolved destination is no error),
  the loop and its result.  The first component of the result lists the datagrams sent.
\<close>

definition Discover ::
    "'e + unit \<Rightarrow> 'e bcast_error + (ip \<times> nat) \<Rightarrow> int \<Rightarrow> duration \<Rightarrow> mac list \<Rightarrow> 'e mndp_turn list \<Rightarrow>
     (((ip \<times> nat) \<times> byte list) list \<times> 'e discover_error option \<times> Neighbor list) option"
where
  "Discover listener bcast start timeout order turns =
    (case listener of
       Inl e \<Rightarrow> Some ([], Some (DiscoverBind e), [])
     | Inr _ \<Rightarrow>
         let sent = (case bcast of Inl berr \<Rightarrow> [] | Inr dst \<Rightarrow> [(dst, [0, 0, 0, 0])]);
             deadline = start + timeout
         in case discover_loop deadline Map.empty [] turns of
              None \<Rightarrow> None
            | Some (seen, e, dl) \<Rightarrow> Some (sent, map_option DiscoverRead e, collectNeighbors order seen))"

section \<open>The result is sorted and does not depend on the map's order\<close>

text \<open>In the map of the loop every neighbor carries its key as text.\<close>

definition keyed :: "(mac \<rightharpoonup> Neighbor) \<Rightarrow> bool" where
  "keyed seen \<longleftrightarrow> (\<forall>m n. seen m = Some n \<longrightarrow> nMAC n = formatMAC m)"

lemma nMAC_packetToNeighbor [simp]: "nMAC (packetToNeighbor pkt src now) = formatMAC (pkMAC pkt)"
  by (simp add: packetToNeighbor_def Let_def split: option.splits)

lemma keyed_empty [simp]: "keyed Map.empty"
  by (simp add: keyed_def)

lemma keyed_update: "keyed seen \<Longrightarrow> nMAC n = formatMAC m \<Longrightarrow> keyed (seen(m \<mapsto> n))"
  by (simp add: keyed_def)

lemma keyed_texts:
  assumes "keyed seen" and "map_order seen order"
  shows "map nMAC (map (\<lambda>m. the (seen m)) order) = map formatMAC order"
    and "distinct (map formatMAC order)"
proof -
  show "map nMAC (map (\<lambda>m. the (seen m)) order) = map formatMAC order"
    using assms by (auto simp: keyed_def map_order_def dom_def)
  have "inj formatMAC" by (rule injI) (simp add: formatMAC_inject)
  then show "distinct (map formatMAC order)"
    using assms(2) by (simp add: map_order_def distinct_map inj_on_def)
qed

lemma collect_spec:
  assumes "keyed seen" and "map_order seen order"
  shows "sorted_wrt (<) (map nMAC (collectNeighbors order seen))"
    and "set (collectNeighbors order seen) = ran seen"
proof -
  let ?ns = "map (\<lambda>m. the (seen m)) order"
  have "distinct (map nMAC ?ns)" unfolding keyed_texts(1) [OF assms] by (rule keyed_texts(2) [OF assms])
  moreover have "mset (map nMAC (collectNeighbors order seen)) = mset (map nMAC ?ns)"
    by (simp add: collectNeighbors_def multiset.map_comp)
  ultimately have "distinct (map nMAC (collectNeighbors order seen))"
    by (metis mset_eq_imp_distinct_iff)
  moreover have "sorted (map nMAC (collectNeighbors order seen))"
    by (simp add: collectNeighbors_def)
  ultimately show "sorted_wrt (<) (map nMAC (collectNeighbors order seen))"
    by (simp add: strict_sorted_iff)
  show "set (collectNeighbors order seen) = ran seen"
    using assms(2) by (auto simp: collectNeighbors_def map_order_def ran_def dom_def image_iff) force
qed

lemma collect_addresses:
  assumes "keyed seen" and "map_order seen order"
  shows "\<exists>ms. map nMAC (collectNeighbors order seen) = map formatMAC ms \<and> sorted_wrt (<) ms \<and> set ms = dom seen"
proof -
  have "\<forall>n \<in> set (collectNeighbors order seen). \<exists>m. nMAC n = formatMAC m \<and> m \<in> dom seen"
    using collect_spec(2) [OF assms] assms(1) by (auto simp: keyed_def ran_def)
  then obtain g where g: "\<forall>n \<in> set (collectNeighbors order seen). nMAC n = formatMAC (g n) \<and> g n \<in> dom seen"
    by metis
  let ?ms = "map g (collectNeighbors order seen)"
  have texts: "map nMAC (collectNeighbors order seen) = map formatMAC ?ms" using g by simp
  moreover have "sorted_wrt (<) ?ms"
    using collect_spec(1) [OF assms] unfolding texts formatMAC_sorted .
  moreover have "m \<in> set ?ms" if "m \<in> dom seen" for m
  proof -
    obtain n where "seen m = Some n" using \<open>m \<in> dom seen\<close> by blast
    moreover from this have "n \<in> set (collectNeighbors order seen)"
      using collect_spec(2) [OF assms] by (simp add: ranI)
    ultimately show ?thesis using g assms(1) formatMAC_inject by (force simp: keyed_def)
  qed
  ultimately show ?thesis using g by (intro exI [of _ ?ms]) auto
qed

lemma collect_order_irrelevant:
  assumes "keyed seen" and "map_order seen order" and "map_order seen order'"
  shows "collectNeighbors order seen = collectNeighbors order' seen"
proof -
  let ?f = "\<lambda>m. the (seen m)"
  have "mset order = mset order'"
    using assms(2,3) set_eq_iff_mset_eq_distinct [of order order'] by (simp add: map_order_def)
  then have "mset (map ?f order) = mset (map ?f order')" by simp
  moreover have "inj_on nMAC (set (map ?f order))"
    using keyed_texts(2) [OF assms(1,2), folded keyed_texts(1) [OF assms(1,2)]]
    by (simp only: distinct_map)
  moreover have "sorted (map nMAC (sort_key nMAC (map ?f order')))" by simp
  ultimately show ?thesis
    unfolding collectNeighbors_def by (intro sort_key_inj_key_eq) simp_all
qed

section \<open>What the loop collects\<close>

text \<open>The turns that the loop takes before it ends, and the announcement in a turn.\<close>

definition active :: "int \<Rightarrow> 'e mndp_turn \<Rightarrow> bool" where
  "active deadline t \<longleftrightarrow> mtTop t < deadline \<and> \<not> mtCtxDone t \<and> (\<forall>e. mtRead t \<noteq> MndpErr e)"

definition heard :: "'e mndp_turn \<Rightarrow> (mac \<times> Neighbor) list" where
  "heard t = (case mtRead t of
      MndpOk datagram src \<Rightarrow>
        (case ParsePacket (take maxPacketBuf datagram) of
           Inr pkt \<Rightarrow> if pkMAC pkt = zero_mac then [] else [(pkMAC pkt, packetToNeighbor pkt src (mtSeen t))]
         | Inl e \<Rightarrow> [])
    | _ \<Rightarrow> [])"

definition heard_all :: "int \<Rightarrow> 'e mndp_turn list \<Rightarrow> (mac \<times> Neighbor) list" where
  "heard_all deadline ts = concat (map heard (takeWhile (active deadline) ts))"

lemma map_of_rev_snoc: "seen ++ map_of (rev (xs @ ys)) = (seen ++ map_of (rev xs)) ++ map_of (rev ys)"
  by simp

lemma discover_loop_spec:
  assumes "discover_loop deadline seen dl ts = Some (seen', e, dl')"
  shows "seen' = seen ++ map_of (rev (heard_all deadline ts))
    \<and> (\<exists>ds. dl' = dl @ ds \<and> (\<forall>d \<in> set ds. d \<le> deadline))"
  using assms
proof (induction deadline seen dl ts rule: discover_loop.induct)
  case (2 deadline seen dl t ts)
  have rd: "mndp_read_deadline (mtNow t) deadline \<le> deadline"
    by (simp add: mndp_read_deadline_def Let_def)
  show ?case
  proof (cases "active deadline t")
    case False
    then show ?thesis
      using 2 rd by (auto simp: active_def heard_all_def Let_def split: if_splits mndp_read.splits)
  next
    case True
    then have top: "mtTop t < deadline" "\<not> mtCtxDone t" by (simp_all add: active_def)
    have all: "heard_all deadline (t # ts) = heard t @ heard_all deadline ts"
      using True by (simp add: heard_all_def)
    let ?dl = "dl @ [mndp_read_deadline (mtNow t) deadline]"
    have step: "discover_loop deadline (seen ++ map_of (rev (heard t))) ?dl ts = Some (seen', e, dl')"
      using 2(5) True top
      by (auto simp: active_def heard_def Let_def split: mndp_read.splits sum.splits if_splits)
    have "seen' = (seen ++ map_of (rev (heard t))) ++ map_of (rev (heard_all deadline ts))
      \<and> (\<exists>ds. dl' = ?dl @ ds \<and> (\<forall>d \<in> set ds. d \<le> deadline))"
    proof (cases "mtRead t")
      case MndpDeadline
      then show ?thesis using 2(1) [OF _ _ refl] top step by (simp add: heard_def)
    next
      case (MndpErr x)
      then show ?thesis using True by (simp add: active_def)
    next
      case (MndpOk datagram src)
      show ?thesis
      proof (cases "ParsePacket (take maxPacketBuf datagram)")
        case (Inl perr)
        then show ?thesis using 2(2) [OF _ _ refl MndpOk] top step MndpOk by (simp add: heard_def)
      next
        case (Inr pkt)
        show ?thesis
        proof (cases "pkMAC pkt = zero_mac")
          case zero: True
          then show ?thesis using 2(3) [OF _ _ refl MndpOk Inr] top step MndpOk Inr by (simp add: heard_def)
        next
          case nz: False
          have upd: "seen ++ map_of (rev (heard t))
              = (\<lambda>a. if a = pkMAC pkt then Some (packetToNeighbor pkt src (mtSeen t)) else seen a)"
            by (rule ext) (simp add: heard_def MndpOk Inr nz)
          show ?thesis
            using 2(4) [OF _ _ refl MndpOk Inr nz] top step unfolding upd fun_upd_def by simp
        qed
      qed
    qed
    then show ?thesis using rd by (auto simp: all)
  qed
qed simp

lemma heard_keyed: "(m, n) \<in> set (heard t) \<Longrightarrow> nMAC n = formatMAC m \<and> m \<noteq> zero_mac"
  by (auto simp: heard_def split: mndp_read.splits sum.splits if_splits)

lemma heard_all_keyed: "(m, n) \<in> set (heard_all deadline ts) \<Longrightarrow> nMAC n = formatMAC m \<and> m \<noteq> zero_mac"
  using heard_keyed by (fastforce simp: heard_all_def)

lemma keyed_heard: "keyed (map_of (rev (heard_all deadline ts)))"
  using heard_all_keyed by (fastforce simp: keyed_def dest: map_of_SomeD)

section \<open>Properties\<close>

text \<open>
  C38.  Discovery, when its window ends: the neighbors are exactly those heard in the turns
  of the window, one per address, each as its last announcement described it; they are
  strictly ordered by the text of their address, which is the order of the addresses as
  numbers, whatever order the map was iterated in; and no announcement without an address is among them.
\<close>

theorem discover_result:
  assumes "Discover (Inr ()) bcast start timeout order turns = Some (sent, e, ns)"
    and "map_order (map_of (rev (heard_all (start + timeout) turns))) order"
  shows "set ns = ran (map_of (rev (heard_all (start + timeout) turns)))
    \<and> sorted_wrt (<) (map nMAC ns)
    \<and> (\<exists>ms. map nMAC ns = map formatMAC ms \<and> sorted_wrt (<) ms
          \<and> set ms = dom (map_of (rev (heard_all (start + timeout) turns))))
    \<and> (\<forall>order'. map_order (map_of (rev (heard_all (start + timeout) turns))) order' \<longrightarrow>
          Discover (Inr ()) bcast start timeout order' turns = Some (sent, e, ns))
    \<and> map snd sent = (if isl bcast then [] else [[0, 0, 0, 0]])
    \<and> formatMAC zero_mac \<notin> nMAC ` set ns"
proof -
  let ?m = "map_of (rev (heard_all (start + timeout) turns))"
  obtain seen dl e0 where l: "discover_loop (start + timeout) Map.empty [] turns = Some (seen, e0, dl)"
    and ns: "ns = collectNeighbors order seen" and e: "e = map_option DiscoverRead e0"
    and sent: "sent = (case bcast of Inl berr \<Rightarrow> [] | Inr dst \<Rightarrow> [(dst, [0, 0, 0, 0])])"
    using assms(1) by (auto simp: Discover_def Let_def split: option.splits)
  have m: "seen = ?m" using discover_loop_spec [OF l] by simp
  have "formatMAC zero_mac \<noteq> nMAC n" if n: "n \<in> ran ?m" for n :: Neighbor
  proof -
    obtain k where "?m k = Some n" using n by (auto simp: ran_def)
    then have "(k, n) \<in> set (heard_all (start + timeout) turns)" by (auto dest: map_of_SomeD)
    then show ?thesis using heard_all_keyed formatMAC_inject by metis
  qed
  moreover have "set ns = ran ?m" "sorted_wrt (<) (map nMAC ns)"
    using collect_spec [OF keyed_heard assms(2)] by (simp_all add: ns m)
  moreover have "\<exists>ms. map nMAC ns = map formatMAC ms \<and> sorted_wrt (<) ms \<and> set ms = dom ?m"
    using collect_addresses [OF keyed_heard assms(2)] by (simp only: ns m)
  moreover have "Discover (Inr ()) bcast start timeout order' turns = Some (sent, e, ns)" if "map_order ?m order'" for order'
    using collect_order_irrelevant [OF keyed_heard that assms(2)] by (simp add: Discover_def Let_def l m ns e sent)
  moreover have "map snd sent = (if isl bcast then [] else [[0, 0, 0, 0]])"
    by (simp add: sent split: sum.split)
  ultimately show ?thesis by (auto simp: image_iff)
qed

definition sample_turn :: "int \<Rightarrow> unit mndp_turn" where
  "sample_turn now = \<lparr>mtTop = now, mtCtxDone = False, mtNow = now,
     mtRead = MndpOk (announcement sample_packet 90) (Some (Some [192, 168, 88, 1])), mtSeen = now\<rparr>"

lemma sample_parse: "ParsePacket (take maxPacketBuf (announcement sample_packet 90)) = Inr sample_packet"
proof -
  have p: "ParsePacket (announcement sample_packet 90 @ []) = Inr sample_packet"
    by (subst parse_announcement)
      (simp_all add: sample_packet_def short_texts_def mndpMaxStringLen_def tlvs.simps)
  have "length (announcement sample_packet 90) \<le> maxPacketBuf"
    by (simp add: announcement_def announce_attrs_def sample_packet_def maxPacketBuf_def)
  then show ?thesis using p by simp
qed

lemma sample_mac: "pkMAC sample_packet = Mac 2 0 0 0 0 9"
  by (simp add: sample_packet_def)

lemma sample_heard: "heard (sample_turn now) =
    [(Mac 2 0 0 0 0 9, packetToNeighbor sample_packet (Some (Some [192, 168, 88, 1])) now)]"
  by (simp add: heard_def sample_turn_def sample_parse sample_mac zero_mac_def)

theorem discover_result_witness:
  "\<exists>ns. Discover (Inr ()) (Inl BcastNoIPv4) 0 second [Mac 2 0 0 0 0 9] [sample_turn 1, sample_turn 2, sample_turn second] = Some ([], None, ns)
    \<and> set ns = {packetToNeighbor sample_packet (Some (Some [192, 168, 88, 1])) 2}"
proof -
  let ?ts = "[sample_turn 1, sample_turn 2, sample_turn second]"
  let ?n = "packetToNeighbor sample_packet (Some (Some [192, 168, 88, 1]))"
  have act: "active second (sample_turn 1)" "active second (sample_turn 2)" "\<not> active second (sample_turn second)"
    by (simp_all add: active_def sample_turn_def second_def)
  have h: "heard_all (0 + second) ?ts = [(Mac 2 0 0 0 0 9, ?n 1), (Mac 2 0 0 0 0 9, ?n 2)]"
    by (simp add: heard_all_def act sample_heard)
  have m: "map_of (rev (heard_all (0 + second) ?ts)) = [Mac 2 0 0 0 0 9 \<mapsto> ?n 2]"
    unfolding h by (rule ext) simp
  have run: "\<exists>ns. Discover (Inr ()) (Inl BcastNoIPv4) 0 second [Mac 2 0 0 0 0 9] ?ts = Some ([], None, ns)"
    by (simp add: Discover_def Let_def sample_turn_def sample_parse sample_mac zero_mac_def second_def)
  then obtain ns where ns: "Discover (Inr ()) (Inl BcastNoIPv4) 0 second [Mac 2 0 0 0 0 9] ?ts = Some ([], None, ns)" by blast
  have "map_order (map_of (rev (heard_all (0 + second) ?ts))) [Mac 2 0 0 0 0 9]"
    unfolding m by (simp add: map_order_def)
  from discover_result [OF ns this] show ?thesis unfolding m using ns by auto
qed

text \<open>
  The SOLICIT goes to the limited broadcast address when no interface is named, and
  otherwise to the directed broadcast address of the interface's first IPv4 address: the
  bits of the network mask are those of the address, all other bits are ones.
\<close>

theorem solicit_destination:
  "resolveBroadcast [] lookup = Inr ([255, 255, 255, 255], mndpPort)
   \<and> (iface \<noteq> [] \<and> length ip4 = 4 \<and> length msk = 4 \<longrightarrow>
       (\<exists>b. resolveBroadcast iface (Inr (Inr (OtherAddr # IPNet ip4 msk # rest)) :: 'e + 'e + iface_addr list) = Inr (b, 5678)
         \<and> length b = 4
         \<and> (\<forall>i < 4. b ! i AND msk ! i = ip4 ! i AND msk ! i \<and> b ! i OR msk ! i = - 1)))"
proof -
  have bits: "(x OR NOT m) AND m = x AND m" "(x OR NOT m) OR m = - 1" for x m :: byte
    by (rule bit_word_eqI, auto simp: bit_simps)+
  show ?thesis
    by (auto simp: resolveBroadcast_def To4_def directed_broadcast_def mndpPort_def bits)
qed

theorem solicit_destination_witness:
  "\<exists>b. resolveBroadcast ''eth0'' (Inr (Inr [OtherAddr, IPNet [192, 168, 88, 1] [255, 255, 255, 0]]) :: unit + unit + iface_addr list)
    = Inr (b, 5678) \<and> length b = 4"
  using solicit_destination [of undefined "''eth0''" "[192, 168, 88, 1]" "[255, 255, 255, 0]" "[]", where 'e = unit]
  by auto

end
