(* ===== verification/Mndp_Window.thy ===== *)
theory Mndp_Window
  imports Mndp_Discover
begin

text \<open>
  The loop of \<open>Discover\<close> ends: how many reads a discovery window can take.
\<close>

section \<open>Turns that follow each other in time\<close>

definition timed_out_read :: "'e mndp_turn \<Rightarrow> bool" where
  "timed_out_read t = (case mtRead t of MndpDeadline \<Rightarrow> True | _ \<Rightarrow> False)"

text \<open>
  A read that times out returns no earlier than the deadline it was given; the clock does
  not run backwards.
\<close>

fun consecutive :: "int \<Rightarrow> int \<Rightarrow> 'e mndp_turn list \<Rightarrow> bool" where
  "consecutive deadline now [] = True"
| "consecutive deadline now (t # ts) =
    (now \<le> mtTop t \<and> mtTop t \<le> mtNow t
     \<and> consecutive deadline (if timed_out_read t then mndp_read_deadline (mtNow t) deadline else mtNow t) ts)"

text \<open>What makes the loop return in a turn.\<close>

definition ends_window :: "int \<Rightarrow> 'e mndp_turn \<Rightarrow> bool" where
  "ends_window deadline t \<longleftrightarrow> deadline \<le> mtTop t \<or> mtCtxDone t \<or> (case mtRead t of MndpErr e \<Rightarrow> True | _ \<Rightarrow> False)"

lemma discover_loop_open:
  "discover_loop deadline seen dl ts = None \<longleftrightarrow> list_all (\<lambda>t. \<not> ends_window deadline t) ts"
  by (induction ts arbitrary: seen dl)
    (auto simp: ends_window_def Let_def split: mndp_read.splits sum.splits)

lemma open_window_reads:
  assumes "list_all (\<lambda>t. \<not> ends_window deadline t) ts" and "consecutive deadline now ts"
    and "filter timed_out_read ts \<noteq> []"
  shows "now + 500 * millisecond * (int (length (filter timed_out_read ts)) - 1) < deadline"
  using assms
proof (induction ts arbitrary: now)
  case (Cons t ts)
  have top: "mtTop t < deadline" "now \<le> mtTop t" "mtTop t \<le> mtNow t"
    using Cons.prems(1,2) by (simp_all add: ends_window_def)
  show ?case
  proof (cases "filter timed_out_read ts = []")
    case True
    then show ?thesis using Cons.prems(3) top by (auto split: if_splits)
  next
    case False
    let ?from = "if timed_out_read t then mndp_read_deadline (mtNow t) deadline else mtNow t"
    have ih: "?from + 500 * millisecond * (int (length (filter timed_out_read ts)) - 1) < deadline"
      using Cons.IH [of ?from] Cons.prems(1,2) False by simp
    moreover have "1 \<le> int (length (filter timed_out_read ts))"
      using False by (cases "filter timed_out_read ts") simp_all
    ultimately show ?thesis using top
      by (auto simp: mndp_read_deadline_def millisecond_def Let_def algebra_simps split: if_splits)
  qed
qed simp

lemma Discover_open:
  "Discover (Inr ()) bcast start timeout order turns = None
    \<longleftrightarrow> list_all (\<lambda>t. \<not> ends_window (start + timeout) t) turns"
  unfolding discover_loop_open [of _ Map.empty "[]", symmetric]
  by (simp add: Discover_def Let_def split: option.splits)

section \<open>Properties\<close>

text \<open>
  C35.  A discovery ends: with a listener open, \<open>Discover\<close> has returned as soon as a turn of
  its loop starts at or after the end of the window, finds the context done, or gets a read
  error.  That cannot be put off: on a clock that does not run backwards it has returned after
  at most as many reads that time out as there are half seconds in the window, and one, rounded
  up; so on a silent network no later than that, and with a window of no length, or of
  negative length, in its first turn.
\<close>

theorem discover_returns:
  assumes "consecutive (start + timeout) start turns"
    and "(\<exists>t \<in> set turns. ends_window (start + timeout) t) \<or>
      turns \<noteq> [] \<and> timeout \<le> 500 * millisecond * int (length (filter timed_out_read turns) - 1)"
  shows "\<exists>sent e ns. Discover (Inr ()) bcast start timeout order turns = Some (sent, e, ns)"
proof (rule ccontr)
  assume "\<not> ?thesis"
  then have "Discover (Inr ()) bcast start timeout order turns = None"
    by (cases "Discover (Inr ()) bcast start timeout order turns") auto
  note opn = this [unfolded Discover_open]
  then have late: "turns \<noteq> []" "timeout \<le> 500 * millisecond * int (length (filter timed_out_read turns) - 1)"
    using assms(2) by (auto simp: list_all_iff)
  show False
  proof (cases "filter timed_out_read turns = []")
    case False
    then have "int (length (filter timed_out_read turns) - 1) = int (length (filter timed_out_read turns)) - 1"
      by (cases "filter timed_out_read turns") simp_all
    with open_window_reads [OF opn assms(1) False] late show ?thesis by simp
  next
    case True
    then have "timeout \<le> 0" using late(2) by simp
    then show ?thesis using opn assms(1) late(1) by (cases turns) (auto simp: ends_window_def)
  qed
qed

definition silent_turn :: "int \<Rightarrow> unit mndp_turn" where
  "silent_turn now = \<lparr>mtTop = now, mtCtxDone = False, mtNow = now, mtRead = MndpDeadline, mtSeen = now\<rparr>"

theorem discover_returns_witness:
  "\<exists>sent e ns. Discover (Inr ()) (Inl BcastNoIPv4) 0 second []
     [silent_turn 0, silent_turn (500 * millisecond), silent_turn second] = Some (sent, e, ns)"
proof (rule discover_returns)
  show "consecutive (0 + second) 0 [silent_turn 0, silent_turn (500 * millisecond), silent_turn second]"
    by (simp add: silent_turn_def timed_out_read_def mndp_read_deadline_def second_def millisecond_def)
qed (simp add: silent_turn_def timed_out_read_def second_def millisecond_def)

end
