(* ===== verification/Sockets.thy ===== *)
theory Sockets
  imports Session_Facts "HOL-Library.Multiset" "HOL-Library.Signed_Division"
begin

text \<open>
  The system calls around the sockets of \<^verbatim>\<open>src/internal/mactelnet/conn.go\<close> and
  \<^verbatim>\<open>src/internal/mndp/conn.go\<close>: opening, options, binding, receive timeouts, closing.  What
  the kernel answers is an argument; a function returns the list of the calls that took
  effect, in order, so that a descriptor left open or closed twice shows.
\<close>

section \<open>System calls\<close>

datatype bind_addr = BindPort nat | BindLink u16 int

record timeval =
  tvSec :: int
  tvUsec :: int

datatype sysevent =
    EvSocket nat nat nat int
  | EvSetsockopt int nat int
  | EvBind int bind_addr
  | EvTimeout int timeval
  | EvClose int

definition AF_INET :: nat where "AF_INET = 2"
definition AF_PACKET :: nat where "AF_PACKET = 17"
definition SOCK_DGRAM :: nat where "SOCK_DGRAM = 2"
definition SOCK_RAW :: nat where "SOCK_RAW = 3"
definition SO_REUSEADDR :: nat where "SO_REUSEADDR = 2"
definition SO_BROADCAST :: nat where "SO_BROADCAST = 6"
definition soReusePort :: nat where "soReusePort = 15"

text \<open>The descriptors that a list of calls leaves open, and lists that only close open ones.\<close>

fun live_step :: "sysevent \<Rightarrow> int multiset \<Rightarrow> int multiset" where
  "live_step (EvSocket family kind proto fd) m = add_mset fd m"
| "live_step (EvClose fd) m = m - {#fd#}"
| "live_step ev m = m"

definition live :: "sysevent list \<Rightarrow> int multiset" where
  "live evs = fold live_step evs {#}"

fun closes_open :: "int multiset \<Rightarrow> sysevent list \<Rightarrow> bool" where
  "closes_open m [] = True"
| "closes_open m (EvClose fd # evs) = (fd \<in># m \<and> closes_open (m - {#fd#}) evs)"
| "closes_open m (ev # evs) = closes_open (live_step ev m) evs"

section \<open>The UDP sockets\<close>

text \<open>
  \<^verbatim>\<open>net.ListenConfig.ListenPacket\<close> for \<^verbatim>\<open>udp4\<close>: the socket, the standard library's own option
  (broadcasting), the caller's hook, the bind; after a failure the socket is closed again.
  The hook is given the descriptor and returns its error and its calls.
\<close>

record listen_answers =
  laSocket :: "err + int"
  laDefault :: "err option"
  laControl :: "err option"
  laOpt1 :: "err option"
  laOpt2 :: "err option"
  laBind :: "err option"

datatype packet_conn = UDPConn int | OtherConn string int

fun packet_fd :: "packet_conn \<Rightarrow> int" where
  "packet_fd (UDPConn fd) = fd"
| "packet_fd (OtherConn t fd) = fd"

definition ListenPacket ::
    "(int \<Rightarrow> err option \<times> sysevent list) \<Rightarrow> nat \<Rightarrow> listen_answers \<Rightarrow> (err + packet_conn) \<times> sysevent list"
where
  "ListenPacket control port la =
    (case laSocket la of
       Inl e \<Rightarrow> (Inl e, [])
     | Inr fd \<Rightarrow>
         let evs = [EvSocket AF_INET SOCK_DGRAM 0 fd] in
         (case laDefault la of
            Some e \<Rightarrow> (Inl e, evs @ [EvClose fd])
          | None \<Rightarrow>
              let evs = evs @ [EvSetsockopt fd SO_BROADCAST 1] in
              (case control fd of
                 (Some e, calls) \<Rightarrow> (Inl e, evs @ calls @ [EvClose fd])
               | (None, calls) \<Rightarrow>
                   (case laBind la of
                      Some e \<Rightarrow> (Inl e, evs @ calls @ [EvClose fd])
                    | None \<Rightarrow> (Inr (UDPConn fd), evs @ calls @ [EvBind fd (BindPort port)])))))"

text \<open>The hook of \<open>openRecv\<close>: the second option is best effort.\<close>

definition recv_control :: "listen_answers \<Rightarrow> int \<Rightarrow> err option \<times> sysevent list" where
  "recv_control la fd =
    (case laControl la of
       Some e \<Rightarrow> (Some e, [])
     | None \<Rightarrow>
         (case laOpt1 la of
            Some e \<Rightarrow> (Some e, [])
          | None \<Rightarrow> (None, [EvSetsockopt fd SO_REUSEADDR 1]
              @ (case laOpt2 la of Some e \<Rightarrow> [] | None \<Rightarrow> [EvSetsockopt fd soReusePort 1]))))"

text \<open>The connection behind the interface \<^verbatim>\<open>rxConn\<close>: a raw receiver or a UDP socket.\<close>

datatype rxConn = RawConn rawReceiver | UdpConn int

definition openRecv :: "listen_answers \<Rightarrow> (err + rxConn) \<times> sysevent list" where
  "openRecv la =
    (case ListenPacket (recv_control la) (unat udpPort) la of
       (Inl e, evs) \<Rightarrow> (Inl (Wrapf (''mactelnet: bind UDP/'' @ decimal (unat udpPort) @ '': '') e []), evs)
     | (Inr (UDPConn fd), evs) \<Rightarrow> (Inr (UdpConn fd), evs)
     | (Inr (OtherConn t fd), evs) \<Rightarrow>
         (Inl (Errorf (''mactelnet: expected *net.UDPConn, got '' @ t)), evs @ [EvClose fd]))"

section \<open>The raw sockets\<close>

text \<open>What \<^verbatim>\<open>net.InterfaceByName\<close> returns, as far as it is used.\<close>

record net_iface =
  niName :: string
  niIndex :: int
  niHardwareAddr :: "byte list"

definition ethPALL :: u16 where "ethPALL = 3"

definition openRawSender :: "net_iface \<Rightarrow> u16 \<Rightarrow> err + int \<Rightarrow> (err + rawSender) \<times> sysevent list" where
  "openRawSender iface vlanID socket =
    (case socket of
       Inl e \<Rightarrow> (Inl (Wrapf ''mactelnet: AF_PACKET SOCK_RAW: '' e []), [])
     | Inr fd \<Rightarrow>
         (Inr \<lparr>rsFd = fd, rsIfindex = niIndex iface, rsSrcMAC = mac_at (niHardwareAddr iface) 0,
            rsIpID = 0, rsVlanID = vlanID, rsSendErrCount = 0\<rparr>,
          [EvSocket AF_PACKET SOCK_RAW (unat (htons ethPIP)) fd]))"

definition openRawReceiver ::
    "net_iface \<Rightarrow> u16 \<Rightarrow> err + int \<Rightarrow> err option \<Rightarrow> (err + rawReceiver) \<times> sysevent list"
where
  "openRawReceiver iface vlanID socket bind =
    (case socket of
       Inl e \<Rightarrow> (Inl (Wrapf ''mactelnet: AF_PACKET SOCK_RAW (recv): '' e []), [])
     | Inr fd \<Rightarrow>
         let evs = [EvSocket AF_PACKET SOCK_RAW (unat (htons ethPALL)) fd] in
         (case bind of
            Some e \<Rightarrow> (Inl (Wrapf (''mactelnet: bind AF_PACKET to '' @ niName iface @ '': '') e []), evs @ [EvClose fd])
          | None \<Rightarrow>
              (Inr \<lparr>rrFd = fd, rrVlanID = vlanID, rrSrcMAC = mac_at (niHardwareAddr iface) 0, rrClosed = False\<rparr>,
               evs @ [EvBind fd (BindLink (htons ethPALL) (niIndex iface))])))"

fun rxConn_fd :: "rxConn \<Rightarrow> int" where
  "rxConn_fd (RawConn r) = rrFd r"
| "rxConn_fd (UdpConn fd) = fd"

text \<open>
  \<open>openSockets\<close>: the receive socket, raw when there is a VLAN ID, then the sender; the
  receiver is closed again when there is no sender.
\<close>

record socket_answers =
  saListen :: listen_answers
  saRawSocket :: "err + int"
  saRawBind :: "err option"
  saSendSocket :: "err + int"

definition openSockets ::
    "net_iface \<Rightarrow> u16 \<Rightarrow> socket_answers \<Rightarrow> (err + rxConn \<times> rawSender) \<times> sysevent list"
where
  "openSockets iface vlanID sa =
    (case (if vlanID \<noteq> 0
           then (case openRawReceiver iface vlanID (saRawSocket sa) (saRawBind sa) of
                   (r, evs) \<Rightarrow> (map_sum id RawConn r, evs))
           else openRecv (saListen sa)) of
       (Inl e, evs) \<Rightarrow> (Inl e, evs)
     | (Inr recv, evs) \<Rightarrow>
         (case openRawSender iface vlanID (saSendSocket sa) of
            (Inl e, evs') \<Rightarrow> (Inl e, evs @ evs' @ [EvClose (rxConn_fd recv)])
          | (Inr sender, evs') \<Rightarrow> (Inr (recv, sender), evs @ evs')))"

text \<open>\<open>Close\<close> of the sender; that of the receiver is in the theory \<open>Frame\<close>.\<close>

definition rawSender_Close :: "rawSender \<Rightarrow> err option \<Rightarrow> err option \<times> sysevent list" where
  "rawSender_Close r answer = (answer, [EvClose (rsFd r)])"

section \<open>Receive timeouts\<close>

text \<open>\<^verbatim>\<open>syscall.NsecToTimeval\<close> rounds up to a microsecond, in 64-bit arithmetic.\<close>

definition NsecToTimeval :: "int \<Rightarrow> timeval" where
  "NsecToTimeval nsec0 =
    (let nsec = wrap64 (nsec0 + 999);
         usec = (nsec smod 1000000000) sdiv 1000;
         sec = nsec sdiv 1000000000
     in if usec < 0 then \<lparr>tvSec = sec - 1, tvUsec = usec + 1000000\<rparr> else \<lparr>tvSec = sec, tvUsec = usec\<rparr>)"

text \<open>\<^verbatim>\<open>time.Until\<close> saturates at the ends of the 64-bit durations.\<close>

definition time_Until :: "int \<Rightarrow> int \<Rightarrow> int" where
  "time_Until now t = max (- (2 ^ 63)) (min (2 ^ 63 - 1) (t - now))"

text \<open>\<open>SetReadDeadline\<close> of the raw receiver; the zero time is \<open>None\<close>.\<close>

definition deadline_timeval :: "int \<Rightarrow> int option \<Rightarrow> timeval" where
  "deadline_timeval now t =
    (case t of
       None \<Rightarrow> \<lparr>tvSec = 0, tvUsec = 0\<rparr>
     | Some t \<Rightarrow>
         let d = time_Until now t;
             d = (if d < 0 then 1000 else d)
         in NsecToTimeval d)"

definition rawReceiver_SetReadDeadline ::
    "rawReceiver \<Rightarrow> int \<Rightarrow> int option \<Rightarrow> err option \<Rightarrow> err option \<times> sysevent list"
where
  "rawReceiver_SetReadDeadline r now t answer =
    (answer, case answer of Some e \<Rightarrow> [] | None \<Rightarrow> [EvTimeout (rrFd r) (deadline_timeval now t)])"

section \<open>No descriptor is lost\<close>

lemma live_append: "fold live_step (xs @ ys) m = fold live_step ys (fold live_step xs m)"
  by simp

lemma closes_open_append:
  "closes_open m (xs @ ys) \<longleftrightarrow> closes_open m xs \<and> closes_open (fold live_step xs m) ys"
  by (induction m xs rule: closes_open.induct) auto

text \<open>
  A function that opens is \<open>tidy\<close>: whatever was open before it still is, a failure leaves
  nothing more, and success leaves exactly the descriptors of what it returns.
\<close>

definition tidy :: "('r \<Rightarrow> int multiset) \<Rightarrow> (err + 'r) \<times> sysevent list \<Rightarrow> bool" where
  "tidy fds = (\<lambda>(r, evs). \<forall>m. closes_open m evs
     \<and> fold live_step evs m = m + (case r of Inl e \<Rightarrow> {#} | Inr x \<Rightarrow> fds x))"

lemma setsockopts_quiet:
  "\<forall>ev \<in> set calls. \<exists>opt v. ev = EvSetsockopt fd opt v \<Longrightarrow> closes_open m calls \<and> fold live_step calls m = m"
  by (induction calls arbitrary: m) fastforce+

lemma tidy_ListenPacket:
  assumes "\<And>fd. \<forall>ev \<in> set (snd (control fd)). \<exists>opt v. ev = EvSetsockopt fd opt v"
  shows "tidy (\<lambda>pc. {#packet_fd pc#}) (ListenPacket control port la)"
proof (cases "laSocket la")
  case (Inr fd)
  obtain r calls where c: "control fd = (r, calls)" by (cases "control fd")
  have "closes_open m calls \<and> fold live_step calls m = m" for m
    using setsockopts_quiet assms [of fd] by (simp add: c)
  then show ?thesis
    by (cases "laDefault la"; cases r; cases "laBind la")
      (simp_all add: tidy_def ListenPacket_def Inr c closes_open_append)
qed (simp add: tidy_def ListenPacket_def)

lemma tidy_openRecv: "tidy (\<lambda>c. {#rxConn_fd c#}) (openRecv la)"
proof -
  have "tidy (\<lambda>pc. {#packet_fd pc#}) (ListenPacket (recv_control la) (unat udpPort) la)"
    by (rule tidy_ListenPacket) (auto simp: recv_control_def split: option.splits)
  then show ?thesis
    by (auto simp: tidy_def openRecv_def closes_open_append split: sum.splits packet_conn.splits prod.splits)
qed

lemma tidy_openRawReceiver: "tidy (\<lambda>r. {#rrFd r#}) (openRawReceiver iface vlanID socket bind)"
  by (auto simp: tidy_def openRawReceiver_def Let_def split: sum.splits option.splits)

lemma tidy_openRawSender: "tidy (\<lambda>r. {#rsFd r#}) (openRawSender iface vlanID socket)"
  by (auto simp: tidy_def openRawSender_def split: sum.splits)

lemma tidy_openSockets: "tidy (\<lambda>(c, s). {#rxConn_fd c, rsFd s#}) (openSockets iface vlanID sa)"
proof -
  define opened where "opened = (if vlanID \<noteq> 0
      then (case openRawReceiver iface vlanID (saRawSocket sa) (saRawBind sa) of (r, evs) \<Rightarrow> (map_sum id RawConn r, evs))
      else openRecv (saListen sa))"
  have recv: "tidy (\<lambda>c. {#rxConn_fd c#}) opened"
  proof (cases "vlanID = 0")
    case False
    show ?thesis using tidy_openRawReceiver [of iface vlanID "saRawSocket sa" "saRawBind sa"] False
      by (auto simp: tidy_def opened_def split: sum.splits prod.splits)
  qed (simp add: opened_def tidy_openRecv)
  have run: "openSockets iface vlanID sa = (case opened of
       (Inl e, evs) \<Rightarrow> (Inl e, evs)
     | (Inr recv, evs) \<Rightarrow>
         (case openRawSender iface vlanID (saSendSocket sa) of
            (Inl e, evs') \<Rightarrow> (Inl e, evs @ evs' @ [EvClose (rxConn_fd recv)])
          | (Inr sender, evs') \<Rightarrow> (Inr (recv, sender), evs @ evs')))"
    by (simp add: openSockets_def opened_def)
  show ?thesis unfolding run
    using recv tidy_openRawSender [of iface vlanID "saSendSocket sa"]
    by (auto simp: tidy_def closes_open_append split: sum.splits prod.splits)
qed

section \<open>The length of a timeout\<close>

lemma NsecToTimeval_pos:
  assumes "0 \<le> d" and "d < 2 ^ 63 - 999"
  shows "0 \<le> tvSec (NsecToTimeval d) \<and> 0 \<le> tvUsec (NsecToTimeval d) \<and> tvUsec (NsecToTimeval d) < 1000000
    \<and> tvSec (NsecToTimeval d) * 1000000 + tvUsec (NsecToTimeval d) = (d + 999) div 1000"
proof -
  define n where "n = d + 999"
  have n: "0 \<le> n" "wrap64 n = n" using assms by (simp_all add: n_def wrap64_id)
  have q: "n smod 1000000000 = n mod 1000000000" "n sdiv 1000000000 = n div 1000000000"
    "(n mod 1000000000) sdiv 1000 = n mod 1000000000 div 1000"
    using n(1) by (simp_all add: signed_modulo_int_def signed_divide_int_def sgn_if)
  have "n mod 1000000000 div 1000 < 1000000" by (simp add: div_less_iff_less_mult)
  moreover have "n div 1000000000 * 1000000 + n mod 1000000000 div 1000 = n div 1000"
  proof -
    define a b where "a = n div 1000000000" and "b = n mod 1000000000"
    have "n = b + (a * 1000000) * 1000" by (simp add: a_def b_def)
    then have "n div 1000 = a * 1000000 + b div 1000" by simp
    then show ?thesis by (simp add: a_def b_def)
  qed
  moreover have "0 \<le> n div 1000000000" "0 \<le> n mod 1000000000 div 1000"
    using n(1) by (simp_all add: pos_imp_zdiv_nonneg_iff)
  ultimately show ?thesis by (simp add: NsecToTimeval_def Let_def n(2) q n_def [symmetric])
qed

lemma timeval_zero:
  "0 \<le> tvSec tv \<Longrightarrow> 0 \<le> tvUsec tv \<Longrightarrow> tv = \<lparr>tvSec = 0, tvUsec = 0\<rparr> \<longleftrightarrow> tvSec tv * 1000000 + tvUsec tv = 0"
  by (cases tv) (auto simp: add_nonneg_eq_0_iff)

text \<open>
  C37.  The receive timeout of a raw socket is the time left, rounded up to a microsecond,
  and one microsecond when the deadline has passed.  The one exception is a deadline that is
  hit to the nanosecond: its timeout is zero, which the kernel takes for no timeout at all,
  as for the zero time.
\<close>

theorem read_timeout_rounds_up:
  "let tv = deadline_timeval now (Some t) in
   now - 2 ^ 63 \<le> t \<and> t < now + 2 ^ 63 - 999 \<longrightarrow>
     0 \<le> tvSec tv \<and> 0 \<le> tvUsec tv \<and> tvUsec tv < 1000000
     \<and> tvSec tv * 1000000 + tvUsec tv = (if t < now then 1 else (t - now + 999) div 1000)
     \<and> (tv = deadline_timeval now None \<longleftrightarrow> t = now)"
proof -
  have "0 \<le> tvSec tv \<and> 0 \<le> tvUsec tv \<and> tvUsec tv < 1000000
     \<and> tvSec tv * 1000000 + tvUsec tv = (if t < now then 1 else (t - now + 999) div 1000)
     \<and> (tv = deadline_timeval now None \<longleftrightarrow> t = now)"
    if tv: "tv = deadline_timeval now (Some t)" and range: "now - 2 ^ 63 \<le> t" "t < now + 2 ^ 63 - 999" for tv
  proof -
    define d where "d = (if t < now then 1000 else t - now)"
    have "time_Until now t = t - now" using range by (simp add: time_Until_def)
    then have e: "tv = NsecToTimeval d" by (simp add: tv deadline_timeval_def d_def Let_def)
    have d: "0 \<le> d" "d < 2 ^ 63 - 999" using range by (auto simp: d_def)
    note p = NsecToTimeval_pos [OF d, folded e]
    have "tv = \<lparr>tvSec = 0, tvUsec = 0\<rparr> \<longleftrightarrow> tvSec tv * 1000000 + tvUsec tv = 0"
      by (rule timeval_zero) (use p in auto)
    then have "tv = \<lparr>tvSec = 0, tvUsec = 0\<rparr> \<longleftrightarrow> (d + 999) div 1000 = 0" using p by simp
    also have "\<dots> \<longleftrightarrow> t = now" using d(1) by (auto simp: d_def)
    finally show ?thesis using p by (auto simp: d_def deadline_timeval_def)
  qed
  then show ?thesis by (simp add: Let_def)
qed

theorem read_timeout_rounds_up_witness:
  "deadline_timeval 0 (Some 500000000) = \<lparr>tvSec = 0, tvUsec = 500000\<rparr>
   \<and> deadline_timeval 7 (Some 7) = deadline_timeval 7 None"
proof -
  define tv where "tv = deadline_timeval 0 (Some 500000000)"
  have tv: "0 \<le> tvSec tv \<and> 0 \<le> tvUsec tv \<and> tvUsec tv < 1000000 \<and> tvSec tv * 1000000 + tvUsec tv = 500000"
    using read_timeout_rounds_up [of 0 500000000] by (simp add: tv_def Let_def)
  then have "tvSec tv = 0" by auto
  then have "tv = \<lparr>tvSec = 0, tvUsec = 500000\<rparr>" using tv by (cases tv) simp
  then show ?thesis using read_timeout_rounds_up [of 7 7] by (simp add: tv_def Let_def)
qed

end
