(* ===== verification/Handshake.thy ===== *)
theory Handshake
  imports Sockets Mtwei Mac_Text
begin

text \<open>
  \<^verbatim>\<open>src/internal/mactelnet/session.go\<close>, opening a session: \<open>Open\<close> up to the start of the
  goroutines, and the handshake as a program whose counter is the datatype \<open>task\<close>.  Each
  step is what the goroutine does between two points at which it blocks; the theory
  \<open>System\<close> interleaves them with the receive loop, the keepalive loop and \<open>Close\<close>.
\<close>

section \<open>Opening\<close>

text \<open>\<^verbatim>\<open>%q\<close> of a string without characters that would be escaped.\<close>

definition quoted :: "string \<Rightarrow> string" where
  "quoted s = [CHR 0x22] @ s @ [CHR 0x22]"

definition resolveInterface :: "string \<Rightarrow> err + net_iface \<Rightarrow> err + net_iface" where
  "resolveInterface name lookup =
    (if name = [] then Inl (Errorf ''mactelnet: interface name required'')
     else case lookup of
       Inl err \<Rightarrow> Inl (Wrapf (''mactelnet: interface '' @ quoted name @ '': '') err [])
     | Inr iface \<Rightarrow>
         if length (niHardwareAddr iface) \<noteq> 6 then
           Inl (Errorf (''mactelnet: interface '' @ quoted name @ '' has no usable hardware address''))
         else Inr iface)"

text \<open>
  \<open>Open\<close> before the goroutines start, with the system calls it makes.  The two random bytes
  are the session key.
\<close>

definition Open_session ::
    "string \<Rightarrow> string \<Rightarrow> u16 \<Rightarrow> err + net_iface \<Rightarrow> socket_answers \<Rightarrow> err + byte list \<Rightarrow>
     (err + rxConn \<times> session) \<times> sysevent list"
where
  "Open_session iface mac_text vlanID lookup sa rand =
    (case parseMAC mac_text of
       Inl MacSyntax \<Rightarrow> (Inl (Wrapf (''mactelnet: parse MAC '' @ quoted mac_text @ '': '')
         (Errorf (''address '' @ mac_text @ '': invalid MAC address'')) []), [])
     | Inl (MacLength n) \<Rightarrow> (Inl (Errorf (''mactelnet: MAC '' @ quoted mac_text @ '' is '' @ decimal n @
         '' bytes, want 6'')), [])
     | Inr dst \<Rightarrow>
       (case resolveInterface iface lookup of
          Inl e \<Rightarrow> (Inl e, [])
        | Inr netIface \<Rightarrow>
          (case openSockets netIface vlanID sa of
             (Inl e, evs) \<Rightarrow> (Inl e, evs)
           | (Inr (conn, sender), evs) \<Rightarrow>
             (case rand of
                Inl e \<Rightarrow> (Inl (Wrapf ''mactelnet: rand: '' e []),
                  evs @ [EvClose (rxConn_fd conn), EvClose (rsFd sender)])
              | Inr skBytes \<Rightarrow>
                  (Inr (conn, new_session sender (mac_at (niHardwareAddr netIface) 0) dst
                    (be16_at skBytes 0)), evs)))))"

section \<open>The response to the challenge\<close>

definition defaultTermType :: string where "defaultTermType = ''xterm-256color''"

definition salt_response :: "string \<Rightarrow> string \<Rightarrow> int \<Rightarrow> byte list \<Rightarrow> byte list \<Rightarrow> (err + byte list) go" where
  "salt_response username password priv clientPub body =
    (if length body = md5SaltLen then Ret (Inr (computeMD5Response password body))
     else if length body = ecsrpSaltLen then
       (let serverKey = put_at (replicate ecsrpPubkeyLen 0) 0 (take ecsrpPubkeyLen body);
            salt = drop ecsrpPubkeyLen body;
            validator = mtweiID username password salt
        in go_bind (mtwei_docrypto newMtweiState priv serverKey clientPub validator) (\<lambda>r.
             case r of
               Inl e \<Rightarrow> Ret (Inl (Wrapf ''EC-SRP docrypto: ''
                 (Errorf ''mtwei: server pubkey x-coordinate not on curve'') []))
             | Inr resp \<Rightarrow> Ret (Inr resp)))
     else Ret (Inl (Wrapf [] ErrAuthFailed ('': PASSSALT length '' @ decimal (length body)))))"

section \<open>The program of the client goroutine\<close>

text \<open>
  A DATA transmission in progress: about to drain the stale ACKs, about to reserve and send,
  or waiting with the rest of the schedule.  \<open>cont\<close> says what comes after it.  The
  handshake is over in \<open>TReady\<close>, with the result of the last terminal operation; it failed
  in \<open>TFail\<close>, and \<open>TClosing\<close> is \<open>Close\<close> waiting for the receive loop.
\<close>

datatype cont = CInit int "byte list" | CFinish | CUser

datatype task =
    TStart
  | TKeygen
  | TDrain "byte list" cont
  | TSend "byte list" cont
  | TWait "byte list" u32 "duration list" cont
  | TAwaitSalt int "byte list"
  | TAwaitEnd
  | TReady "err option"
  | TFail err
  | TClosing err
  | TReturned err
  | TPanic

text \<open>Where the goroutine goes when \<open>sendDataAndWaitAck\<close> returns.\<close>

definition after_send :: "cont \<Rightarrow> err option \<Rightarrow> task" where
  "after_send k r =
    (case k of
       CInit priv pub \<Rightarrow>
         (case r of None \<Rightarrow> TAwaitSalt priv pub | Some e \<Rightarrow> TFail (Wrapf ''auth init: '' e []))
     | CFinish \<Rightarrow> (case r of None \<Rightarrow> TAwaitEnd | Some e \<Rightarrow> TFail (Wrapf ''auth finish: '' e []))
     | CUser \<Rightarrow> TReady r)"

definition task_sessionstart :: "session \<Rightarrow> errno option \<Rightarrow> task \<times> session" where
  "task_sessionstart s answer =
    (case sendSessionStart s answer of
       (Some e, s) \<Rightarrow> (TFail (Wrapf ''send SESSIONSTART: '' e []), s)
     | (None, s) \<Rightarrow> (TKeygen, s))"

definition payloadBuf :: "byte list" where
  "payloadBuf = replicate (maxPacket - headerLen) 0"

definition task_keygen :: "string \<Rightarrow> err + byte list \<Rightarrow> task" where
  "task_keygen username rand =
    (case mtwei_keygen newMtweiState rand None of
       Panic \<Rightarrow> TPanic
     | Ret (Inl e) \<Rightarrow> TFail (Wrapf ''EC-SRP keygen: '' (Wrapf ''mtwei: keygen rand: '' e []) [])
     | Ret (Inr (priv, clientPub)) \<Rightarrow>
         (case buildAuthInit payloadBuf username clientPub of
            Inl e \<Rightarrow> TFail (Wrapf ''build auth init: '' (ErrWire e) [])
          | Inr (n, buf) \<Rightarrow> TDrain (take n buf) (CInit priv clientPub)))"

definition task_salt ::
    "string \<Rightarrow> string \<Rightarrow> u16 \<Rightarrow> u16 \<Rightarrow> int \<Rightarrow> byte list \<Rightarrow> byte list \<Rightarrow> task" where
  "task_salt username password cols rows priv clientPub body =
    (case salt_response username password priv clientPub body of
       Panic \<Rightarrow> TPanic
     | Ret (Inl e) \<Rightarrow> TFail e
     | Ret (Inr response) \<Rightarrow>
         (case buildAuthFinish payloadBuf response (bytes_of_string username)
             (bytes_of_string defaultTermType) cols rows of
            Inl e \<Rightarrow> TFail (Wrapf ''build auth finish: '' (ErrWire e) [])
          | Inr (n, buf) \<Rightarrow> TDrain (take n buf) CFinish))"

text \<open>A record that \<open>awaitControl\<close> takes from the channel: wanted, or dropped.\<close>

definition await_take :: "cpType \<Rightarrow> session \<Rightarrow> (controlPacket option \<times> session) option" where
  "await_take want s =
    (case sControlCh s of
       [] \<Rightarrow> None
     | cp # rest \<Rightarrow> Some (if cpCpt cp = want then Some cp else None, s\<lparr>sControlCh := rest\<rparr>))"

text \<open>The end of the drain, the transmission, and the events of a wait.\<close>

definition task_send :: "schedules \<Rightarrow> session \<Rightarrow> byte list \<Rightarrow> cont \<Rightarrow> errno option \<Rightarrow> task \<times> session" where
  "task_send cfg s payload k answer =
    (let (wantAck, pkt, s) = data_packet s payload
     in case session_Send s pkt answer of
          (Some e, s) \<Rightarrow> (after_send k (Some e), s)
        | (None, s) \<Rightarrow>
            (case schedule_for cfg s of
               [] \<Rightarrow> (after_send k (Some ErrRetransmitExhausted), s)
             | sched \<Rightarrow> (TWait pkt wantAck sched k, s)))"

definition task_ack :: "session \<Rightarrow> byte list \<Rightarrow> u32 \<Rightarrow> duration list \<Rightarrow> cont \<Rightarrow> (task \<times> session) option" where
  "task_ack s pkt want sched k =
    (case sAckCh s of
       [] \<Rightarrow> None
     | got # rest \<Rightarrow>
         Some (if got = want then after_send k None else TWait pkt want sched k, s\<lparr>sAckCh := rest\<rparr>))"

definition task_timeout ::
    "session \<Rightarrow> byte list \<Rightarrow> u32 \<Rightarrow> duration list \<Rightarrow> cont \<Rightarrow> errno option \<Rightarrow> task \<times> session" where
  "task_timeout s pkt want sched k answer =
    (case session_Send s pkt answer of
       (Some e, s) \<Rightarrow> (after_send k (Some e), s)
     | (None, s) \<Rightarrow>
         (case tl sched of
            [] \<Rightarrow> (after_send k (Some ErrRetransmitExhausted), s)
          | sched' \<Rightarrow> (TWait pkt want sched' k, s)))"

end
