(* ===== verification/System.thy ===== *)
theory System
  imports Handshake
begin

text \<open>
  The goroutines of one session together: the client goroutine (the handshake, then the
  terminal operations), the receive loop, the keepalive loop and \<open>Close\<close>.  A label says
  which of them moves and what the environment contributes; \<open>sys_next\<close> computes the step, so
  that a run can be evaluated, and \<open>sys_step\<close> is its relation.
\<close>

section \<open>States and labels\<close>

text \<open>
  The receive loop is between two reads, or on its way through the control records of an
  accepted packet, or has returned.
\<close>

datatype rx_pc = RxLoop | RxRecords "controlRecord list" | RxExited

text \<open>
  Besides the session and the program counters, the state has history: the DATA
  transmissions begun (counter and payload), the ACK counters taken off the wire since the
  last drain, and what the handshake has passed.
\<close>

datatype passed = InitAcked | SaltTaken nat | FinishAcked | EndAuthTaken

record sys =
  ySess :: session
  yTask :: task
  yRx :: rx_pc
  yKeepalive :: bool
  yOps :: "(u32 \<times> byte list) list"
  yHeard :: "u32 list"
  yPassed :: "passed list"

record params =
  pCfg :: schedules
  pUsername :: string
  pPassword :: string
  pCols :: u16
  pRows :: u16

datatype label =
    LStart "errno option"
  | LKeygen "err + byte list"
  | LDrain
  | LSend "errno option"
  | LAck
  | LTimeout "errno option"
  | LCtxDone
  | LControl
  | LDeadline
  | LWrite "byte list"
  | LResize u16 u16
  | LClose "errno option"
  | LReturn
  | LCancel
  | LExpire
  | LRx rx_turn
  | LDeliver bool
  | LTick "errno option"

text \<open>What the handshake has passed when a transmission or a wait ends in a task.\<close>

definition passes :: "task \<Rightarrow> passed list" where
  "passes t = (case t of TAwaitSalt p k \<Rightarrow> [InitAcked] | TAwaitEnd \<Rightarrow> [FinishAcked] | _ \<Rightarrow> [])"

definition move_task :: "sys \<Rightarrow> task \<times> session \<Rightarrow> sys" where
  "move_task y = (\<lambda>(t, s). y\<lparr>yTask := t, ySess := s, yPassed := yPassed y @ passes t\<rparr>)"

text \<open>The context given to \<open>Open\<close> may have a deadline; \<open>LCancel\<close> is its cancellation.\<close>

definition ctx_expire :: "session \<Rightarrow> session" where
  "ctx_expire s = s\<lparr>sCtxErr := (case sCtxErr s of None \<Rightarrow> Some DeadlineExceeded | Some e \<Rightarrow> Some e)\<rparr>"

definition ctx_text :: "err \<Rightarrow> string" where
  "ctx_text e = (if e = DeadlineExceeded then ''context deadline exceeded'' else ''context canceled'')"

text \<open>\<open>Open\<close> has returned the session: its owner may call \<open>Close\<close>, also during an operation.\<close>

fun opened :: "task \<Rightarrow> bool" where
  "opened (TReady r) = True"
| "opened (TDrain payload k) = (k = CUser)"
| "opened (TSend payload k) = (k = CUser)"
| "opened (TWait pkt want sched k) = (k = CUser)"
| "opened t = False"

text \<open>The client's write operations in their checks; \<open>None\<close> when they return at once.\<close>

definition write_payload :: "session \<Rightarrow> byte list \<Rightarrow> byte list option" where
  "write_payload s p =
    (if sClosed s \<or> p = [] \<or> length p + cpHeaderLen > maxPacket - headerLen then None
     else case encodeControl (replicate (cpHeaderLen + length p) 0) cpTypePlainData p of
       Inl e \<Rightarrow> None | Inr (n, buf) \<Rightarrow> Some (take n buf))"

definition task_step :: "params \<Rightarrow> sys \<Rightarrow> label \<Rightarrow> sys option" where
  "task_step P y l =
    (let s = ySess y in
     case (yTask y, l) of
       (TStart, LStart answer) \<Rightarrow> Some (move_task y (task_sessionstart s answer))
     | (TKeygen, LKeygen rand) \<Rightarrow> Some (move_task y (task_keygen (pUsername P) rand, s))
     | (TDrain payload k, LDrain) \<Rightarrow>
         Some (y\<lparr>yTask := TSend payload k, ySess := s\<lparr>sAckCh := []\<rparr>, yHeard := []\<rparr>)
     | (TSend payload k, LSend answer) \<Rightarrow>
         Some (move_task (y\<lparr>yOps := yOps y @ [(ctOut (sCounters s), payload)]\<rparr>)
           (task_send (pCfg P) s payload k answer))
     | (TWait pkt want sched k, LAck) \<Rightarrow>
         map_option (move_task y) (task_ack s pkt want sched k)
     | (TWait pkt want sched k, LTimeout answer) \<Rightarrow>
         Some (move_task y (task_timeout s pkt want sched k answer))
     | (TWait pkt want sched k, LCtxDone) \<Rightarrow>
         (case sCtxErr s of
            None \<Rightarrow> None
          | Some e \<Rightarrow> Some (move_task y (after_send k (Some e), s)))
     | (TAwaitSalt priv pub, LControl) \<Rightarrow>
         (case await_take cpTypePassSalt s of
            None \<Rightarrow> None
          | Some (None, s) \<Rightarrow> Some (y\<lparr>ySess := s\<rparr>)
          | Some (Some cp, s) \<Rightarrow>
              Some (y\<lparr>ySess := s, yPassed := yPassed y @ [SaltTaken (length (cpBody cp))],
                yTask := task_salt (pUsername P) (pPassword P) (pCols P) (pRows P) priv pub (cpBody cp)\<rparr>))
     | (TAwaitSalt priv pub, LDeadline) \<Rightarrow>
         Some (y\<lparr>yTask := TFail (Wrapf ''await PASSSALT: '' DeadlineExceeded [])\<rparr>)
     | (TAwaitSalt priv pub, LCtxDone) \<Rightarrow>
         map_option (\<lambda>e. y\<lparr>yTask := TFail (Wrapf ''await PASSSALT: '' e [])\<rparr>) (sCtxErr s)
     | (TAwaitEnd, LControl) \<Rightarrow>
         (case await_take cpTypeEndAuth s of
            None \<Rightarrow> None
          | Some (None, s) \<Rightarrow> Some (y\<lparr>ySess := s\<rparr>)
          | Some (Some cp, s) \<Rightarrow>
              Some (y\<lparr>ySess := s\<lparr>sTerminalMode := True\<rparr>, yPassed := yPassed y @ [EndAuthTaken],
                yTask := TReady None, yKeepalive := True\<rparr>))
     | (TAwaitEnd, LDeadline) \<Rightarrow>
         Some (y\<lparr>yTask := TFail (Wrapf [] ErrAuthFailed ('': '' @ ctx_text DeadlineExceeded))\<rparr>)
     | (TAwaitEnd, LCtxDone) \<Rightarrow>
         map_option (\<lambda>e. y\<lparr>yTask := TFail (Wrapf [] ErrAuthFailed ('': '' @ ctx_text e))\<rparr>) (sCtxErr s)
     | (TReady r, LWrite p) \<Rightarrow>
         map_option (\<lambda>payload. y\<lparr>yTask := TDrain payload CUser\<rparr>) (write_payload s p)
     | (TReady r, LResize cols rows) \<Rightarrow>
         (if sClosed s then None else Some (y\<lparr>yTask := TDrain (resize_payload cols rows) CUser\<rparr>))
     | (TFail e, LClose answer) \<Rightarrow>
         Some (y\<lparr>ySess := Session_Close s answer, yTask := (if sClosed s then TReturned e else TClosing e)\<rparr>)
     | (TClosing e, LReturn) \<Rightarrow> (if sDone s then Some (y\<lparr>yTask := TReturned e\<rparr>) else None)
     | _ \<Rightarrow> None)"

text \<open>
  A turn of the receive loop up to its first record; the rest of the packet is delivered
  record by record, and a full channel blocks it until the handshake takes one.
\<close>

definition begin_inbound :: "session \<Rightarrow> header \<Rightarrow> byte list \<Rightarrow> errno option \<Rightarrow> controlRecord list \<times> session" where
  "begin_inbound s h payload answer =
    (let plen = of_nat (length payload);
         ack = session_header s pTypeAck (ackCounterFor (hCounter h) plen);
         s = snd (session_Send s (header_datagram ack) answer);
         (accepted, cts) = acceptIncoming (sCounters s) (hCounter h);
         s = s\<lparr>sCounters := cts\<rparr>
     in (if \<not> accepted then [] else controlRecords payload, s))"

definition rx_pc_of :: "controlRecord list \<Rightarrow> rx_pc" where
  "rx_pc_of rs = (case rs of [] \<Rightarrow> RxLoop | _ \<Rightarrow> RxRecords rs)"

definition rx_exit :: "sys \<Rightarrow> session \<Rightarrow> sys" where
  "rx_exit y s = y\<lparr>ySess := rxLoop_exit s, yRx := RxExited\<rparr>"

definition rx_step :: "sys \<Rightarrow> rx_turn \<Rightarrow> sys option" where
  "rx_step y t =
    (let s = ySess y in
     if sCtxErr s \<noteq> None then Some (rx_exit y s)
     else case rtRead t of
       ReadDeadline \<Rightarrow> Some y
     | ReadClosed \<Rightarrow> Some (rx_exit y s)
     | ReadErr e \<Rightarrow> Some (rx_exit y (Session_fail s (Some (Errno e))))
     | ReadOk n buf \<Rightarrow>
         if n < headerLen \<or> length buf < n then Some y
         else case decodeHeader (take n buf) DirToClient of
           Inl derr \<Rightarrow> Some y
         | Inr (h, payload) \<Rightarrow>
             if hSessionKey h \<noteq> sSessionKey s then Some y
             else if hPType h = pTypeAck then
               Some (y\<lparr>ySess := ackCh_offer s (hCounter h), yHeard := yHeard y @ [hCounter h]\<rparr>)
             else if hPType h = pTypeData then
               (case begin_inbound s h payload (rtAnswer t) of
                  (rs, s') \<Rightarrow> Some (y\<lparr>ySess := s', yRx := rx_pc_of rs\<rparr>))
             else if hPType h = pTypeEnd then Some (rx_exit y (Session_fail s (Some EOF)))
             else Some y)"

definition deliver_step :: "sys \<Rightarrow> bool \<Rightarrow> controlRecord list \<Rightarrow> sys option" where
  "deliver_step y pick rs =
    (case rs of
       [] \<Rightarrow> None
     | r # rs' \<Rightarrow>
         (case deliver pick (Some (ySess y)) r of
            (goon, Some s') \<Rightarrow> Some (y\<lparr>ySess := s', yRx := (if goon then rx_pc_of rs' else RxLoop)\<rparr>)
          | (goon, None) \<Rightarrow> None))"

definition sys_next :: "params \<Rightarrow> sys \<Rightarrow> label \<Rightarrow> sys option" where
  "sys_next P y l =
    (case l of
       LRx t \<Rightarrow> (if yRx y = RxLoop then rx_step y t else None)
     | LDeliver pick \<Rightarrow> (case yRx y of RxRecords rs \<Rightarrow> deliver_step y pick rs | _ \<Rightarrow> None)
     | LTick answer \<Rightarrow>
         (if \<not> yKeepalive y then None
          else case keepaliveLoop_turn (ySess y) answer of
            (goon, s) \<Rightarrow> Some (y\<lparr>ySess := s, yKeepalive := goon\<rparr>))
     | LCancel \<Rightarrow> Some (y\<lparr>ySess := ctx_cancel (ySess y)\<rparr>)
     | LExpire \<Rightarrow> Some (y\<lparr>ySess := ctx_expire (ySess y)\<rparr>)
     | LClose answer \<Rightarrow>
         (if opened (yTask y) then Some (y\<lparr>ySess := Session_Close (ySess y) answer\<rparr>)
          else task_step P y l)
     | _ \<Rightarrow> task_step P y l)"

inductive sys_step :: "params \<Rightarrow> sys \<Rightarrow> sys \<Rightarrow> bool" for P where
  step: "sys_next P y l = Some y' \<Longrightarrow> sys_step P y y'"

definition sys_init :: "session \<Rightarrow> sys" where
  "sys_init s = \<lparr>ySess = s, yTask = TStart, yRx = RxLoop, yKeepalive = False, yOps = [], yHeard = [], yPassed = []\<rparr>"

inductive reach :: "params \<Rightarrow> session \<Rightarrow> sys \<Rightarrow> bool" for P s0 where
  init: "reach P s0 (sys_init s0)"
| more: "reach P s0 y \<Longrightarrow> sys_step P y y' \<Longrightarrow> reach P s0 y'"

inductive_cases sys_stepE: "sys_step P y y'"

text \<open>A schedule of labels, run to its end; what the code evaluates to.\<close>

fun run :: "params \<Rightarrow> sys \<Rightarrow> label list \<Rightarrow> sys option" where
  "run P y [] = Some y"
| "run P y (l # ls) = (case sys_next P y l of None \<Rightarrow> None | Some y' \<Rightarrow> run P y' ls)"

lemma run_reach: "reach P s0 y \<Longrightarrow> run P y ls = Some y' \<Longrightarrow> reach P s0 y'"
proof (induction ls arbitrary: y)
  case (Cons l ls)
  then obtain y1 where "sys_next P y l = Some y1" and "run P y1 ls = Some y'"
    by (auto split: option.splits)
  then show ?case using Cons reach.more sys_step.step by blast
qed simp

lemma reach_invariant:
  assumes "reach P s0 y" and "I (sys_init s0)"
    and "\<And>y l y'. reach P s0 y \<Longrightarrow> I y \<Longrightarrow> sys_next P y l = Some y' \<Longrightarrow> I y'"
  shows "I y"
  using assms(1)
proof (induction rule: reach.induct)
  case init
  show ?case by (rule assms(2))
next
  case (more y y')
  then show ?case using assms(3) by (auto elim: sys_stepE)
qed

end
