(* ===== verification/System_Facts.thy ===== *)
theory System_Facts
  imports System
begin

text \<open>
  What each step of the system does, in the terms the properties need: the datagrams that it
  puts on the wire (\<open>emits\<close>), the phase of the handshake that it moves to (\<open>proto_step\<close>, the
  abstract protocol that the detailed steps implement), and the invariants that follow.
\<close>

section \<open>Datagrams on the wire\<close>

definition emits :: "session \<Rightarrow> byte list list \<Rightarrow> session \<Rightarrow> bool" where
  "emits s pkts s' \<longleftrightarrow>
    (\<exists>errs. sSender s' = (sSender s)\<lparr>rsIpID := rsIpID (sSender s) + of_nat (length pkts), rsSendErrCount := errs\<rparr>)
    \<and> sSrcMAC s' = sSrcMAC s \<and> sDstMAC s' = sDstMAC s \<and> sSessionKey s' = sSessionKey s
    \<and> sSent s' = sSent s @ map (\<lambda>k. frame_call s (pkts ! k) (rsIpID (sSender s) + 1 + of_nat k)) [0..<length pkts]"

lemma emits_nil [intro]:
  "sSender s' = sSender s \<Longrightarrow> sSrcMAC s' = sSrcMAC s \<Longrightarrow> sDstMAC s' = sDstMAC s \<Longrightarrow>
    sSessionKey s' = sSessionKey s \<Longrightarrow> sSent s' = sSent s \<Longrightarrow> emits s [] s'"
  unfolding emits_def by (auto intro!: exI [of _ "rsSendErrCount (sSender s)"])

lemma emits_transmitted: "transmitted s pkt 1 s' \<Longrightarrow> emits s [pkt] s'"
  by (auto simp: transmitted_def emits_def)

lemma emits_frame_call: "emits s pkts s' \<Longrightarrow> frame_call s' p i = frame_call s p i"
  by (auto simp: emits_def frame_call_def)

lemma emits_trans:
  assumes "emits s a s1" and "emits s1 b s2"
  shows "emits s (a @ b) s2"
proof -
  have f: "frame_call s1 p i = frame_call s p i" for p i
    by (rule emits_frame_call [OF assms(1)])
  have "map (\<lambda>k. frame_call s ((a @ b) ! k) (rsIpID (sSender s) + 1 + of_nat k)) [0..<length a + length b]
      = map (\<lambda>k. frame_call s (a ! k) (rsIpID (sSender s) + 1 + of_nat k)) [0..<length a]
        @ map (\<lambda>k. frame_call s (b ! k) (rsIpID (sSender s) + 1 + of_nat (length a + k))) [0..<length b]"
    by (simp add: map_upt_add nth_append)
  then show ?thesis
    using assms unfolding emits_def f by (auto simp: f add.assoc add.left_commute)
qed

lemma emits_update:
  assumes "emits s a s1" and "sSender s2 = sSender s1" and "sSrcMAC s2 = sSrcMAC s1" and "sDstMAC s2 = sDstMAC s1"
    and "sSessionKey s2 = sSessionKey s1" and "sSent s2 = sSent s1"
  shows "emits s a s2"
  using emits_trans [OF assms(1) emits_nil [OF assms(2-6)]] by simp

section \<open>The steps in detail\<close>

lemma session_Send_cases:
  obtains s' where "session_Send s pkt answer = (map_option Errno answer, s')" and "transmitted s pkt 1 s'"
  using session_Send_transmits [of s pkt answer] by (metis prod.collapse)

lemma task_sessionstart_spec:
  assumes "task_sessionstart s answer = (t, s')"
  shows "transmitted s (header_wire (session_header s pTypeSessionStart 0) DirToServer) 1 s'"
    and "t = TKeygen \<or> (\<exists>e. t = TFail e)"
proof -
  obtain s1 where s1: "session_Send s (header_datagram (session_header s pTypeSessionStart 0)) answer
      = (map_option Errno answer, s1)"
    and tr: "transmitted s (header_datagram (session_header s pTypeSessionStart 0)) 1 s1"
    by (rule session_Send_cases)
  show "transmitted s (header_wire (session_header s pTypeSessionStart 0) DirToServer) 1 s'"
    "t = TKeygen \<or> (\<exists>e. t = TFail e)"
    using assms tr s1 by (auto simp: task_sessionstart_def sendSessionStart_def header_datagram_wire split: option.splits)
qed

lemma task_send_spec:
  assumes "task_send cfg s payload k answer = (t, s')"
  shows "transmitted (advance_out s (length payload)) (data_datagram s payload) 1 s'"
    and "(\<exists>e. t = after_send k (Some e))
      \<or> schedule_for cfg s \<noteq> [] \<and> t = TWait (data_datagram s payload)
          (ctOut (sCounters s) + of_nat (length payload)) (schedule_for cfg s) k"
proof -
  obtain s1 where s1: "session_Send (advance_out s (length payload)) (data_datagram s payload) answer
      = (map_option Errno answer, s1)"
    and tr: "transmitted (advance_out s (length payload)) (data_datagram s payload) 1 s1"
    by (rule session_Send_cases)
  have "schedule_for cfg s1 = schedule_for cfg s"
    using transmitted_simps [OF tr] by (simp add: schedule_for_def advance_out_def)
  then show "transmitted (advance_out s (length payload)) (data_datagram s payload) 1 s'"
    "(\<exists>e. t = after_send k (Some e))
      \<or> schedule_for cfg s \<noteq> [] \<and> t = TWait (data_datagram s payload)
          (ctOut (sCounters s) + of_nat (length payload)) (schedule_for cfg s) k"
    using assms tr by (auto simp: task_send_def data_packet_spec s1 split: option.splits list.splits)
qed

lemma task_timeout_spec:
  assumes "task_timeout s pkt want sched k answer = (t, s')"
  shows "transmitted s pkt 1 s'"
    and "(\<exists>e. t = after_send k (Some e)) \<or> tl sched \<noteq> [] \<and> t = TWait pkt want (tl sched) k"
proof -
  obtain s1 where s1: "session_Send s pkt answer = (map_option Errno answer, s1)" and tr: "transmitted s pkt 1 s1"
    by (rule session_Send_cases)
  show "transmitted s pkt 1 s'"
    "(\<exists>e. t = after_send k (Some e)) \<or> tl sched \<noteq> [] \<and> t = TWait pkt want (tl sched) k"
    using assms tr by (auto simp: task_timeout_def s1 split: option.splits list.splits)
qed

lemma task_ack_spec:
  assumes "task_ack s pkt want sched k = Some (t, s')"
  shows "s' = s\<lparr>sAckCh := tl (sAckCh s)\<rparr>" and "sAckCh s \<noteq> []"
    and "t = (if hd (sAckCh s) = want then after_send k None else TWait pkt want sched k)"
  using assms by (auto simp: task_ack_def split: list.splits if_splits)

lemma begin_inbound_spec:
  assumes "begin_inbound s h payload answer = (rs, s')"
  shows "s' = (after_ack s h payload answer)\<lparr>sCounters := snd (acceptIncoming (sCounters s) (hCounter h))\<rparr>"
    and "rs = (if fst (acceptIncoming (sCounters s) (hCounter h)) then controlRecords payload else [])"
proof -
  obtain v cts where v: "acceptIncoming (sCounters s) (hCounter h) = (v, cts)" by fastforce
  have hd: "header_datagram (session_header s pTypeAck (ackCounterFor (hCounter h) (of_nat (length payload))))
      = inbound_ack s (hCounter h) (length payload)"
    by (simp add: header_datagram_wire inbound_ack_def ackCounterFor_def)
  show "s' = (after_ack s h payload answer)\<lparr>sCounters := snd (acceptIncoming (sCounters s) (hCounter h))\<rparr>"
    "rs = (if fst (acceptIncoming (sCounters s) (hCounter h)) then controlRecords payload else [])"
    using assms after_ack_simps(1) [of s h payload answer] v
    by (auto simp: begin_inbound_def Let_def hd after_ack_def [symmetric])
qed

lemma deliver_spec:
  assumes "deliver pick (Some s) r = (goon, Some s')"
  obtains out ctl where "s' = s\<lparr>sRxPipe := sRxPipe s @ out, sControlCh := sControlCh s @ ctl\<rparr>"
    and "out \<noteq> [] \<Longrightarrow> sTerminalMode s"
proof -
  have "\<exists>out ctl. s' = s\<lparr>sRxPipe := sRxPipe s @ out, sControlCh := sControlCh s @ ctl\<rparr> \<and> (out \<noteq> [] \<longrightarrow> sTerminalMode s)"
    (is "\<exists>out ctl. ?P out ctl")
  proof -
    consider "s' = s" | "sTerminalMode s" "s' = s\<lparr>sRxPipe := sRxPipe s @ crBody r\<rparr>"
      | cp where "s' = s\<lparr>sControlCh := sControlCh s @ [cp]\<rparr>"
    proof (cases "crCPType r = cpTypePlainData")
      case True
      then have "s' = (if sTerminalMode s then rxPipeW_Write s (crBody r) else s)"
        using assms by (simp add: deliver_def)
      then show ?thesis using that(1,2) by (cases "sTerminalMode s") (simp_all add: rxPipeW_Write_def split: if_splits)
    next
      case False
      then have "s' = s \<or> s' = s\<lparr>sControlCh := sControlCh s @ [\<lparr>cpCpt = crCPType r, cpBody = crBody r\<rparr>]\<rparr>"
        using assms by (auto simp: deliver_def split: if_splits)
      then show ?thesis using that(1,3) by (rule disjE)
    qed
    then show ?thesis
    proof cases
      case 1
      then have "?P [] []" by simp
      then show ?thesis by blast
    next
      case 2
      then have "?P (crBody r) []" by simp
      then show ?thesis by blast
    next
      case 3
      then have "?P [] [cp]" by simp
      then show ?thesis by blast
    qed
  qed
  with that show ?thesis by blast
qed

lemma Session_Close_spec:
  obtains "sClosed s" and "Session_Close s answer = s"
  | s1 where "\<not> sClosed s" and "transmitted s (header_wire (session_header s pTypeEnd 0) DirToServer) 1 s1"
    and "Session_Close s answer = s1\<lparr>sClosed := True, sCtxErr := sCtxErr (ctx_cancel s),
      sConnCloses := sConnCloses s + 1, sSenderCloses := sSenderCloses s + 1, sPipeWClosed := True, sPipeRClosed := True\<rparr>"
proof (cases "sClosed s")
  case True
  then show ?thesis using that(1) by (simp add: Session_Close_def)
next
  case False
  let ?p = "header_wire (session_header s pTypeEnd 0) DirToServer"
  obtain s1 where s1: "session_Send s ?p answer = (map_option Errno answer, s1)" and tr: "transmitted s ?p 1 s1"
    by (rule session_Send_cases)
  have "session_Send (s\<lparr>sClosed := True\<rparr>) ?p answer = (map_option Errno answer, s1\<lparr>sClosed := True\<rparr>)"
    using s1 by (auto simp: session_Send_def split: prod.splits)
  moreover have "session_header (s\<lparr>sClosed := True\<rparr>) pTypeEnd 0 = session_header s pTypeEnd 0"
    by (simp add: session_header_def)
  ultimately have "Session_Close s answer = s1\<lparr>sClosed := True, sCtxErr := sCtxErr (ctx_cancel s),
      sConnCloses := sConnCloses s + 1, sSenderCloses := sSenderCloses s + 1, sPipeWClosed := True, sPipeRClosed := True\<rparr>"
    using False transmitted_simps [OF tr]
    by (simp add: Session_Close_def Let_def header_datagram_wire ctx_cancel_def conn_Close_def sender_Close_def
        rxPipeW_Close_def rxPipeR_Close_def)
  with that(2) [OF False tr] show ?thesis by blast
qed

lemma rx_step_spec:
  assumes "rx_step y t = Some y'"
  obtains "y' = y"
  | "sCtxErr (ySess y) \<noteq> None \<or> rtRead t = ReadClosed" and "y' = rx_exit y (ySess y)"
  | e where "y' = rx_exit y (Session_fail (ySess y) e)"
  | c where "y' = y\<lparr>ySess := ackCh_offer (ySess y) c, yHeard := yHeard y @ [c]\<rparr>"
  | h payload where "y' = y\<lparr>ySess := (after_ack (ySess y) h payload (rtAnswer t))
        \<lparr>sCounters := snd (acceptIncoming (sCounters (ySess y)) (hCounter h))\<rparr>,
      yRx := rx_pc_of (if fst (acceptIncoming (sCounters (ySess y)) (hCounter h)) then controlRecords payload else [])\<rparr>"
proof (cases "rtRead t")
  case (ReadOk n buf)
  show ?thesis
  proof (cases "sCtxErr (ySess y) = None \<and> headerLen \<le> n \<and> n \<le> length buf")
    case False
    then show ?thesis using assms ReadOk that(1,2) by (auto simp: rx_step_def Let_def split: if_splits)
  next
    case True
    show ?thesis
    proof (cases "decodeHeader (take n buf) DirToClient")
      case (Inl e)
      then show ?thesis using assms ReadOk True that(1) by (auto simp: rx_step_def Let_def)
    next
      case (Inr d)
      obtain h payload where d: "d = (h, payload)" by (cases d)
      obtain rs s1 where b: "begin_inbound (ySess y) h payload (rtAnswer t) = (rs, s1)" by fastforce
      let ?in = "y\<lparr>ySess := (after_ack (ySess y) h payload (rtAnswer t))
            \<lparr>sCounters := snd (acceptIncoming (sCounters (ySess y)) (hCounter h))\<rparr>,
          yRx := rx_pc_of (if fst (acceptIncoming (sCounters (ySess y)) (hCounter h)) then controlRecords payload else [])\<rparr>"
      have "y\<lparr>ySess := s1, yRx := rx_pc_of rs\<rparr> = ?in"
        using begin_inbound_spec [OF b] by simp
      then have "y' \<in> {y, y\<lparr>ySess := ackCh_offer (ySess y) (hCounter h), yHeard := yHeard y @ [hCounter h]\<rparr>,
          ?in, rx_exit y (Session_fail (ySess y) (Some EOF))}"
        using assms ReadOk True Inr d b by (simp add: rx_step_def Let_def split: if_splits)
      then show ?thesis using that(1,3,4,5) by blast
    qed
  qed
qed (use assms that in \<open>auto simp: rx_step_def Let_def split: if_splits\<close>)

section \<open>The steps as rules\<close>

text \<open>
  \<open>sys_rule\<close> lists what a step can do, one rule per kind of step.  Every computed step is an
  instance of a rule, so that the invariants go by cases of the rules.
\<close>

inductive sys_rule :: "params \<Rightarrow> sys \<Rightarrow> sys \<Rightarrow> bool" for P y where
  start: "yTask y = TStart \<Longrightarrow> transmitted (ySess y) (header_wire (session_header (ySess y) pTypeSessionStart 0) DirToServer) 1 s'
    \<Longrightarrow> t = TKeygen \<or> (\<exists>e. t = TFail e) \<Longrightarrow> sys_rule P y (y\<lparr>yTask := t, ySess := s'\<rparr>)"
| keygen: "yTask y = TKeygen \<Longrightarrow> t = TPanic \<or> (\<exists>e. t = TFail e) \<or> (\<exists>payload priv pub. t = TDrain payload (CInit priv pub))
    \<Longrightarrow> sys_rule P y (y\<lparr>yTask := t\<rparr>)"
| drain: "yTask y = TDrain payload k \<Longrightarrow>
    sys_rule P y (y\<lparr>yTask := TSend payload k, ySess := (ySess y)\<lparr>sAckCh := []\<rparr>, yHeard := []\<rparr>)"
| send: "yTask y = TSend payload k
    \<Longrightarrow> transmitted (advance_out (ySess y) (length payload)) (data_datagram (ySess y) payload) 1 s'
    \<Longrightarrow> (\<exists>e. t = after_send k (Some e)) \<or> schedule_for (pCfg P) (ySess y) \<noteq> []
        \<and> t = TWait (data_datagram (ySess y) payload) (ctOut (sCounters (ySess y)) + of_nat (length payload))
            (schedule_for (pCfg P) (ySess y)) k
    \<Longrightarrow> sys_rule P y (y\<lparr>yOps := yOps y @ [(ctOut (sCounters (ySess y)), payload)], yTask := t, ySess := s'\<rparr>)"
| ack: "yTask y = TWait pkt want sched k \<Longrightarrow> sAckCh (ySess y) = got # rest
    \<Longrightarrow> t = (if got = want then after_send k None else TWait pkt want sched k)
    \<Longrightarrow> sys_rule P y (y\<lparr>yTask := t, ySess := (ySess y)\<lparr>sAckCh := rest\<rparr>, yPassed := yPassed y @ passes t\<rparr>)"
| retransmit: "yTask y = TWait pkt want sched k \<Longrightarrow> transmitted (ySess y) pkt 1 s'
    \<Longrightarrow> (\<exists>e. t = after_send k (Some e)) \<or> tl sched \<noteq> [] \<and> t = TWait pkt want (tl sched) k
    \<Longrightarrow> sys_rule P y (y\<lparr>yTask := t, ySess := s'\<rparr>)"
| interrupted: "yTask y = TWait pkt want sched k \<Longrightarrow> sys_rule P y (y\<lparr>yTask := after_send k (Some e)\<rparr>)"
| skip: "yTask y = TAwaitSalt priv pub \<or> yTask y = TAwaitEnd \<Longrightarrow> sControlCh (ySess y) = cp # rest
    \<Longrightarrow> sys_rule P y (y\<lparr>ySess := (ySess y)\<lparr>sControlCh := rest\<rparr>\<rparr>)"
| salt: "yTask y = TAwaitSalt priv pub \<Longrightarrow> sControlCh (ySess y) = cp # rest \<Longrightarrow> cpCpt cp = cpTypePassSalt
    \<Longrightarrow> t = TPanic \<or> (\<exists>e. t = TFail e) \<or> (length (cpBody cp) = 16 \<or> length (cpBody cp) = 49) \<and> (\<exists>payload. t = TDrain payload CFinish)
    \<Longrightarrow> sys_rule P y (y\<lparr>ySess := (ySess y)\<lparr>sControlCh := rest\<rparr>,
        yPassed := yPassed y @ [SaltTaken (length (cpBody cp))], yTask := t\<rparr>)"
| finished: "yTask y = TAwaitEnd \<Longrightarrow> sControlCh (ySess y) = cp # rest \<Longrightarrow> cpCpt cp = cpTypeEndAuth
    \<Longrightarrow> sys_rule P y (y\<lparr>ySess := (ySess y)\<lparr>sControlCh := rest, sTerminalMode := True\<rparr>,
        yPassed := yPassed y @ [EndAuthTaken], yTask := TReady None, yKeepalive := True\<rparr>)"
| gave_up: "yTask y = TAwaitSalt priv pub \<or> yTask y = TAwaitEnd \<Longrightarrow> sys_rule P y (y\<lparr>yTask := TFail e\<rparr>)"
| operation: "yTask y = TReady r \<Longrightarrow> \<not> sClosed (ySess y) \<Longrightarrow> sys_rule P y (y\<lparr>yTask := TDrain payload CUser\<rparr>)"
| close_failed: "yTask y = TFail e \<Longrightarrow> t = (if sClosed (ySess y) then TReturned e else TClosing e)
    \<Longrightarrow> sys_rule P y (y\<lparr>ySess := Session_Close (ySess y) answer, yTask := t\<rparr>)"
| returned: "yTask y = TClosing e \<Longrightarrow> sDone (ySess y) \<Longrightarrow> sys_rule P y (y\<lparr>yTask := TReturned e\<rparr>)"
| close_open: "opened (yTask y) \<Longrightarrow> sys_rule P y (y\<lparr>ySess := Session_Close (ySess y) answer\<rparr>)"
| idle: "sys_rule P y y"
| ctx_ends: "sCtxErr (ySess y) = None \<Longrightarrow> sys_rule P y (y\<lparr>ySess := (ySess y)\<lparr>sCtxErr := Some e\<rparr>\<rparr>)"
| rx_exits: "yRx y = RxLoop \<Longrightarrow> s' = ySess y \<or> s' = Session_fail (ySess y) e \<Longrightarrow> sys_rule P y (rx_exit y s')"
| rx_ack: "yRx y = RxLoop \<Longrightarrow> sys_rule P y (y\<lparr>ySess := ackCh_offer (ySess y) c, yHeard := yHeard y @ [c]\<rparr>)"
| rx_data: "yRx y = RxLoop \<Longrightarrow> sys_rule P y (y\<lparr>ySess := (after_ack (ySess y) h payload answer)
        \<lparr>sCounters := snd (acceptIncoming (sCounters (ySess y)) (hCounter h))\<rparr>,
      yRx := rx_pc_of (if fst (acceptIncoming (sCounters (ySess y)) (hCounter h)) then controlRecords payload else [])\<rparr>)"
| rx_record: "yRx y = RxRecords (r # rs) \<Longrightarrow> deliver pick (Some (ySess y)) r = (goon, Some s')
    \<Longrightarrow> sys_rule P y (y\<lparr>ySess := s', yRx := (if goon then rx_pc_of rs else RxLoop)\<rparr>)"
| tick: "yKeepalive y \<Longrightarrow> transmitted (ySess y)
        (header_wire (session_header (ySess y) pTypeAck (ctOut (sCounters (ySess y)))) DirToServer) 1 s'
    \<Longrightarrow> sys_rule P y (y\<lparr>ySess := s'\<rparr>)"
| tick_ends: "yKeepalive y \<Longrightarrow> sys_rule P y (y\<lparr>yKeepalive := False\<rparr>)"

lemma task_keygen_spec:
  "task_keygen user rand = TPanic \<or> (\<exists>e. task_keygen user rand = TFail e)
    \<or> (\<exists>payload priv pub. task_keygen user rand = TDrain payload (CInit priv pub))"
  by (auto simp: task_keygen_def split: go.splits sum.splits)

lemma salt_response_length:
  assumes "salt_response user pw priv pub body = Ret (Inr r)"
  shows "length body = 16 \<or> length body = 49"
  using assms by (auto simp: salt_response_def md5SaltLen_def ecsrpSaltLen_def split: if_splits)

lemma task_salt_spec:
  "task_salt user pw cols rows priv pub body = TPanic \<or> (\<exists>e. task_salt user pw cols rows priv pub body = TFail e)
    \<or> (length body = 16 \<or> length body = 49) \<and> (\<exists>payload. task_salt user pw cols rows priv pub body = TDrain payload CFinish)"
  using salt_response_length [of user pw priv pub body]
  by (auto simp: task_salt_def split: go.splits sum.splits)

lemma passes_error: "passes (after_send k (Some e)) = []"
  by (cases k) (simp_all add: passes_def after_send_def)

lemma move_task_simp: "move_task y (t, s) = y\<lparr>yTask := t, ySess := s, yPassed := yPassed y @ passes t\<rparr>"
  by (simp add: move_task_def)

lemma move_task_quiet: "passes t = [] \<Longrightarrow> move_task y (t, s) = y\<lparr>yTask := t, ySess := s\<rparr>"
  by (simp add: move_task_def)

lemma task_wait_rule:
  assumes TWait: "yTask y = TWait pkt want sched k" and "task_step P y l = Some y'"
  shows "sys_rule P y y'"
proof -
  consider "l = LAck" | answer where "l = LTimeout answer" | "l = LCtxDone"
    using assms(2) TWait by (cases l) (simp_all add: task_step_def Let_def)
  then show ?thesis
  proof cases
    case 1
    then obtain t s' where t: "task_ack (ySess y) pkt want sched k = Some (t, s')" and y: "y' = move_task y (t, s')"
      using assms(2) TWait by (auto simp: task_step_def Let_def)
    note a = task_ack_spec [OF t]
    have "sAckCh (ySess y) = hd (sAckCh (ySess y)) # tl (sAckCh (ySess y))" using a(2) by simp
    from sys_rule.ack [OF TWait this a(3)] show ?thesis by (simp add: y a(1) move_task_simp)
  next
    case 2
    obtain t s' where t: "task_timeout (ySess y) pkt want sched k answer = (t, s')" by fastforce
    have "passes t = []" using task_timeout_spec(2) [OF t] by (auto simp: passes_error) (simp add: passes_def)
    then have "y' = y\<lparr>yTask := t, ySess := s'\<rparr>"
      using assms(2) TWait 2 t by (simp add: task_step_def Let_def move_task_quiet)
    then show ?thesis using sys_rule.retransmit [OF TWait task_timeout_spec [OF t]] by simp
  next
    case 3
    then obtain e where "y' = move_task y (after_send k (Some e), ySess y)"
      using assms(2) TWait by (auto simp: task_step_def Let_def split: option.splits)
    then show ?thesis using sys_rule.interrupted [OF TWait, of P e] by (simp add: move_task_quiet passes_error)
  qed
qed

lemma task_salt_rule:
  assumes TAwaitSalt: "yTask y = TAwaitSalt priv pub" and "task_step P y l = Some y'"
  shows "sys_rule P y y'"
proof -
  consider "l = LControl" | "l = LDeadline \<or> l = LCtxDone"
    using assms(2) TAwaitSalt by (cases l) (simp_all add: task_step_def Let_def)
  then show ?thesis
  proof cases
    case 1
    then obtain cp rest where c: "sControlCh (ySess y) = cp # rest"
      using assms(2) TAwaitSalt by (auto simp: task_step_def Let_def await_take_def split: list.splits)
    show ?thesis
    proof (cases "cpCpt cp = cpTypePassSalt")
      case True
      have "y' = y\<lparr>ySess := (ySess y)\<lparr>sControlCh := rest\<rparr>,
          yPassed := yPassed y @ [SaltTaken (length (cpBody cp))],
          yTask := task_salt (pUsername P) (pPassword P) (pCols P) (pRows P) priv pub (cpBody cp)\<rparr>"
        using assms(2) 1 TAwaitSalt c True by (simp add: task_step_def Let_def await_take_def)
      then show ?thesis using sys_rule.salt [OF TAwaitSalt c True task_salt_spec] by simp
    next
      case False
      show ?thesis
        using sys_rule.skip [OF disjI1 [OF TAwaitSalt] c] assms(2) 1 TAwaitSalt c False
        by (simp add: task_step_def Let_def await_take_def)
    qed
  next
    case 2
    then obtain e where "y' = y\<lparr>yTask := TFail e\<rparr>"
      using assms(2) TAwaitSalt by (auto simp: task_step_def Let_def)
    then show ?thesis using sys_rule.gave_up [OF disjI1 [OF TAwaitSalt]] by simp
  qed
qed

lemma task_end_rule:
  assumes TAwaitEnd: "yTask y = TAwaitEnd" and "task_step P y l = Some y'"
  shows "sys_rule P y y'"
proof -
  consider "l = LControl" | "l = LDeadline \<or> l = LCtxDone"
    using assms(2) TAwaitEnd by (cases l) (simp_all add: task_step_def Let_def)
  then show ?thesis
  proof cases
    case 1
    then obtain cp rest where c: "sControlCh (ySess y) = cp # rest"
      using assms(2) TAwaitEnd by (auto simp: task_step_def Let_def await_take_def split: list.splits)
    show ?thesis
    proof (cases "cpCpt cp = cpTypeEndAuth")
      case True
      show ?thesis
        using sys_rule.finished [OF TAwaitEnd c True] assms(2) 1 TAwaitEnd c True
        by (simp add: task_step_def Let_def await_take_def)
    next
      case False
      show ?thesis
        using sys_rule.skip [OF disjI2 [OF TAwaitEnd] c] assms(2) 1 TAwaitEnd c False
        by (simp add: task_step_def Let_def await_take_def)
    qed
  next
    case 2
    then obtain e where "y' = y\<lparr>yTask := TFail e\<rparr>"
      using assms(2) TAwaitEnd by (auto simp: task_step_def Let_def)
    then show ?thesis using sys_rule.gave_up [OF disjI2 [OF TAwaitEnd]] by simp
  qed
qed

lemma task_step_rule:
  assumes "task_step P y l = Some y'"
  shows "sys_rule P y y'"
proof (cases "yTask y")
  case TStart
  then obtain answer where l: "l = LStart answer" using assms by (cases l) (simp_all add: task_step_def Let_def)
  obtain t s' where t: "task_sessionstart (ySess y) answer = (t, s')" by fastforce
  have "passes t = []" using task_sessionstart_spec(2) [OF t] by (auto simp: passes_def)
  then have "y' = y\<lparr>yTask := t, ySess := s'\<rparr>"
    using assms TStart l t by (simp add: task_step_def Let_def move_task_quiet)
  then show ?thesis using sys_rule.start [OF TStart task_sessionstart_spec [OF t]] by simp
next
  case TKeygen
  then obtain rand where l: "l = LKeygen rand" using assms by (cases l) (simp_all add: task_step_def Let_def)
  let ?t = "task_keygen (pUsername P) rand"
  have "passes ?t = []" using task_keygen_spec [of "pUsername P" rand] by (auto simp: passes_def)
  then have "y' = y\<lparr>yTask := ?t\<rparr>"
    using assms TKeygen l by (simp add: task_step_def Let_def move_task_quiet)
  then show ?thesis using sys_rule.keygen [OF TKeygen task_keygen_spec] by simp
next
  case (TDrain payload k)
  then have "l = LDrain" using assms by (cases l) (simp_all add: task_step_def Let_def)
  then show ?thesis using assms TDrain sys_rule.drain [OF TDrain] by (simp add: task_step_def Let_def)
next
  case (TSend payload k)
  then obtain answer where l: "l = LSend answer" using assms by (cases l) (simp_all add: task_step_def Let_def)
  obtain t s' where t: "task_send (pCfg P) (ySess y) payload k answer = (t, s')" by fastforce
  have "passes t = []" using task_send_spec(2) [OF t] by (auto simp: passes_error) (simp add: passes_def)
  then have "y' = y\<lparr>yOps := yOps y @ [(ctOut (sCounters (ySess y)), payload)], yTask := t, ySess := s'\<rparr>"
    using assms TSend l t by (simp add: task_step_def Let_def move_task_quiet)
  then show ?thesis using sys_rule.send [OF TSend task_send_spec [OF t]] by simp
next
  case (TWait pkt want sched k)
  then show ?thesis using assms by (rule task_wait_rule)
next
  case (TAwaitSalt priv pub)
  then show ?thesis using assms by (rule task_salt_rule)
next
  case TAwaitEnd
  then show ?thesis using assms by (rule task_end_rule)
next
  case (TReady r)
  obtain payload where "\<not> sClosed (ySess y)" and "y' = y\<lparr>yTask := TDrain payload CUser\<rparr>"
    using assms TReady by (cases l) (auto simp: task_step_def Let_def write_payload_def split: if_splits sum.splits)
  then show ?thesis using sys_rule.operation [OF TReady] by simp
next
  case (TFail e)
  then obtain answer where "l = LClose answer" using assms by (cases l) (simp_all add: task_step_def Let_def)
  then show ?thesis
    using sys_rule.close_failed [OF TFail refl, of P answer] assms TFail by (simp add: task_step_def Let_def)
next
  case (TClosing e)
  then have "l = LReturn" using assms by (cases l) (simp_all add: task_step_def Let_def)
  then show ?thesis using sys_rule.returned [OF TClosing] assms TClosing by (simp add: task_step_def Let_def split: if_splits)
next
  case (TReturned e)
  then show ?thesis using assms by (cases l) (simp_all add: task_step_def Let_def)
next
  case TPanic
  then show ?thesis using assms by (cases l) (simp_all add: task_step_def Let_def)
qed

lemma rx_step_rule:
  assumes "yRx y = RxLoop" and "rx_step y t = Some y'"
  shows "sys_rule P y y'"
  using assms(2)
proof (cases rule: rx_step_spec)
  case 1
  then show ?thesis by (simp add: sys_rule.idle)
next
  case 2
  then show ?thesis using sys_rule.rx_exits [OF assms(1) disjI1 [OF refl]] by simp
next
  case (3 e)
  then show ?thesis using sys_rule.rx_exits [OF assms(1) disjI2 [OF refl]] by simp
next
  case (4 c)
  then show ?thesis using sys_rule.rx_ack [OF assms(1)] by simp
next
  case (5 h payload)
  then show ?thesis using sys_rule.rx_data [OF assms(1)] by simp
qed

lemma ctx_same:
  assumes "sCtxErr (ySess y) = Some a"
  shows "y\<lparr>ySess := (ySess y)\<lparr>sCtxErr := Some a\<rparr>\<rparr> = y"
proof -
  have "(ySess y)\<lparr>sCtxErr := Some a\<rparr> = ySess y" using assms by (cases "ySess y") simp
  then show ?thesis by simp
qed

lemma sys_next_rule:
  assumes "sys_next P y l = Some y'"
  shows "sys_rule P y y'"
proof (cases l)
  case (LRx t)
  then show ?thesis using assms rx_step_rule by (simp add: sys_next_def split: if_splits)
next
  case (LDeliver pick)
  then obtain r rs goon s' where "yRx y = RxRecords (r # rs)" "deliver pick (Some (ySess y)) r = (goon, Some s')"
    and "y' = y\<lparr>ySess := s', yRx := (if goon then rx_pc_of rs else RxLoop)\<rparr>"
    using assms by (auto simp: sys_next_def deliver_step_def split: rx_pc.splits list.splits prod.splits option.splits)
  then show ?thesis using sys_rule.rx_record by simp
next
  case (LTick answer)
  let ?p = "header_wire (session_header (ySess y) pTypeAck (ctOut (sCounters (ySess y)))) DirToServer"
  have k: "yKeepalive y" using assms LTick by (simp add: sys_next_def split: if_splits)
  show ?thesis
  proof (cases "sCtxErr (ySess y) \<noteq> None \<or> sClosed (ySess y)")
    case True
    then have "keepaliveLoop_turn (ySess y) answer = (False, ySess y)"
      by (auto simp: keepaliveLoop_turn_def)
    then show ?thesis using assms LTick k sys_rule.tick_ends [OF k] by (auto simp: sys_next_def)
  next
    case False
    obtain s' where s': "session_Send (ySess y) ?p answer = (map_option Errno answer, s')"
      and tr: "transmitted (ySess y) ?p 1 s'" by (rule session_Send_cases)
    have "y' = y\<lparr>ySess := s'\<rparr>"
      using assms LTick k False s' by (auto simp: sys_next_def keepaliveLoop_turn_def header_datagram_wire)
    then show ?thesis using sys_rule.tick [OF k tr] by simp
  qed
next
  case LCancel
  then show ?thesis using assms sys_rule.idle sys_rule.ctx_ends
    by (cases "sCtxErr (ySess y)") (auto simp: sys_next_def ctx_cancel_def ctx_same)
next
  case LExpire
  then show ?thesis using assms sys_rule.idle sys_rule.ctx_ends
    by (cases "sCtxErr (ySess y)") (auto simp: sys_next_def ctx_expire_def ctx_same)
next
  case (LClose answer)
  then show ?thesis
    using assms task_step_rule sys_rule.close_open by (auto simp: sys_next_def split: if_splits)
qed (use assms task_step_rule in \<open>simp_all add: sys_next_def\<close>)

lemma reach_induct [consumes 1, case_names init rule]:
  assumes "reach P s0 y" and "I (sys_init s0)"
    and "\<And>y y'. reach P s0 y \<Longrightarrow> I y \<Longrightarrow> sys_rule P y y' \<Longrightarrow> I y'"
  shows "I y"
  using assms(1)
proof (rule reach_invariant)
  show "I (sys_init s0)" by (rule assms(2))
qed (blast intro: assms(3) sys_next_rule)

section \<open>Invariants\<close>

subsection \<open>Resources\<close>

text \<open>
  The session invariant; \<open>done\<close> is closed exactly when the receive loop has returned, and it
  leaves the pipe closed; a failed \<open>Open\<close> has closed the session.
\<close>

definition resources_inv :: "sys \<Rightarrow> bool" where
  "resources_inv y \<longleftrightarrow> session_inv (ySess y) \<and> sDone (ySess y) = (yRx y = RxExited)
    \<and> (\<forall>rs. yRx y = RxRecords rs \<longrightarrow> rs \<noteq> [])
    \<and> (\<forall>e. yTask y = TClosing e \<or> yTask y = TReturned e \<longrightarrow> sClosed (ySess y))"

lemma after_send_not_closing [simp]:
  "after_send k r \<noteq> TClosing e" "after_send k r \<noteq> TReturned e"
  by (cases k; cases r; simp add: after_send_def)+

lemma Session_Close_fields:
  "sClosed (Session_Close s answer)" "sDone (Session_Close s answer) = sDone s"
  "sAckCh (Session_Close s answer) = sAckCh s" "sRxPipe (Session_Close s answer) = sRxPipe s"
  "sTerminalMode (Session_Close s answer) = sTerminalMode s" "sCounters (Session_Close s answer) = sCounters s"
  by (cases rule: Session_Close_spec [of s answer]; simp add: transmitted_simps)+

lemma Session_fail_fields:
  "sClosed (Session_fail s e)" "sDone (Session_fail s e) = sDone s"
  "sAckCh (Session_fail s e) = sAckCh s" "sRxPipe (Session_fail s e) = sRxPipe s"
  "sTerminalMode (Session_fail s e) = sTerminalMode s" "sCounters (Session_fail s e) = sCounters s"
  by (auto simp: Session_fail_def Let_def ctx_cancel_def conn_Close_def sender_Close_def rxPipeW_Close_def
      split: option.splits)

lemma session_inv_drop [intro]:
  "session_inv s \<Longrightarrow> session_inv (s\<lparr>sAckCh := []\<rparr>)"
  "session_inv s \<Longrightarrow> sAckCh s = c # cs \<Longrightarrow> session_inv (s\<lparr>sAckCh := cs\<rparr>)"
  "session_inv s \<Longrightarrow> sControlCh s = cp # cps \<Longrightarrow> session_inv (s\<lparr>sControlCh := cps\<rparr>)"
  "session_inv s \<Longrightarrow> sControlCh s = cp # cps \<Longrightarrow> session_inv (s\<lparr>sControlCh := cps, sTerminalMode := True\<rparr>)"
  "session_inv s \<Longrightarrow> session_inv (s\<lparr>sCtxErr := Some e\<rparr>)"
  "session_inv s \<Longrightarrow> session_inv (ackCh_offer s c)"
  "session_inv s \<Longrightarrow> session_inv (advance_out s n)"
  "session_inv s \<Longrightarrow> session_inv (rxLoop_exit s)"
  by (auto simp: session_inv_def ackCh_offer_def advance_out_def rxLoop_exit_def rxPipeW_Close_def)

lemma session_inv_after_ack:
  "session_inv s \<Longrightarrow> session_inv ((after_ack s h payload answer)\<lparr>sCounters := cts\<rparr>)"
  by (simp add: session_inv_def)

lemma rx_pc_of_simps [simp]:
  "rx_pc_of rs \<noteq> RxExited" "rx_pc_of rs = RxRecords rs' \<longleftrightarrow> rs = rs' \<and> rs \<noteq> []" "RxExited \<noteq> rx_pc_of rs"
  by (auto simp: rx_pc_of_def split: list.splits)

lemma rxLoop_exit_fields [simp]:
  "sClosed (rxLoop_exit s) = sClosed s" "sDone (rxLoop_exit s)" "sRxPipe (rxLoop_exit s) = sRxPipe s"
  "sTerminalMode (rxLoop_exit s) = sTerminalMode s" "sAckCh (rxLoop_exit s) = sAckCh s"
  "sCounters (rxLoop_exit s) = sCounters s"
  by (simp_all add: rxLoop_exit_def rxPipeW_Close_def)

lemma ackCh_offer_fields [simp]:
  "sClosed (ackCh_offer s c) = sClosed s" "sDone (ackCh_offer s c) = sDone s" "sRxPipe (ackCh_offer s c) = sRxPipe s"
  "sTerminalMode (ackCh_offer s c) = sTerminalMode s" "sCounters (ackCh_offer s c) = sCounters s"
  by (simp_all add: ackCh_offer_def)

lemma advance_out_fields [simp]:
  "sClosed (advance_out s n) = sClosed s" "sDone (advance_out s n) = sDone s" "sRxPipe (advance_out s n) = sRxPipe s"
  "sTerminalMode (advance_out s n) = sTerminalMode s" "sAckCh (advance_out s n) = sAckCh s"
  by (simp_all add: advance_out_def)

lemma resources_step:
  assumes inv: "resources_inv y" and "sys_rule P y y'"
  shows "resources_inv y'"
proof -
  have s: "session_inv (ySess y)" using inv by (simp add: resources_inv_def)
  have keep: "resources_inv (z\<lparr>yTask := t, ySess := s'\<rparr>)"
    if "session_inv s'" "sDone s' = sDone (ySess y)" "sClosed (ySess y) \<longrightarrow> sClosed s'"
      "\<forall>e. t = TClosing e \<or> t = TReturned e \<longrightarrow> sClosed s'" "yRx z = yRx y" for z t s'
    using that inv by (auto simp: resources_inv_def)
  have keep': "resources_inv (z\<lparr>ySess := s'\<rparr>)"
    if "session_inv s'" "sDone s' = sDone (ySess y)" "sClosed (ySess y) \<longrightarrow> sClosed s'"
      "yTask z = yTask y" "yRx z = yRx y" for z s'
    using that inv by (auto simp: resources_inv_def)
  show ?thesis using assms(2)
  proof (cases rule: sys_rule.cases)
    case (start s' t)
    note tr = transmitted_simps [OF start(3)]
    from start show ?thesis using s by (auto intro!: keep simp: session_inv_transmitted tr)
  next
    case (rx_record r rs pick goon s')
    have i: "session_inv s'"
      using deliver_inv [OF _ rx_record(3)] s by simp
    show ?thesis using rx_record(3)
    proof (cases rule: deliver_spec)
      case (1 out ctl)
      then have "sDone s' = sDone (ySess y)" "sClosed s' = sClosed (ySess y)" by simp_all
      then show ?thesis using inv rx_record(1,2) i by (simp add: resources_inv_def)
    qed
  next
    case (rx_data h payload answer)
    then show ?thesis using inv s session_inv_after_ack by (simp add: resources_inv_def)
  next
    case (rx_exits s' e)
    then show ?thesis using inv s by (auto simp: resources_inv_def rx_exit_def Session_fail_fields)
  next
    case (close_failed e t answer)
    then show ?thesis using inv s by (auto simp: resources_inv_def Session_Close_fields)
  next
    case (close_open answer)
    then show ?thesis using s by (auto intro!: keep' simp: Session_Close_fields)
  next
    case (send payload k s' t)
    note tr = transmitted_simps [OF send(3)]
    from send show ?thesis using s by (auto intro!: keep simp: session_inv_transmitted tr)
  next
    case (retransmit pkt want sched k s' t)
    note tr = transmitted_simps [OF retransmit(3)]
    from retransmit show ?thesis using s by (auto intro!: keep simp: session_inv_transmitted tr)
  next
    case (tick s')
    note tr = transmitted_simps [OF tick(3)]
    from tick show ?thesis using s by (auto intro!: keep' simp: session_inv_transmitted tr)
  next
    case (ack pkt want sched k got rest t)
    then show ?thesis using inv session_inv_drop(2) [OF s] by (auto simp: resources_inv_def)
  next
    case (skip priv pub cp rest)
    then show ?thesis using inv session_inv_drop(3) [OF s] by (auto simp: resources_inv_def)
  next
    case (salt priv pub cp rest t)
    then show ?thesis using inv session_inv_drop(3) [OF s] by (auto simp: resources_inv_def)
  next
    case (finished cp rest)
    then show ?thesis using inv session_inv_drop(4) [OF s] by (auto simp: resources_inv_def)
  next
    case (keygen t)
    then show ?thesis using inv by (auto simp: resources_inv_def)
  qed (use inv s session_inv_drop in \<open>auto simp: resources_inv_def\<close>)
qed

lemma resources_reach:
  assumes "reach P s0 y" and "session_inv s0" and "\<not> sDone s0"
  shows "resources_inv y"
  using assms(1)
proof (induction rule: reach_induct)
  case init
  then show ?case using assms(2,3) by (simp add: resources_inv_def sys_init_def)
next
  case (rule y y')
  then show ?case by (blast intro: resources_step)
qed

subsection \<open>The abstract handshake\<close>

text \<open>
  What the handshake promises, without counters, channels and retransmissions: phases in
  order, and a record of what has been passed on the way.
\<close>

datatype phase = Starting | Greeting | Challenged | Answering | Verifying | Established | Failed | Crashed

inductive proto_step :: "phase \<times> passed list \<Rightarrow> phase \<times> passed list \<Rightarrow> bool" where
  greet: "proto_step (Starting, ps) (Greeting, ps)"
| greeted: "proto_step (Greeting, ps) (Challenged, ps @ [InitAcked])"
| answer: "n = 16 \<or> n = 49 \<Longrightarrow> proto_step (Challenged, ps) (Answering, ps @ [SaltTaken n])"
| answered: "proto_step (Answering, ps) (Verifying, ps @ [FinishAcked])"
| accepted: "proto_step (Verifying, ps) (Established, ps @ [EndAuthTaken])"
| failed: "p \<notin> {Established, Failed, Crashed} \<Longrightarrow> proto_step (p, ps) (Failed, ps @ qs)"
| crashed: "p \<in> {Starting, Challenged} \<Longrightarrow> proto_step (p, ps) (Crashed, ps @ qs)"

inductive proto_reach :: "phase \<times> passed list \<Rightarrow> bool" where
  proto_init: "proto_reach (Starting, [])"
| proto_more: "proto_reach a \<Longrightarrow> proto_step a b \<Longrightarrow> proto_reach b"

inductive_cases proto_stepE: "proto_step a (p, ps)"

definition phase_inv :: "phase \<times> passed list \<Rightarrow> bool" where
  "phase_inv a = (case a of
       (Starting, ps) \<Rightarrow> ps = []
     | (Greeting, ps) \<Rightarrow> ps = []
     | (Challenged, ps) \<Rightarrow> ps = [InitAcked]
     | (Answering, ps) \<Rightarrow> ps \<in> {[InitAcked, SaltTaken 16], [InitAcked, SaltTaken 49]}
     | (Verifying, ps) \<Rightarrow> ps \<in> {[InitAcked, SaltTaken 16, FinishAcked], [InitAcked, SaltTaken 49, FinishAcked]}
     | (Established, ps) \<Rightarrow> ps \<in> {[InitAcked, SaltTaken 16, FinishAcked, EndAuthTaken],
                                [InitAcked, SaltTaken 49, FinishAcked, EndAuthTaken]}
     | _ \<Rightarrow> True)"

lemma proto_reach_inv: "proto_reach a \<Longrightarrow> phase_inv a"
proof (induction rule: proto_reach.induct)
  case (proto_more a b)
  from proto_more(2,3) show ?case by cases (auto simp: phase_inv_def)
qed (simp add: phase_inv_def)

text \<open>The abstraction of a state, and the simulation.\<close>

fun cont_phase :: "cont \<Rightarrow> phase" where
  "cont_phase (CInit priv pub) = Greeting"
| "cont_phase CFinish = Answering"
| "cont_phase CUser = Established"

fun phase_of :: "task \<Rightarrow> phase" where
  "phase_of TStart = Starting"
| "phase_of TKeygen = Starting"
| "phase_of (TDrain payload k) = cont_phase k"
| "phase_of (TSend payload k) = cont_phase k"
| "phase_of (TWait pkt want sched k) = cont_phase k"
| "phase_of (TAwaitSalt priv pub) = Challenged"
| "phase_of TAwaitEnd = Verifying"
| "phase_of (TReady r) = Established"
| "phase_of (TFail e) = Failed"
| "phase_of (TClosing e) = Failed"
| "phase_of (TReturned e) = Failed"
| "phase_of TPanic = Crashed"

definition abs_of :: "sys \<Rightarrow> phase \<times> passed list" where
  "abs_of y = (phase_of (yTask y), yPassed y)"

lemma opened_phase: "opened t \<longleftrightarrow> phase_of t = Established"
proof -
  have "cont_phase k = Established \<longleftrightarrow> k = CUser" for k by (cases k) simp_all
  then show ?thesis by (cases t) simp_all
qed

lemma proto_failed: "p \<notin> {Established, Failed, Crashed} \<Longrightarrow> proto_step (p, ps) (Failed, ps)"
  using proto_step.failed [of p ps "[]"] by simp

lemma after_send_error_phase:
  "phase_of (after_send k (Some e)) = cont_phase k \<or> proto_step (cont_phase k, ps) (phase_of (after_send k (Some e)), ps)"
  by (cases k) (simp_all add: after_send_def proto_failed)

lemma after_send_ok_phase:
  "cont_phase k = phase_of (after_send k None) \<and> passes (after_send k None) = []
    \<or> proto_step (cont_phase k, ps) (phase_of (after_send k None), ps @ passes (after_send k None))"
  by (cases k) (simp_all add: after_send_def passes_def proto_step.greeted proto_step.answered)

lemma abs_of_session [simp]: "abs_of (y\<lparr>ySess := s\<rparr>) = abs_of y"
  by (simp add: abs_of_def)

lemma simulation:
  assumes "sys_rule P y y'"
  shows "abs_of y' = abs_of y \<or> proto_step (abs_of y) (abs_of y')"
  using assms
proof (cases rule: sys_rule.cases)
  case (start s' t)
  then show ?thesis by (auto simp: abs_of_def proto_failed)
next
  case (keygen t)
  then show ?thesis
    using proto_step.crashed [of Starting "yPassed y" "[]"] by (auto simp: abs_of_def proto_failed proto_step.greet)
next
  case (send payload k s' t)
  then show ?thesis using after_send_error_phase [of k _ "yPassed y"] by (auto simp: abs_of_def)
next
  case (ack pkt want sched k got rest t)
  then show ?thesis using after_send_ok_phase [of k "yPassed y"] by (auto simp: abs_of_def passes_def)
next
  case (retransmit pkt want sched k s' t)
  then show ?thesis using after_send_error_phase [of k _ "yPassed y"] by (auto simp: abs_of_def)
next
  case (interrupted pkt want sched k e)
  then show ?thesis using after_send_error_phase [of k _ "yPassed y"] by (auto simp: abs_of_def)
next
  case (salt priv pub cp rest t)
  have c: "proto_step (Challenged, ps) (Crashed, ps @ qs)" "proto_step (Challenged, ps) (Failed, ps @ qs)" for ps qs
    by (simp_all add: proto_step.crashed proto_step.failed)
  from salt show ?thesis using c by (auto simp: abs_of_def intro: proto_step.answer)
next
  case (finished cp rest)
  then show ?thesis by (simp add: abs_of_def proto_step.accepted)
next
  case (gave_up priv pub e)
  then show ?thesis by (auto simp: abs_of_def proto_failed)
qed (auto simp: abs_of_def rx_exit_def)

lemma reach_abstract: "reach P s0 y \<Longrightarrow> proto_reach (abs_of y)"
proof (induction rule: reach_induct)
  case init
  then show ?case by (simp add: abs_of_def sys_init_def proto_reach.proto_init)
next
  case (rule y y')
  then show ?case using simulation [OF rule.hyps(2)] proto_reach.proto_more rule.IH by metis
qed

subsection \<open>Terminal mode and acknowledgements\<close>

text \<open>
  Terminal mode is on exactly when the handshake has succeeded, and nothing reaches the
  reader before; every ACK in the channel was heard since the last drain.
\<close>

definition terminal_inv :: "sys \<Rightarrow> bool" where
  "terminal_inv y \<longleftrightarrow> (sTerminalMode (ySess y) = opened (yTask y))
    \<and> (\<not> sTerminalMode (ySess y) \<longrightarrow> sRxPipe (ySess y) = [])
    \<and> set (sAckCh (ySess y)) \<subseteq> set (yHeard y)"

lemma opened_after_send [simp]: "opened (after_send k (Some e)) = (k = CUser)" "opened (after_send k None) = (k = CUser)"
  by (cases k; simp add: after_send_def)+

lemma terminal_keep:
  assumes "terminal_inv y" and "sTerminalMode s' = sTerminalMode (ySess y)" and "sRxPipe s' = sRxPipe (ySess y)"
    and "set (sAckCh s') \<subseteq> set (sAckCh (ySess y))" and "opened (yTask z) = opened (yTask y)"
    and "ySess z = s'" and "yHeard z = yHeard y"
  shows "terminal_inv z"
  using assms by (auto simp: terminal_inv_def)

lemma terminal_step:
  assumes inv: "terminal_inv y" and "sys_rule P y y'"
  shows "terminal_inv y'"
  using assms(2)
proof (cases rule: sys_rule.cases)
  case (start s' t)
  from start show ?thesis by (intro terminal_keep [OF inv, of s']) (auto simp: transmitted_simps [OF start(3)])
next
  case (keygen t)
  then show ?thesis by (intro terminal_keep [OF inv refl refl]) auto
next
  case (drain payload k)
  then show ?thesis using inv by (simp add: terminal_inv_def)
next
  case (send payload k s' t)
  from send show ?thesis by (intro terminal_keep [OF inv, of s']) (auto simp: transmitted_simps [OF send(3)])
next
  case (ack pkt want sched k got rest t)
  from ack show ?thesis by (intro terminal_keep [OF inv, of "(ySess y)\<lparr>sAckCh := rest\<rparr>"]) auto
next
  case (retransmit pkt want sched k s' t)
  from retransmit show ?thesis by (intro terminal_keep [OF inv, of s']) (auto simp: transmitted_simps [OF retransmit(3)])
next
  case (interrupted pkt want sched k e)
  then show ?thesis by (intro terminal_keep [OF inv refl refl]) auto
next
  case (skip priv pub cp rest)
  then show ?thesis using inv by (simp add: terminal_inv_def)
next
  case (salt priv pub cp rest t)
  then show ?thesis by (intro terminal_keep [OF inv, of "(ySess y)\<lparr>sControlCh := rest\<rparr>"]) auto
next
  case (finished cp rest)
  then show ?thesis using inv by (simp add: terminal_inv_def)
next
  case (gave_up priv pub e)
  then show ?thesis by (intro terminal_keep [OF inv refl refl]) auto
next
  case (operation r payload)
  then show ?thesis by (intro terminal_keep [OF inv refl refl]) auto
next
  case (close_failed e t answer)
  then show ?thesis by (intro terminal_keep [OF inv, of "Session_Close (ySess y) answer"]) (auto simp: Session_Close_fields)
next
  case (returned e)
  then show ?thesis by (intro terminal_keep [OF inv refl refl]) auto
next
  case (close_open answer)
  then show ?thesis by (intro terminal_keep [OF inv, of "Session_Close (ySess y) answer"]) (auto simp: Session_Close_fields)
next
  case (rx_exits s' e)
  then show ?thesis
    by (intro terminal_keep [OF inv, of "rxLoop_exit s'"]) (auto simp: rx_exit_def Session_fail_fields)
next
  case (rx_ack c)
  then show ?thesis using inv acks.offer_set [of "ySess y" c] by (auto simp: terminal_inv_def)
next
  case (rx_data h payload answer)
  then show ?thesis using inv by (simp add: terminal_inv_def)
next
  case (rx_record r rs pick goon s')
  from rx_record(3) show ?thesis
  proof (cases rule: deliver_spec)
    case (1 out ctl)
    then show ?thesis using inv rx_record(1) by (cases "out = []") (simp_all add: terminal_inv_def)
  qed
next
  case (tick s')
  then show ?thesis by (intro terminal_keep [OF inv, of s']) (auto simp: transmitted_simps [OF tick(3)])
qed (use inv in \<open>simp_all add: terminal_inv_def\<close>)

lemma terminal_reach:
  assumes "reach P s0 y" and "\<not> sTerminalMode s0" and "sRxPipe s0 = []" and "sAckCh s0 = []"
  shows "terminal_inv y"
  using assms(1)
proof (induction rule: reach_induct)
  case init
  then show ?case using assms(2-4) by (simp add: terminal_inv_def sys_init_def)
next
  case (rule y y')
  then show ?case by (blast intro: terminal_step)
qed

end
