(* ===== verification/System_Wire.thy ===== *)
theory System_Wire
  imports System_Facts
begin

text \<open>
  Everything a session puts on the wire, over its whole life: control datagrams of its own
  making, and for each operation a run of copies of one DATA datagram, the operations one
  after the other at consecutive counters.
\<close>

section \<open>The invariant\<close>

definition is_data :: "byte list \<Rightarrow> bool" where
  "is_data d \<longleftrightarrow> d ! 1 = pTypeData"

definition client_header :: "session \<Rightarrow> byte list \<Rightarrow> bool" where
  "client_header s d \<longleftrightarrow> (\<exists>t c. t \<in> {pTypeSessionStart, pTypeAck, pTypeEnd}
     \<and> d = header_wire (session_header s t c) DirToServer)"

definition op_datagram :: "session \<Rightarrow> u32 \<times> byte list \<Rightarrow> byte list" where
  "op_datagram s op = (case op of (c, payload) \<Rightarrow> header_wire (session_header s pTypeData c) DirToServer @ payload)"

fun consecutive :: "u32 \<Rightarrow> (u32 \<times> byte list) list \<Rightarrow> bool" where
  "consecutive c [] = True"
| "consecutive c ((c', payload) # ops) \<longleftrightarrow> c' = c \<and> consecutive (c + of_nat (length payload)) ops"

definition op_bytes :: "(u32 \<times> byte list) list \<Rightarrow> nat" where
  "op_bytes ops = sum_list (map (length \<circ> snd) ops)"

text \<open>At most one transmission per wait of the longer schedule, and one more.\<close>

definition max_copies :: "schedules \<Rightarrow> nat" where
  "max_copies cfg = Suc (max (length (authSchedule cfg)) (length (dataSchedule cfg)))"

definition copies :: "session \<Rightarrow> nat list \<Rightarrow> (u32 \<times> byte list) list \<Rightarrow> byte list list" where
  "copies s ns ops = concat (map2 (\<lambda>n op. replicate n (op_datagram s op)) ns ops)"

definition pending :: "params \<Rightarrow> session \<Rightarrow> sys \<Rightarrow> nat list \<Rightarrow> bool" where
  "pending P s0 y ns = (case yTask y of
      TWait pkt want sched k \<Rightarrow> sched \<noteq> [] \<and> yOps y \<noteq> [] \<and> pkt = op_datagram s0 (last (yOps y))
        \<and> want = fst (last (yOps y)) + of_nat (length (snd (last (yOps y))))
        \<and> last ns + length sched \<le> max_copies (pCfg P)
    | _ \<Rightarrow> True)"

definition wire_inv :: "params \<Rightarrow> session \<Rightarrow> sys \<Rightarrow> bool" where
  "wire_inv P s0 y \<longleftrightarrow> (\<exists>ds ns. emits s0 ds (ySess y)
     \<and> (\<forall>d \<in> set ds. is_data d \<or> client_header s0 d)
     \<and> length ns = length (yOps y) \<and> (\<forall>n \<in> set ns. 1 \<le> n \<and> n \<le> max_copies (pCfg P))
     \<and> filter is_data ds = copies s0 ns (yOps y)
     \<and> consecutive (ctOut (sCounters s0)) (yOps y)
     \<and> ctOut (sCounters (ySess y)) = ctOut (sCounters s0) + of_nat (op_bytes (yOps y))
     \<and> pending P s0 y ns)"

section \<open>Its parts under a step\<close>

lemma is_data_wire: "is_data (header_wire h dir @ rest) \<longleftrightarrow> hPType h = pTypeData"
  by (simp add: is_data_def header_wire_def)

lemma is_data_op: "is_data (op_datagram s op)"
  by (cases op) (simp add: op_datagram_def is_data_wire session_header_def)

lemma client_header_not_data: "client_header s d \<Longrightarrow> \<not> is_data d"
  using is_data_wire [of _ _ "[]"] by (auto simp: client_header_def session_header_def pType_defs)

lemma session_header_emits: "emits s0 ds s \<Longrightarrow> session_header s t c = session_header s0 t c"
  by (simp add: emits_def session_header_def)

lemma data_datagram_op: "emits s0 ds s \<Longrightarrow> data_datagram s payload = op_datagram s0 (ctOut (sCounters s), payload)"
  by (simp add: data_datagram_def op_datagram_def session_header_emits)

lemma client_header_emits: "emits s0 ds s \<Longrightarrow> client_header s d = client_header s0 d"
  by (simp add: client_header_def session_header_emits)

lemma consecutive_append:
  "consecutive c (ops @ [(c', p)]) \<longleftrightarrow> consecutive c ops \<and> c' = c + of_nat (op_bytes ops)"
  by (induction c ops rule: consecutive.induct) (auto simp: op_bytes_def add.assoc)

lemma copies_append:
  "length ns = length ops \<Longrightarrow> copies s (ns @ [n]) (ops @ [op]) = copies s ns ops @ replicate n (op_datagram s op)"
  by (simp add: copies_def)

lemma copies_again:
  assumes "length ns = length ops" and "ops \<noteq> []"
  shows "copies s (butlast ns @ [Suc (last ns)]) ops = copies s ns ops @ [op_datagram s (last ops)]"
proof -
  have ns: "ns \<noteq> []" using assms by auto
  have "copies s (butlast ns @ [m]) (butlast ops @ [last ops])
      = copies s (butlast ns) (butlast ops) @ replicate m (op_datagram s (last ops))" for m
    using assms by (intro copies_append) simp
  from this [of "Suc (last ns)"] this [of "last ns"] show ?thesis
    using assms ns by (simp add: replicate_append_same)
qed

lemma after_send_not_wait [simp]:
  "after_send k r \<noteq> TWait pkt want sched k'" "TWait pkt want sched k' \<noteq> after_send k r"
  by (cases k; cases r; simp add: after_send_def)+

text \<open>Steps that transmit no DATA and begin no operation.\<close>

lemma wire_control_step:
  assumes inv: "wire_inv P s0 y" and e: "emits (ySess y) hs (ySess y')" and h: "\<forall>d \<in> set hs. client_header (ySess y) d"
    and "ctOut (sCounters (ySess y')) = ctOut (sCounters (ySess y))" and "yOps y' = yOps y"
    and t: "yTask y' = yTask y \<or> (\<forall>pkt want sched k. yTask y' \<noteq> TWait pkt want sched k)"
  shows "wire_inv P s0 y'"
proof -
  obtain ds ns where ds: "emits s0 ds (ySess y)" "\<forall>d \<in> set ds. is_data d \<or> client_header s0 d"
      "length ns = length (yOps y)" "\<forall>n \<in> set ns. 1 \<le> n \<and> n \<le> max_copies (pCfg P)"
      "filter is_data ds = copies s0 ns (yOps y)" "consecutive (ctOut (sCounters s0)) (yOps y)"
      "ctOut (sCounters (ySess y)) = ctOut (sCounters s0) + of_nat (op_bytes (yOps y))" "pending P s0 y ns"
    using inv unfolding wire_inv_def by blast
  have h0: "\<forall>d \<in> set hs. client_header s0 d" using h client_header_emits [OF ds(1)] by simp
  then have "filter is_data hs = []" using client_header_not_data by (auto simp: filter_empty_conv)
  then have "filter is_data (ds @ hs) = copies s0 ns (yOps y)" using ds(5) by simp
  moreover have "pending P s0 y' ns"
    using t
  proof
    assume same: "yTask y' = yTask y"
    show ?thesis using ds(8) unfolding pending_def same assms(5) .
  next
    assume "\<forall>pkt want sched k. yTask y' \<noteq> TWait pkt want sched k"
    then show ?thesis unfolding pending_def by (auto split: task.splits)
  qed
  ultimately show ?thesis
    unfolding wire_inv_def using emits_trans [OF ds(1) e] ds h0 assms(4,5)
    by (intro exI [of _ "ds @ hs"] exI [of _ ns]) auto
qed

lemma wire_send_step:
  assumes inv: "wire_inv P s0 y" and e: "emits (ySess y) [data_datagram (ySess y) payload] (ySess y')"
    and c: "ctOut (sCounters (ySess y')) = ctOut (sCounters (ySess y)) + of_nat (length payload)"
    and ops: "yOps y' = yOps y @ [(ctOut (sCounters (ySess y)), payload)]"
    and t: "(\<forall>pkt want sched k. yTask y' \<noteq> TWait pkt want sched k)
      \<or> schedule_for (pCfg P) (ySess y) \<noteq> []
        \<and> yTask y' = TWait (data_datagram (ySess y) payload) (ctOut (sCounters (ySess y)) + of_nat (length payload))
            (schedule_for (pCfg P) (ySess y)) k"
  shows "wire_inv P s0 y'"
proof -
  obtain ds ns where ds: "emits s0 ds (ySess y)" "\<forall>d \<in> set ds. is_data d \<or> client_header s0 d"
      "length ns = length (yOps y)" "\<forall>n \<in> set ns. 1 \<le> n \<and> n \<le> max_copies (pCfg P)"
      "filter is_data ds = copies s0 ns (yOps y)" "consecutive (ctOut (sCounters s0)) (yOps y)"
      "ctOut (sCounters (ySess y)) = ctOut (sCounters s0) + of_nat (op_bytes (yOps y))"
    using inv unfolding wire_inv_def by blast
  let ?d = "data_datagram (ySess y) payload" and ?op = "(ctOut (sCounters (ySess y)), payload)"
  have d: "?d = op_datagram s0 ?op" by (rule data_datagram_op [OF ds(1)])
  have "length (schedule_for (pCfg P) (ySess y)) \<le> max (length (authSchedule (pCfg P))) (length (dataSchedule (pCfg P)))"
    by (simp add: schedule_for_def)
  then have "pending P s0 y' (ns @ [1])"
    using t ops d by (cases "yTask y'") (auto simp: pending_def max_copies_def)
  moreover have "filter is_data (ds @ [?d]) = copies s0 (ns @ [1]) (yOps y')"
    using ds(3,5) by (simp add: d is_data_op ops copies_append)
  moreover have "consecutive (ctOut (sCounters s0)) (yOps y')"
    using ds(6,7) by (simp add: ops consecutive_append)
  moreover have "ctOut (sCounters (ySess y')) = ctOut (sCounters s0) + of_nat (op_bytes (yOps y'))"
    using c ds(7) by (simp add: ops op_bytes_def)
  moreover have "\<forall>n \<in> set (ns @ [1]). 1 \<le> n \<and> n \<le> max_copies (pCfg P)"
    using ds(4) by (auto simp: max_copies_def)
  ultimately show ?thesis
    unfolding wire_inv_def using emits_trans [OF ds(1) e] ds(2,3) ops d is_data_op
    by (intro exI [of _ "ds @ [?d]"] exI [of _ "ns @ [1]"]) auto
qed

lemma wire_retransmit_step:
  assumes inv: "wire_inv P s0 y" and w: "yTask y = TWait pkt want sched k" and e: "emits (ySess y) [pkt] (ySess y')"
    and c: "ctOut (sCounters (ySess y')) = ctOut (sCounters (ySess y))" and ops: "yOps y' = yOps y"
    and t: "(\<forall>pkt want sched k. yTask y' \<noteq> TWait pkt want sched k) \<or> tl sched \<noteq> [] \<and> yTask y' = TWait pkt want (tl sched) k"
  shows "wire_inv P s0 y'"
proof -
  obtain ds ns where ds: "emits s0 ds (ySess y)" "\<forall>d \<in> set ds. is_data d \<or> client_header s0 d"
      "length ns = length (yOps y)" "\<forall>n \<in> set ns. 1 \<le> n \<and> n \<le> max_copies (pCfg P)"
      "filter is_data ds = copies s0 ns (yOps y)" "consecutive (ctOut (sCounters s0)) (yOps y)"
      "ctOut (sCounters (ySess y)) = ctOut (sCounters s0) + of_nat (op_bytes (yOps y))" "pending P s0 y ns"
    using inv unfolding wire_inv_def by blast
  have p: "sched \<noteq> []" "yOps y \<noteq> []" "pkt = op_datagram s0 (last (yOps y))"
      "want = fst (last (yOps y)) + of_nat (length (snd (last (yOps y))))"
      "last ns + length sched \<le> max_copies (pCfg P)"
    using ds(8) w by (simp_all add: pending_def)
  let ?ns = "butlast ns @ [Suc (last ns)]"
  have ne: "ns \<noteq> []" using ds(3) p(2) by auto
  have "Suc (last ns) \<le> max_copies (pCfg P)" using p(1,5) by (cases sched) auto
  then have "\<forall>n \<in> set ?ns. 1 \<le> n \<and> n \<le> max_copies (pCfg P)"
    using ds(4) by (auto dest: in_set_butlastD)
  moreover have "pending P s0 y' ?ns"
    using t
  proof
    assume "\<forall>pkt want sched k. yTask y' \<noteq> TWait pkt want sched k"
    then show ?thesis unfolding pending_def by (auto split: task.splits)
  next
    assume "tl sched \<noteq> [] \<and> yTask y' = TWait pkt want (tl sched) k"
    moreover obtain d ds' where "sched = d # ds'" using p(1) by (cases sched) simp_all
    ultimately show ?thesis using p ops unfolding pending_def by simp
  qed
  moreover have "filter is_data (ds @ [pkt]) = copies s0 ?ns (yOps y')"
    using ds(3,5) p(2,3) by (simp add: is_data_op ops copies_again)
  moreover have "length ?ns = length (yOps y')" using ds(3) ne ops by (cases ns rule: rev_cases) auto
  moreover obtain ns' where "ns' = ?ns" by simp
  ultimately show ?thesis
    unfolding wire_inv_def using emits_trans [OF ds(1) e] ds(2,6,7) c ops p(3) is_data_op
    by (intro exI [of _ "ds @ [pkt]"] exI [of _ ns']) auto
qed

section \<open>The invariant holds\<close>

lemma quiet_control:
  assumes "wire_inv P s0 y" and "emits (ySess y) [] (ySess y')"
    and "ctOut (sCounters (ySess y')) = ctOut (sCounters (ySess y))" and "yOps y' = yOps y"
    and "yTask y' = yTask y \<or> (\<forall>pkt want sched k. yTask y' \<noteq> TWait pkt want sched k)"
  shows "wire_inv P s0 y'"
  by (rule wire_control_step [OF assms(1,2) _ assms(3-5)]) simp

lemma client_header_intro:
  "t \<in> {pTypeSessionStart, pTypeAck, pTypeEnd} \<Longrightarrow> client_header s (header_wire (session_header s t c) DirToServer)"
  by (auto simp: client_header_def)

lemma emits_Session_Close:
  "emits s [] (Session_Close s answer) \<or> (\<exists>d. client_header s d \<and> emits s [d] (Session_Close s answer))"
proof (cases rule: Session_Close_spec [of s answer])
  case 1
  then show ?thesis by auto
next
  case (2 s1)
  have "emits s [header_wire (session_header s pTypeEnd 0) DirToServer] (Session_Close s answer)"
    by (rule emits_update [OF emits_transmitted [OF 2(2)]]) (simp_all add: 2(3))
  then show ?thesis using client_header_intro [of pTypeEnd s 0] by blast
qed

lemma emits_Session_fail: "emits s [] (Session_fail s e)"
  by (auto simp: Session_fail_def Let_def ctx_cancel_def conn_Close_def sender_Close_def rxPipeW_Close_def
      split: option.splits)

lemma wire_close:
  assumes "wire_inv P s0 y" and "ySess y' = Session_Close (ySess y) answer" and "yOps y' = yOps y"
    and "yTask y' = yTask y \<or> (\<forall>pkt want sched k. yTask y' \<noteq> TWait pkt want sched k)"
  shows "wire_inv P s0 y'"
  using emits_Session_Close [of "ySess y" answer]
proof
  assume "emits (ySess y) [] (Session_Close (ySess y) answer)"
  then show ?thesis using quiet_control [OF assms(1) _ _ assms(3,4)] assms(2) by (simp add: Session_Close_fields)
next
  assume "\<exists>d. client_header (ySess y) d \<and> emits (ySess y) [d] (Session_Close (ySess y) answer)"
  then obtain d where "client_header (ySess y) d" "emits (ySess y) [d] (Session_Close (ySess y) answer)" by blast
  then show ?thesis using wire_control_step [OF assms(1) _ _ _ assms(3,4), of "[d]"] assms(2)
    by (simp add: Session_Close_fields)
qed

lemma wire_step:
  assumes inv: "wire_inv P s0 y" and "sys_rule P y y'"
  shows "wire_inv P s0 y'"
  using assms(2)
proof (cases rule: sys_rule.cases)
  case (start s' t)
  then show ?thesis
    by (intro wire_control_step [OF inv, of "[header_wire (session_header (ySess y) pTypeSessionStart 0) DirToServer]"])
      (auto simp: client_header_intro transmitted_simps [OF start(3)] intro!: emits_transmitted)
next
  case (keygen t)
  then show ?thesis by (intro quiet_control [OF inv]) auto
next
  case (drain payload k)
  then show ?thesis by (intro quiet_control [OF inv]) auto
next
  case (send payload k s' t)
  have e: "emits (ySess y) [data_datagram (ySess y) payload] s'"
    using emits_trans [OF _ emits_transmitted [OF send(3)], of "ySess y" "[]"]
    by (simp add: emits_nil advance_out_def)
  from send e show ?thesis
    by (intro wire_send_step [OF inv, of payload]) (auto simp: transmitted_simps [OF send(3)], auto simp: advance_out_def)
next
  case (ack pkt want sched k got rest t)
  then show ?thesis by (intro quiet_control [OF inv]) auto
next
  case (retransmit pkt want sched k s' t)
  have e: "emits (ySess y) [pkt] s'" by (rule emits_transmitted [OF retransmit(3)])
  from retransmit e show ?thesis
    by (intro wire_retransmit_step [OF inv retransmit(2)]) (auto simp: transmitted_simps [OF retransmit(3)])
next
  case (interrupted pkt want sched k e)
  then show ?thesis by (intro quiet_control [OF inv]) auto
next
  case (skip priv pub cp rest)
  then show ?thesis by (intro quiet_control [OF inv]) auto
next
  case (salt priv pub cp rest t)
  then show ?thesis by (intro quiet_control [OF inv]) auto
next
  case (finished cp rest)
  then show ?thesis by (intro quiet_control [OF inv]) auto
next
  case (gave_up priv pub e)
  then show ?thesis by (intro quiet_control [OF inv]) auto
next
  case (operation r payload)
  then show ?thesis by (intro quiet_control [OF inv]) auto
next
  case (close_failed e t answer)
  then show ?thesis by (intro wire_close [OF inv, of _ answer]) auto
next
  case (returned e)
  then show ?thesis by (intro quiet_control [OF inv]) auto
next
  case (close_open answer)
  then show ?thesis by (intro wire_close [OF inv, of _ answer]) auto
next
  case idle
  then show ?thesis using inv by simp
next
  case (ctx_ends e)
  then show ?thesis by (intro quiet_control [OF inv]) auto
next
  case (rx_exits s' e)
  have "emits (ySess y) [] (rxLoop_exit s')"
    using rx_exits(3) emits_update [OF emits_Session_fail [of "ySess y" e], of "rxLoop_exit s'"]
    by (auto simp: rxLoop_exit_def rxPipeW_Close_def)
  then show ?thesis using rx_exits
    by (intro quiet_control [OF inv]) (auto simp: rx_exit_def Session_fail_fields)
next
  case (rx_ack c)
  then show ?thesis by (intro quiet_control [OF inv]) (auto simp: ackCh_offer_def)
next
  case (rx_data h payload answer)
  have e: "emits (ySess y) [inbound_ack (ySess y) (hCounter h) (length payload)] (ySess y')"
    by (rule emits_update [OF emits_transmitted [OF after_ack_transmits]]) (simp_all add: rx_data)
  have "client_header (ySess y) (inbound_ack (ySess y) (hCounter h) (length payload))"
    by (simp add: inbound_ack_def client_header_intro)
  then show ?thesis using rx_data by (intro wire_control_step [OF inv e]) auto
next
  case (rx_record r rs pick goon s')
  from rx_record(3) show ?thesis
  proof (cases rule: deliver_spec)
    case (1 out ctl)
    then show ?thesis using rx_record(1) by (intro quiet_control [OF inv]) auto
  qed
next
  case (tick s')
  then show ?thesis
    by (intro wire_control_step [OF inv emits_transmitted, of "header_wire (session_header (ySess y) pTypeAck (ctOut (sCounters (ySess y)))) DirToServer"])
      (auto simp: client_header_intro transmitted_simps [OF tick(3)])
next
  case tick_ends
  then show ?thesis by (intro quiet_control [OF inv]) auto
qed

lemma wire_reach: "reach P s0 y \<Longrightarrow> wire_inv P s0 y"
proof (induction rule: reach_induct)
  case init
  have "emits s0 [] s0" by auto
  then show ?case unfolding wire_inv_def
    by (intro exI [of _ "[]"]) (simp add: sys_init_def copies_def op_bytes_def pending_def)
next
  case (rule y y')
  then show ?case by (blast intro: wire_step)
qed

end
