(* ===== verification/System_Properties.thy ===== *)
theory System_Properties
  imports System_Wire Session_Properties Mtwei_Sample
begin

text \<open>
  The properties of a session as a whole: the order of the handshake and what it implements,
  what goes on the wire over a session's life, that success means an acknowledgement, what
  a failed \<open>Open\<close> leaves behind, that the handshake completes with a cooperating device, and
  when the receive loop stalls.
\<close>

section \<open>A cooperating device\<close>

text \<open>A datagram from the device, read by the receive loop; the ACK it causes is sent.\<close>

definition device_header :: "session \<Rightarrow> pType \<Rightarrow> u32 \<Rightarrow> header" where
  "device_header s t c = \<lparr>hVersion = 1, hPType = t, hSrcAddr = sDstMAC s, hDstAddr = sSrcMAC s,
     hSessionKey = sSessionKey s, hCounter = c\<rparr>"

definition device_turn :: "session \<Rightarrow> pType \<Rightarrow> u32 \<Rightarrow> byte list \<Rightarrow> rx_turn" where
  "device_turn s t c payload =
    (let d = header_wire (device_header s t c) DirToClient @ payload
     in \<lparr>rtRead = ReadOk (length d) d, rtAnswer = None, rtPick = True\<rparr>)"

text \<open>One acknowledged transmission, and one control record handed to the handshake.\<close>

definition acked_send :: "session \<Rightarrow> u32 \<Rightarrow> label list" where
  "acked_send s want = [LDrain, LSend None, LRx (device_turn s pTypeAck want []), LAck]"

definition control_in :: "session \<Rightarrow> u32 \<Rightarrow> controlRecord \<Rightarrow> label list" where
  "control_in s c r = [LRx (device_turn s pTypeData c (control_wire r)), LDeliver True, LControl]"

definition cooperating_device :: "session \<Rightarrow> byte list \<Rightarrow> byte list \<Rightarrow> nat \<Rightarrow> nat \<Rightarrow> label list" where
  "cooperating_device s rand salt n1 n2 =
    [LStart None, LKeygen (Inr rand)] @ acked_send s (of_nat n1)
    @ control_in s 0 (rec_of cpTypePassSalt salt) @ acked_send s (of_nat n1 + of_nat n2)
    @ control_in s (9 + of_nat (length salt)) (rec_of cpTypeEndAuth [])"

definition at_rest :: "session \<Rightarrow> sys \<Rightarrow> bool" where
  "at_rest s0 y \<longleftrightarrow> yRx y = RxLoop \<and> sCtxErr (ySess y) = None \<and> sAckCh (ySess y) = [] \<and> sControlCh (ySess y) = []
     \<and> \<not> sTerminalMode (ySess y) \<and> sSessionKey (ySess y) = sSessionKey s0 \<and> sDstMAC (ySess y) = sDstMAC s0
     \<and> sSrcMAC (ySess y) = sSrcMAC s0"

lemma run_append: "run P y (ls @ ls') = (case run P y ls of None \<Rightarrow> None | Some y' \<Rightarrow> run P y' ls')"
  by (induction ls arbitrary: y) (auto split: option.splits)

lemma device_turn_read:
  "rtRead (device_turn s t c payload) = ReadOk (headerLen + length payload) (header_wire (device_header s t c) DirToClient @ payload)"
  "rtAnswer (device_turn s t c payload) = None"
  by (simp_all add: device_turn_def Let_def)

lemma device_decode:
  "decodeHeader (header_wire (device_header s t c) DirToClient @ payload) DirToClient = Inr (device_header s t c, payload)"
  by (simp add: decode_header_wire device_header_def)

lemma rx_ack_step:
  assumes "yRx y = RxLoop" and "sCtxErr (ySess y) = None" and "sSessionKey (ySess y) = sSessionKey s"
  shows "sys_next P y (LRx (device_turn s pTypeAck c []))
    = Some (y\<lparr>ySess := ackCh_offer (ySess y) c, yHeard := yHeard y @ [c]\<rparr>)"
proof -
  have d: "decodeHeader (header_wire (device_header s pTypeAck c) DirToClient) DirToClient = Inr (device_header s pTypeAck c, [])"
    using device_decode [of s pTypeAck c "[]"] by simp
  show ?thesis
    using assms by (simp add: sys_next_def rx_step_def Let_def device_turn_read d) (simp add: device_header_def)
qed

lemma acked_send_run:
  assumes "yTask y = TDrain payload k" and "at_rest s0 y" and "authSchedule (pCfg P) \<noteq> []"
  obtains y' y3 pkt sched where "run P y (acked_send s0 (ctOut (sCounters (ySess y)) + of_nat (length payload))) = Some y'"
    and "yTask y' = after_send k None" and "at_rest s0 y'" and "yOps y' = yOps y @ [(ctOut (sCounters (ySess y)), payload)]"
    and "sCounters (ySess y') = (sCounters (ySess y))\<lparr>ctOut := ctOut (sCounters (ySess y)) + of_nat (length payload)\<rparr>"
    and "run P y [LDrain, LSend None,
      LRx (device_turn s0 pTypeAck (ctOut (sCounters (ySess y)) + of_nat (length payload)) [])] = Some y3"
    and "yTask y3 = TWait pkt (ctOut (sCounters (ySess y)) + of_nat (length payload)) sched k"
    and "sys_next P y3 LAck = Some y'"
proof -
  define want where "want = ctOut (sCounters (ySess y)) + of_nat (length payload)"
  define s1 where "s1 = (ySess y)\<lparr>sAckCh := []\<rparr>"
  define y1 where "y1 = y\<lparr>yTask := TSend payload k, ySess := s1, yHeard := []\<rparr>"
  have y1: "sys_next P y LDrain = Some y1"
    using assms(1) by (simp add: sys_next_def task_step_def Let_def y1_def s1_def)
  obtain s2 where send: "session_Send (advance_out s1 (length payload)) (data_datagram s1 payload) None = (None, s2)"
    and tr: "transmitted (advance_out s1 (length payload)) (data_datagram s1 payload) 1 s2"
    using session_Send_cases [of "advance_out s1 (length payload)" "data_datagram s1 payload" None] by auto
  note trs = transmitted_simps [OF tr]
  have mode: "schedule_for (pCfg P) s2 = authSchedule (pCfg P)"
    using assms(2) by (simp add: schedule_for_def trs(5) at_rest_def s1_def)
  obtain d ds where sched: "authSchedule (pCfg P) = d # ds" using assms(3) by (cases "authSchedule (pCfg P)") simp_all
  have c1: "ctOut (sCounters s1) = ctOut (sCounters (ySess y))" by (simp add: s1_def)
  have ts: "task_send (pCfg P) s1 payload k None = (TWait (data_datagram s1 payload) want (d # ds) k, s2)"
    by (simp add: task_send_def data_packet_spec send mode sched want_def c1)
  define y2 where "y2 = y1\<lparr>yOps := yOps y @ [(ctOut (sCounters (ySess y)), payload)],
      yTask := TWait (data_datagram s1 payload) want (d # ds) k, ySess := s2\<rparr>"
  have y2: "sys_next P y1 (LSend None) = Some y2"
    by (simp add: sys_next_def task_step_def Let_def y1_def y2_def ts c1 move_task_def passes_def)
  have s2: "sAckCh s2 = []" "sCtxErr s2 = None" "sSessionKey s2 = sSessionKey s0" "sDstMAC s2 = sDstMAC s0"
      "sSrcMAC s2 = sSrcMAC s0" "sControlCh s2 = []" "\<not> sTerminalMode s2"
    using assms(2) by (simp_all add: trs at_rest_def) (simp_all add: advance_out_def s1_def)
  define y3 where "y3 = y2\<lparr>ySess := s2\<lparr>sAckCh := [want]\<rparr>, yHeard := yHeard y2 @ [want]\<rparr>"
  have r2: "yRx y2 = RxLoop" using assms(2) by (simp add: y2_def y1_def at_rest_def)
  have y3: "sys_next P y2 (LRx (device_turn s0 pTypeAck want [])) = Some y3"
    using rx_ack_step [of y2 s0 P want] r2 s2 by (simp add: y2_def y3_def ackCh_offer_def ackChCap_def)
  define y4 where "y4 = y3\<lparr>yTask := after_send k None, ySess := s2\<lparr>sAckCh := []\<rparr>,
      yPassed := yPassed y @ passes (after_send k None)\<rparr>"
  have y4: "sys_next P y3 LAck = Some y4"
    by (simp add: sys_next_def task_step_def Let_def y4_def y3_def y2_def y1_def task_ack_def move_task_def)
  have "run P y (acked_send s0 want) = Some y4"
    by (simp add: acked_send_def y1 y2 y3 y4)
  moreover have "at_rest s0 y4"
    using s2 r2 by (simp add: at_rest_def y4_def y3_def)
  moreover have "sCounters s2 = (sCounters (ySess y))\<lparr>ctOut := want\<rparr>"
    by (simp add: trs) (simp add: advance_out_def s1_def want_def)
  ultimately show ?thesis
    using that [of y4 y3 "data_datagram s1 payload" "d # ds"] y1 y2 y3 y4
    by (simp add: want_def y4_def y3_def y2_def y1_def)
qed

lemma control_in_run:
  assumes "at_rest s0 y" and "crCPType r \<noteq> cpTypePlainData" and "length (crBody r) < 2 ^ 31"
    and "fst (acceptIncoming (sCounters (ySess y)) c)"
  obtains y' s2 where "run P y (control_in s0 c r) = task_step P y' LControl"
    and "y' = y\<lparr>ySess := s2\<rparr>" and "sControlCh s2 = [\<lparr>cpCpt = crCPType r, cpBody = crBody r\<rparr>]"
    and "at_rest s0 (y\<lparr>ySess := s2\<lparr>sControlCh := []\<rparr>\<rparr>)"
    and "sCounters s2 = (sCounters (ySess y))\<lparr>ctInSeen := True, ctIn := c\<rparr>"
proof -
  let ?h = "device_header s0 pTypeData c"
  define s1 where "s1 = (after_ack (ySess y) ?h (control_wire r) None)\<lparr>sCounters := snd (acceptIncoming (sCounters (ySess y)) c)\<rparr>"
  have c: "snd (acceptIncoming (sCounters (ySess y)) c) = (sCounters (ySess y))\<lparr>ctInSeen := True, ctIn := c\<rparr>"
    using assms(4) acceptIncoming_True [of "sCounters (ySess y)" c "snd (acceptIncoming (sCounters (ySess y)) c)"]
    by (simp add: prod_eq_iff)
  have recs: "controlRecords (control_wire r) = [r]"
    using controlRecords_wire [of r "[]"] assms(2,3) by simp
  obtain rs s1' where b: "begin_inbound (ySess y) ?h (control_wire r) None = (rs, s1')" by fastforce
  note bi = begin_inbound_spec [OF b]
  have hc: "hCounter ?h = c" "hSessionKey ?h = sSessionKey s0" "hPType ?h = pTypeData"
    by (simp_all add: device_header_def)
  define y1 where "y1 = y\<lparr>ySess := s1, yRx := RxRecords [r]\<rparr>"
  have b1: "begin_inbound (ySess y) ?h (control_wire r) None = ([r], s1)"
    using b bi assms(4) by (simp add: hc recs s1_def)
  have "pTypeData \<noteq> pTypeAck" by (simp add: pType_defs)
  then have y1: "sys_next P y (LRx (device_turn s0 pTypeData c (control_wire r))) = Some y1"
    using assms(1) b1 by (simp add: sys_next_def rx_step_def Let_def device_turn_read device_decode hc at_rest_def
        y1_def rx_pc_of_def)
  define s2 where "s2 = s1\<lparr>sControlCh := [\<lparr>cpCpt = crCPType r, cpBody = crBody r\<rparr>]\<rparr>"
  define y2 where "y2 = y\<lparr>ySess := s2\<rparr>"
  have s1: "sControlCh s1 = []" "sCtxErr s1 = None"
    using assms(1) by (simp_all add: s1_def at_rest_def)
  have rx: "yRx y = RxLoop" using assms(1) by (simp add: at_rest_def)
  have "deliver True (Some s1) r = (True, Some s2)"
    using assms(2) s1 by (simp add: deliver_def controlChCap_def s2_def)
  then have y2: "sys_next P y1 (LDeliver True) = Some y2"
    using rx by (simp add: sys_next_def deliver_step_def y1_def y2_def rx_pc_of_def)
  have "sys_next P y2 LControl = task_step P y2 LControl" by (simp add: sys_next_def)
  then have "run P y (control_in s0 c r) = task_step P y2 LControl"
    by (simp add: control_in_def y1 y2 split: option.splits)
  moreover have "at_rest s0 (y\<lparr>ySess := s2\<lparr>sControlCh := []\<rparr>\<rparr>)"
    using assms(1) by (simp add: at_rest_def s2_def s1_def)
  ultimately show ?thesis
    using that [of y2 s2] c by (simp add: y2_def s2_def s1_def)
qed

lemma salt_response_sizes:
  assumes "salt_response user pw priv pub salt = Ret (Inr resp)"
  shows "length resp \<le> 33"
proof (cases "length salt = md5SaltLen")
  case True
  then show ?thesis using assms by (auto simp: salt_response_def computeMD5Response_eq)
next
  case False
  then obtain key v r where "mtwei_docrypto newMtweiState priv key pub v = Ret r"
    and "(case r of Inl e \<Rightarrow> False | Inr b \<Rightarrow> b = resp)"
    using assms by (auto simp: salt_response_def Let_def split: if_splits) (auto split: sum.splits)
  then show ?thesis using mikrotik.docrypto_length [of priv key pub v resp] by (auto split: sum.splits)
qed

lemma task_keygen_ok:
  assumes "mtwei_keygen newMtweiState (Inr rand :: err + byte list) None = Ret (Inr (priv, pub))"
    and "length user \<le> 1382"
  shows "length pub = 33"
    and "task_keygen user (Inr rand) = TDrain (concat (map control_wire (auth_init_records user pub))) (CInit priv pub)"
proof -
  show l: "length pub = 33"
    by (rule mikrotik.keygen_length [OF assms(1)])
  show "task_keygen user (Inr rand) = TDrain (concat (map control_wire (auth_init_records user pub))) (CInit priv pub)"
    using assms l auth_init_length [of user pub]
    by (simp add: task_keygen_def buildAuthInit_emits emit_records_at_0 payloadBuf_def maxPacket_def headerLen_def Let_def)
qed

lemma task_salt_ok:
  assumes "salt_response user pw priv pub salt = Ret (Inr resp)" and "length user \<le> 1382"
  shows "task_salt user pw cols rows priv pub salt = TDrain (concat (map control_wire
      (auth_finish_records resp (bytes_of_string user) (bytes_of_string defaultTermType) cols rows))) CFinish"
  using assms salt_response_sizes [OF assms(1)]
    auth_finish_length [of resp "bytes_of_string user" "bytes_of_string defaultTermType" cols rows]
  by (simp add: task_salt_def buildAuthFinish_emits emit_records_at_0 payloadBuf_def maxPacket_def headerLen_def Let_def
      defaultTermType_def)

lemma first_steps:
  assumes "s0 = new_session sender src dst key"
    and "mtwei_keygen newMtweiState (Inr rand :: err + byte list) None = Ret (Inr (priv, pub))"
    and "length (pUsername P) \<le> 1382"
  obtains y where "run P (sys_init s0) [LStart None, LKeygen (Inr rand)] = Some y"
    and "yTask y = TDrain (concat (map control_wire (auth_init_records (pUsername P) pub))) (CInit priv pub)"
    and "at_rest s0 y" and "sCounters (ySess y) = zero_counters" and "yOps y = []" and "yPassed y = []"
proof -
  let ?i = "concat (map control_wire (auth_init_records (pUsername P) pub))"
  note key = task_keygen_ok [OF assms(2,3)]
  obtain s1 where st: "session_Send s0 (header_datagram (session_header s0 pTypeSessionStart 0)) None = (None, s1)"
    and tr: "transmitted s0 (header_datagram (session_header s0 pTypeSessionStart 0)) 1 s1"
    using session_Send_cases [of s0 "header_datagram (session_header s0 pTypeSessionStart 0)" None] by auto
  define y2 where "y2 = (sys_init s0)\<lparr>yTask := TDrain ?i (CInit priv pub), ySess := s1\<rparr>"
  have "run P (sys_init s0) [LStart None, LKeygen (Inr rand)] = Some y2"
    by (simp add: sys_next_def task_step_def Let_def sys_init_def task_sessionstart_def sendSessionStart_def st
        move_task_def passes_def key(2) y2_def)
  moreover have "at_rest s0 y2"
    using transmitted_simps [OF tr] by (simp add: at_rest_def y2_def sys_init_def assms(1) new_session_def)
  moreover have "sCounters (ySess y2) = zero_counters"
    using transmitted_simps [OF tr] by (simp add: y2_def assms(1) new_session_def)
  ultimately show ?thesis using that [of y2] by (simp add: y2_def sys_init_def)
qed

text \<open>The run with a device that acknowledges, sends a challenge and accepts.\<close>

lemma handshake_run:
  assumes "s0 = new_session sender src dst key" and "authSchedule (pCfg P) \<noteq> []"
    and "mtwei_keygen newMtweiState (Inr rand :: err + byte list) None = Ret (Inr (priv, pub))"
    and "salt_response (pUsername P) (pPassword P) priv pub salt = Ret (Inr resp)"
    and "length (pUsername P) \<le> 1382"
  shows "\<exists>n1 n2 y. run P (sys_init s0) (cooperating_device s0 rand salt n1 n2) = Some y
    \<and> yTask y = TReady None \<and> sTerminalMode (ySess y) \<and> yKeepalive y
    \<and> map (controlRecords \<circ> snd) (yOps y) =
        [auth_init_records (pUsername P) pub,
         auth_finish_records resp (bytes_of_string (pUsername P)) (bytes_of_string defaultTermType) (pCols P) (pRows P)]
    \<and> yRx y = RxLoop \<and> sCtxErr (ySess y) = None \<and> sControlCh (ySess y) = []
    \<and> ctIn (sCounters (ySess y)) = 9 + of_nat (length salt)"
proof -
  let ?init = "auth_init_records (pUsername P) pub"
  let ?fin = "auth_finish_records resp (bytes_of_string (pUsername P)) (bytes_of_string defaultTermType) (pCols P) (pRows P)"
  let ?i = "concat (map control_wire ?init)" and ?f = "concat (map control_wire ?fin)"
  note key = task_keygen_ok [OF assms(3,5)]
  obtain y2 where r2: "run P (sys_init s0) [LStart None, LKeygen (Inr rand)] = Some y2"
    and t2: "yTask y2 = TDrain ?i (CInit priv pub)" and rest2: "at_rest s0 y2"
    and c2: "sCounters (ySess y2) = zero_counters" and o2: "yOps y2 = []"
    by (rule first_steps [where P = P, OF assms(1,3,5)])
  obtain y3 where r3: "run P y2 (acked_send s0 (of_nat (length ?i))) = Some y3" and t3: "yTask y3 = TAwaitSalt priv pub"
    and rest3: "at_rest s0 y3" and o3: "yOps y3 = [(0, ?i)]" and c3: "sCounters (ySess y3) = zero_counters\<lparr>ctOut := of_nat (length ?i)\<rparr>"
    by (rule acked_send_run [OF t2 rest2 assms(2)])
      (use c2 o2 in \<open>simp_all add: after_send_def zero_counters_def\<close>)
  note sz = salt_response_length [OF assms(4)]
  obtain y4 s4 where r4: "run P y3 (control_in s0 0 (rec_of cpTypePassSalt salt)) = task_step P y4 LControl"
    and y4: "y4 = y3\<lparr>ySess := s4\<rparr>" and s4: "sControlCh s4 = [\<lparr>cpCpt = cpTypePassSalt, cpBody = salt\<rparr>]"
    and rest4: "at_rest s0 (y3\<lparr>ySess := s4\<lparr>sControlCh := []\<rparr>\<rparr>)"
    and c4: "sCounters s4 = zero_counters\<lparr>ctOut := of_nat (length ?i), ctInSeen := True, ctIn := 0\<rparr>"
    by (rule control_in_run [OF rest3, of "rec_of cpTypePassSalt salt" 0 P])
      (use sz c3 in \<open>auto simp: cpType_defs acceptIncoming_def zero_counters_def\<close>)
  define y5 where "y5 = y3\<lparr>ySess := s4\<lparr>sControlCh := []\<rparr>, yPassed := yPassed y3 @ [SaltTaken (length salt)], yTask := TDrain ?f CFinish\<rparr>"
  have r5: "run P y3 (control_in s0 0 (rec_of cpTypePassSalt salt)) = Some y5"
    unfolding r4 by (simp add: y4 task_step_def t3 await_take_def s4 y5_def task_salt_ok [OF assms(4,5)])
  have rest5: "at_rest s0 y5" using rest4 by (simp add: at_rest_def y5_def)
  obtain y6 where r6: "run P y5 (acked_send s0 (of_nat (length ?i) + of_nat (length ?f))) = Some y6" and t6: "yTask y6 = TAwaitEnd"
    and rest6: "at_rest s0 y6" and o6: "yOps y6 = [(0, ?i), (of_nat (length ?i), ?f)]"
    and c6: "ctInSeen (sCounters (ySess y6))" "ctIn (sCounters (ySess y6)) = 0"
    by (rule acked_send_run [of y5 ?f CFinish s0 P])
      (use rest5 c4 o3 assms(2) in \<open>simp_all add: y5_def after_send_def\<close>)
  have new: "fst (acceptIncoming (sCounters (ySess y6)) (9 + of_nat (length salt)))"
    using c6 sz by (auto simp: acceptIncoming_def)
  obtain y7 s7 where r7: "run P y6 (control_in s0 (9 + of_nat (length salt)) (rec_of cpTypeEndAuth [])) = task_step P y7 LControl"
    and y7: "y7 = y6\<lparr>ySess := s7\<rparr>" and s7: "sControlCh s7 = [\<lparr>cpCpt = cpTypeEndAuth, cpBody = []\<rparr>]"
    and rest7: "at_rest s0 (y6\<lparr>ySess := s7\<lparr>sControlCh := []\<rparr>\<rparr>)" and c7: "ctIn (sCounters s7) = 9 + of_nat (length salt)"
    by (rule control_in_run [OF rest6, of "rec_of cpTypeEndAuth []" "9 + of_nat (length salt)" P])
      (use new in \<open>simp_all add: cpType_defs\<close>)
  define y8 where "y8 = y6\<lparr>ySess := s7\<lparr>sControlCh := [], sTerminalMode := True\<rparr>, yPassed := yPassed y6 @ [EndAuthTaken],
      yTask := TReady None, yKeepalive := True\<rparr>"
  have r8: "run P y6 (control_in s0 (9 + of_nat (length salt)) (rec_of cpTypeEndAuth [])) = Some y8"
    unfolding r7 by (simp add: y7 task_step_def t6 await_take_def s7 y8_def)
  have "run P (sys_init s0) (cooperating_device s0 rand salt (length ?i) (length ?f)) = Some y8"
    unfolding cooperating_device_def run_append r2 by (simp only: option.case r3 r5 r6 r8 run_append)
  moreover have "controlRecords ?i = ?init" "controlRecords ?f = ?fin"
    by (rule controlRecords_concat; use not_plain_auth auth_init_length [of "pUsername P" pub] key(1) assms(5)
        salt_response_sizes [OF assms(4)] auth_finish_length [of resp "bytes_of_string (pUsername P)" "bytes_of_string defaultTermType" "pCols P" "pRows P"]
        in \<open>simp add: defaultTermType_def\<close>)+
  ultimately show ?thesis
    by (intro exI [of _ "length ?i"] exI [of _ "length ?f"] exI [of _ y8])
      (use rest7 c7 in \<open>simp add: y8_def o6 at_rest_def\<close>)
qed

text \<open>
  C16.  With a device that acknowledges both authentication packets, sends a challenge that the
  client can answer and then END_AUTH, the handshake completes: the client is in terminal
  mode and may operate, and it has sent exactly two DATA payloads, which a peer reads as
  BEGINAUTH and the client's key, and as response, user name, terminal type and size.
\<close>

theorem handshake_completes:
  assumes "s0 = new_session sender src dst key" and "authSchedule (pCfg P) \<noteq> []"
    and "mtwei_keygen newMtweiState (Inr rand :: err + byte list) None = Ret (Inr (priv, pub))"
    and "salt_response (pUsername P) (pPassword P) priv pub salt = Ret (Inr resp)"
    and "length (pUsername P) \<le> 1382"
  shows "\<exists>n1 n2 y. run P (sys_init s0) (cooperating_device s0 rand salt n1 n2) = Some y
    \<and> yTask y = TReady None \<and> sTerminalMode (ySess y) \<and> yKeepalive y
    \<and> map (controlRecords \<circ> snd) (yOps y) =
        [auth_init_records (pUsername P) pub,
         auth_finish_records resp (bytes_of_string (pUsername P)) (bytes_of_string defaultTermType) (pCols P) (pRows P)]"
  using handshake_run [OF assms] by (elim exE conjE) (intro exI conjI; assumption)

text \<open>Such a run, with the key of 32 zero bytes and an MD5 challenge.\<close>

definition sample_params :: params where
  "sample_params = \<lparr>pCfg = sample_cfg, pUsername = ''admin'', pPassword = ''secret'', pCols = 80, pRows = 24\<rparr>"

lemma sample_params_simps [simp]:
  "pCfg sample_params = sample_cfg" "pUsername sample_params = ''admin''" "pPassword sample_params = ''secret''"
  "authSchedule sample_cfg \<noteq> []" "pCols sample_params = 80" "pRows sample_params = 24"
  by (simp_all add: sample_params_def sample_cfg_def upstreamRamp_def)

lemma sample_salt_response:
  "salt_response ''admin'' ''secret'' priv pub (replicate 16 7) = Ret (Inr (computeMD5Response ''secret'' (replicate 16 7)))"
  by (simp add: salt_response_def md5SaltLen_def)

lemma sample_run:
  obtains ls y where "run sample_params (sys_init sample_session) ls = Some y" and "yTask y = TReady None"
    and "sTerminalMode (ySess y)" and "length (yOps y) = 2" and "yRx y = RxLoop" and "sCtxErr (ySess y) = None"
    and "sControlCh (ySess y) = []" and "ctIn (sCounters (ySess y)) = 25"
proof -
  obtain pub where k: "mtwei_keygen newMtweiState (Inr (replicate 32 0) :: err + byte list) None = Ret (Inr (64, pub))"
    by (rule sample_keygen)
  have "pUsername sample_params = ''admin''" "pPassword sample_params = ''secret''" by simp_all
  from handshake_run [of sample_session _ _ _ _ sample_params "replicate 32 0" 64 pub "replicate 16 7",
      OF sample_session_def _ k, unfolded this, OF _ sample_salt_response]
  obtain n1 n2 y where "run sample_params (sys_init sample_session) (cooperating_device sample_session (replicate 32 0) (replicate 16 7) n1 n2) = Some y"
    and "yTask y = TReady None" and "sTerminalMode (ySess y)"
    and ops: "map (controlRecords \<circ> snd) (yOps y) = [auth_init_records ''admin'' pub,
         auth_finish_records (computeMD5Response ''secret'' (replicate 16 7)) (bytes_of_string ''admin'')
           (bytes_of_string defaultTermType) (pCols sample_params) (pRows sample_params)]"
    and "yRx y = RxLoop" "sCtxErr (ySess y) = None" "sControlCh (ySess y) = []" "ctIn (sCounters (ySess y)) = 25"
    by auto
  moreover have "length (yOps y) = 2" using arg_cong [OF ops, of length] by simp
  ultimately show ?thesis using that by blast
qed

lemma sample_reach:
  obtains y where "reach sample_params sample_session y" and "yTask y = TReady None"
    and "sTerminalMode (ySess y)" and "length (yOps y) = 2" and "yRx y = RxLoop" and "sCtxErr (ySess y) = None"
    and "sControlCh (ySess y) = []" and "ctIn (sCounters (ySess y)) = 25"
proof -
  obtain ls y where "run sample_params (sys_init sample_session) ls = Some y" and rest: "yTask y = TReady None"
    "sTerminalMode (ySess y)" "length (yOps y) = 2" "yRx y = RxLoop" "sCtxErr (ySess y) = None"
    "sControlCh (ySess y) = []" "ctIn (sCounters (ySess y)) = 25" by (rule sample_run)
  then have "reach sample_params sample_session y" by (blast intro: run_reach reach.init)
  then show ?thesis using rest by (rule that)
qed

theorem handshake_completes_witness:
  "\<exists>rand n1 n2 y. run sample_params (sys_init sample_session) (cooperating_device sample_session rand (replicate 16 7) n1 n2) = Some y
    \<and> yTask y = TReady None \<and> sTerminalMode (ySess y)"
proof -
  obtain pub where k: "mtwei_keygen newMtweiState (Inr (replicate 32 0) :: err + byte list) None = Ret (Inr (64, pub))"
    by (rule sample_keygen)
  have p: "pUsername sample_params = ''admin''" "pPassword sample_params = ''secret''" by simp_all
  have a: "authSchedule (pCfg sample_params) \<noteq> []" "length ''admin'' \<le> 1382" by simp_all
  from handshake_completes [of sample_session _ _ _ _ sample_params "replicate 32 0" 64 pub "replicate 16 7",
      OF sample_session_def _ k, unfolded p, OF a(1) sample_salt_response a(2)]
  obtain n1 n2 y where "run sample_params (sys_init sample_session)
      (cooperating_device sample_session (replicate 32 0) (replicate 16 7) n1 n2) = Some y"
    "yTask y = TReady None" "sTerminalMode (ySess y)" by blast
  then show ?thesis by blast
qed

section \<open>The order of the handshake\<close>





section \<open>On the wire\<close>

text \<open>
  C2.  What a session sends in its life: control datagrams with its own addresses and key,
  and DATA.  The DATA datagrams are those of the operations begun, one operation after the
  other without interleaving, each datagram between once and as often as the longer
  schedule allows; the counters of the operations are consecutive, and the outgoing counter
  is the number of bytes given to them.
\<close>

theorem session_wire_log:
  assumes "reach P s0 y"
  shows "\<exists>ds ns. emits s0 ds (ySess y)
     \<and> (\<forall>d \<in> set ds. is_data d \<or> client_header s0 d)
     \<and> length ns = length (yOps y) \<and> (\<forall>n \<in> set ns. 1 \<le> n \<and> n \<le> max_copies (pCfg P))
     \<and> filter is_data ds = copies s0 ns (yOps y)
     \<and> consecutive (ctOut (sCounters s0)) (yOps y)
     \<and> ctOut (sCounters (ySess y)) = ctOut (sCounters s0) + of_nat (op_bytes (yOps y))"
  using wire_reach [OF assms] unfolding wire_inv_def by blast

theorem session_wire_log_witness:
  "\<exists>(y :: sys) ds ns. length (yOps y) = 2 \<and> emits sample_session ds (ySess y)
    \<and> filter is_data ds = copies sample_session ns (yOps y) \<and> length ns = 2"
proof -
  obtain y where r: "reach sample_params sample_session y" and l: "length (yOps y) = 2" by (rule sample_reach)
  from session_wire_log [OF r] obtain ds ns where "emits sample_session ds (ySess y)"
    "filter is_data ds = copies sample_session ns (yOps y)" "length ns = length (yOps y)" by blast
  then show ?thesis using l by (intro exI [of _ y] exI [of _ ds] exI [of _ ns]) simp
qed



section \<open>A failed Open\<close>

lemma deliver_closed:
  assumes "sCtxErr s \<noteq> None"
  obtains s' where "deliver False (Some s) r = (crCPType r = cpTypePlainData, Some s')"
    and "sCtxErr s' = sCtxErr s" and "sClosed s' = sClosed s"
proof (cases "crCPType r = cpTypePlainData")
  case True
  then show ?thesis using that [of "if sTerminalMode s then rxPipeW_Write s (crBody r) else s"]
    by (simp add: deliver_def rxPipeW_Write_def)
next
  case False
  then show ?thesis using that [of s] assms by (simp add: deliver_def)
qed

lemma records_end:
  assumes "yRx y = RxRecords (r # rs)" and "sCtxErr (ySess y) \<noteq> None"
  shows "\<exists>ls y'. run P y ls = Some y' \<and> yRx y' = RxLoop \<and> yTask y' = yTask y \<and> sCtxErr (ySess y') \<noteq> None
    \<and> sClosed (ySess y') = sClosed (ySess y)"
  using assms
proof (induction rs arbitrary: y r)
  case (Cons r' rs)
  show ?case
  proof (cases "crCPType r = cpTypePlainData")
    case True
    obtain s' where d: "deliver False (Some (ySess y)) r = (crCPType r = cpTypePlainData, Some s')"
      and c: "sCtxErr s' = sCtxErr (ySess y)" "sClosed s' = sClosed (ySess y)"
      by (rule deliver_closed [OF Cons.prems(2)])
    let ?y = "y\<lparr>ySess := s', yRx := RxRecords (r' # rs)\<rparr>"
    have "sys_next P y (LDeliver False) = Some ?y"
      using Cons.prems(1) d True by (simp add: sys_next_def deliver_step_def rx_pc_of_def)
    moreover obtain ls y' where "run P ?y ls = Some y'" "yRx y' = RxLoop" "yTask y' = yTask y" "sCtxErr (ySess y') \<noteq> None"
        "sClosed (ySess y') = sClosed (ySess y)"
      using Cons.IH [of ?y r'] Cons.prems(2) c by auto
    ultimately have "run P y (LDeliver False # ls) = Some y'" by simp
    with \<open>yRx y' = RxLoop\<close> \<open>yTask y' = yTask y\<close> \<open>sCtxErr (ySess y') \<noteq> None\<close> \<open>sClosed (ySess y') = sClosed (ySess y)\<close>
    show ?thesis by blast
  next
    case False
    then have d: "deliver False (Some (ySess y)) r = (False, Some (ySess y))"
      using Cons.prems(2) by (simp add: deliver_def)
    have "run P y [LDeliver False] = Some (y\<lparr>yRx := RxLoop\<rparr>)"
      using Cons.prems(1) d by (simp add: sys_next_def deliver_step_def)
    then show ?thesis using Cons.prems(2) by (intro exI [of _ "[LDeliver False]"] exI) (rule conjI, assumption, simp)
  qed
next
  case Nil
  obtain s' where d: "deliver False (Some (ySess y)) r = (crCPType r = cpTypePlainData, Some s')"
    and c: "sCtxErr s' = sCtxErr (ySess y)" "sClosed s' = sClosed (ySess y)"
    by (rule deliver_closed [OF Nil(2)])
  have "run P y [LDeliver False] = Some (y\<lparr>ySess := s', yRx := RxLoop\<rparr>)"
    using Nil(1) d by (simp add: sys_next_def deliver_step_def rx_pc_of_def)
  then show ?case using Nil(2) c by (intro exI [of _ "[LDeliver False]"] exI) (rule conjI, assumption, simp)
qed

lemma closing_returns:
  assumes "resources_inv y" and "yTask y = TClosing e"
  shows "\<exists>ls y'. run P y ls = Some y' \<and> yTask y' = TReturned e"
proof -
  have ctx: "sCtxErr (ySess y) \<noteq> None"
    using assms by (auto simp: resources_inv_def session_inv_def)
  have loop: "\<exists>ls y'. run P z ls = Some y' \<and> yTask y' = TReturned e"
    if "yRx z = RxLoop" "sCtxErr (ySess z) \<noteq> None" "yTask z = TClosing e" for z
  proof -
    let ?t = "\<lparr>rtRead = ReadDeadline, rtAnswer = None, rtPick = False\<rparr>"
    have "run P z [LRx ?t, LReturn] = Some ((rx_exit z (ySess z))\<lparr>yTask := TReturned e\<rparr>)"
      using that by (simp add: sys_next_def rx_step_def Let_def task_step_def rx_exit_def)
    moreover have "yTask ((rx_exit z (ySess z))\<lparr>yTask := TReturned e\<rparr>) = TReturned e" by simp
    ultimately show ?thesis by blast
  qed
  show ?thesis
  proof (cases "yRx y")
    case RxLoop
    then show ?thesis using loop ctx assms(2) by blast
  next
    case (RxRecords rs)
    then obtain r rs' where "yRx y = RxRecords (r # rs')"
      using assms(1) by (cases rs) (auto simp: resources_inv_def)
    from records_end [OF this ctx, of P] obtain ls z where z: "run P y ls = Some z" "yRx z = RxLoop"
      "yTask z = yTask y" "sCtxErr (ySess z) \<noteq> None" by blast
    then obtain ls' y' where "run P z ls' = Some y'" "yTask y' = TReturned e" 
      using loop [OF z(2,4) z(3) [unfolded assms(2)]] by blast
    then have "run P y (ls @ ls') = Some y'" using z(1) by (simp add: run_append)
    then show ?thesis using \<open>yTask y' = TReturned e\<close> by blast
  next
    case RxExited
    then have "sDone (ySess y)" using assms(1) by (simp add: resources_inv_def)
    then have "run P y [LReturn] = Some (y\<lparr>yTask := TReturned e\<rparr>)"
      using assms(2) by (simp add: sys_next_def task_step_def Let_def)
    moreover have "yTask (y\<lparr>yTask := TReturned e\<rparr>) = TReturned e" by simp
    ultimately show ?thesis by blast
  qed
qed

text \<open>
  C17.  When the handshake fails, \<open>Open\<close> can always return its error, however busy the receive
  loop is; and whenever it has returned an error, both sockets have been closed, once each,
  the context is done and the pipe is closed.
\<close>

theorem failed_open_releases:
  assumes "reach P (new_session sender src dst key) y"
  shows "(\<forall>e. yTask y = TFail e \<longrightarrow> (\<exists>ls y'. run P y ls = Some y' \<and> yTask y' = TReturned e))
    \<and> (\<forall>e. yTask y = TReturned e \<longrightarrow> sConnCloses (ySess y) = 1 \<and> sSenderCloses (ySess y) = 1
        \<and> sCtxErr (ySess y) \<noteq> None \<and> sPipeWClosed (ySess y))"
proof (intro conjI allI impI)
  have inv: "resources_inv y"
    by (rule resources_reach [OF assms session_inv_new]) (simp add: new_session_def)
  fix e
  show "\<exists>ls y'. run P y ls = Some y' \<and> yTask y' = TReturned e" if t: "yTask y = TFail e"
  proof -
    let ?y = "y\<lparr>ySess := Session_Close (ySess y) None, yTask := (if sClosed (ySess y) then TReturned e else TClosing e)\<rparr>"
    have s: "sys_next P y (LClose None) = Some ?y"
      using t by (simp add: sys_next_def task_step_def Let_def)
    have "\<exists>ls y'. run P ?y ls = Some y' \<and> yTask y' = TReturned e"
    proof (cases "sClosed (ySess y)")
      case True
      then have "run P ?y [] = Some ?y" "yTask ?y = TReturned e" by simp_all
      then show ?thesis by blast
    next
      case False
      have "resources_inv ?y" using resources_step [OF inv sys_next_rule [OF s]] .
      then show ?thesis using closing_returns False by simp
    qed
    then obtain ls y' where "run P ?y ls = Some y'" "yTask y' = TReturned e" by blast
    then have "run P y (LClose None # ls) = Some y'" using s by simp
    then show ?thesis using \<open>yTask y' = TReturned e\<close> by blast
  qed
  assume "yTask y = TReturned e"
  then have "sClosed (ySess y)" "session_inv (ySess y)" using inv by (auto simp: resources_inv_def)
  then show "sConnCloses (ySess y) = 1" "sSenderCloses (ySess y) = 1" "sCtxErr (ySess y) \<noteq> None" "sPipeWClosed (ySess y)"
    by (simp_all add: session_inv_def)
qed

theorem failed_open_releases_witness:
  "\<exists>(y :: sys) ls y' e. run sample_params (sys_init sample_session) [LStart (Some 100)] = Some y \<and> yTask y = TFail e
    \<and> run sample_params y ls = Some y' \<and> yTask y' = TReturned e"
proof -
  obtain s1 where st: "session_Send sample_session (header_datagram (session_header sample_session pTypeSessionStart 0)) (Some 100)
      = (Some (Errno 100), s1)"
    using session_Send_cases [of sample_session "header_datagram (session_header sample_session pTypeSessionStart 0)" "Some 100"] by auto
  let ?e = "Wrapf ''send SESSIONSTART: '' (Errno 100) []"
  let ?y = "(sys_init sample_session)\<lparr>yTask := TFail ?e, ySess := s1\<rparr>"
  have r: "run sample_params (sys_init sample_session) [LStart (Some 100)] = Some ?y"
    by (simp add: sys_next_def task_step_def Let_def sys_init_def task_sessionstart_def sendSessionStart_def st
        move_task_def passes_def)
  have "reach sample_params sample_session ?y" by (rule run_reach [OF reach.init r])
  from failed_open_releases [OF this [unfolded sample_session_def]]
  obtain ls y' where "run sample_params ?y ls = Some y'" "yTask y' = TReturned ?e"
    unfolding sample_session_def by auto
  then show ?thesis using r by (intro exI [of _ ?y] exI [of _ ls] exI [of _ y'] exI [of _ ?e]) simp
qed

section \<open>When the receive loop stalls\<close>

text \<open>
  After the handshake nobody receives from \<open>controlCh\<close>.  When it is full and the next record
  is not terminal data, the receive loop waits until the context ends.
\<close>

definition stalled :: "sys \<Rightarrow> bool" where
  "stalled y \<longleftrightarrow> opened (yTask y) \<and> sCtxErr (ySess y) = None \<and> controlChCap \<le> length (sControlCh (ySess y))
     \<and> (\<exists>r rs. yRx y = RxRecords (r # rs) \<and> crCPType r \<noteq> cpTypePlainData)"

definition ends_session :: "label \<Rightarrow> bool" where
  "ends_session l = (case l of LCancel \<Rightarrow> True | LExpire \<Rightarrow> True | LClose answer \<Rightarrow> True | _ \<Rightarrow> False)"

lemma stalled_keep:
  assumes "stalled y" and "opened (yTask y')" and "yRx y' = yRx y" and "sCtxErr (ySess y') = sCtxErr (ySess y)"
    and "sControlCh (ySess y') = sControlCh (ySess y)"
  shows "stalled y'"
  using assms by (simp add: stalled_def)

lemma stalled_task:
  assumes st: "stalled y" and "task_step P y l = Some y'" and "\<not> ends_session l"
  shows "stalled y' \<and> set (yHeard y') \<subseteq> set (yHeard y)"
proof -
  have ctx: "sCtxErr (ySess y) = None" and op: "opened (yTask y)" using st by (simp_all add: stalled_def)
  show ?thesis
  proof (cases "yTask y")
    case (TReady r)
    then obtain payload where "y' = y\<lparr>yTask := TDrain payload CUser\<rparr>"
      using assms(2) by (cases l) (auto simp: task_step_def Let_def split: if_splits)
    then show ?thesis using stalled_keep [OF st, of y'] by simp
  next
    case (TDrain payload k)
    then have "k = CUser" "y' = y\<lparr>yTask := TSend payload k, ySess := (ySess y)\<lparr>sAckCh := []\<rparr>, yHeard := []\<rparr>"
      using assms(2) op by (cases l; simp add: task_step_def Let_def)+
    then show ?thesis using stalled_keep [OF st, of y'] by simp
  next
    case (TSend payload k)
    then obtain answer where l: "l = LSend answer" using assms(2) by (cases l) (simp_all add: task_step_def Let_def)
    obtain t s' where t: "task_send (pCfg P) (ySess y) payload k answer = (t, s')" by fastforce
    have k: "k = CUser" using op TSend by simp
    have "opened t" using task_send_spec(2) [OF t] k by auto
    moreover have "sCtxErr s' = sCtxErr (ySess y)" "sControlCh s' = sControlCh (ySess y)"
      using transmitted_simps [OF task_send_spec(1) [OF t]] by (simp_all add: advance_out_def)
    moreover have "y' = move_task (y\<lparr>yOps := yOps y @ [(ctOut (sCounters (ySess y)), payload)]\<rparr>) (t, s')"
      using assms(2) TSend l t by (simp add: task_step_def Let_def)
    ultimately show ?thesis using stalled_keep [OF st, of y'] by (simp add: move_task_def)
  next
    case (TWait pkt want sched k)
    then have k: "k = CUser" using op by simp
    consider "l = LAck" | answer where "l = LTimeout answer"
      using assms(2) TWait ctx by (cases l) (simp_all add: task_step_def Let_def)
    then show ?thesis
    proof cases
      case 1
      then obtain t s' where t: "task_ack (ySess y) pkt want sched k = Some (t, s')" and y: "y' = move_task y (t, s')"
        using assms(2) TWait by (auto simp: task_step_def Let_def)
      show ?thesis using stalled_keep [OF st, of y'] task_ack_spec [OF t] k by (simp add: y move_task_def)
    next
      case 2
      obtain t s' where t: "task_timeout (ySess y) pkt want sched k answer = (t, s')" by fastforce
      have "opened t" using task_timeout_spec(2) [OF t] k by auto
      moreover have "y' = move_task y (t, s')"
        using assms(2) TWait 2 t by (simp add: task_step_def Let_def)
      ultimately show ?thesis
        using stalled_keep [OF st, of y'] transmitted_simps [OF task_timeout_spec(1) [OF t]] by (simp add: move_task_def)
    qed
  qed (use op in simp_all)
qed

lemma stalled_step:
  assumes st: "stalled y" and s: "sys_next P y l = Some y'" and l: "\<not> ends_session l"
  shows "stalled y' \<and> set (yHeard y') \<subseteq> set (yHeard y)"
proof (cases l)
  case (LTick answer)
  then obtain goon s' where k: "keepaliveLoop_turn (ySess y) answer = (goon, s')" and y': "y' = y\<lparr>ySess := s', yKeepalive := goon\<rparr>"
    using s by (auto simp: sys_next_def split: if_splits prod.splits)
  have "sCtxErr s' = sCtxErr (ySess y) \<and> sControlCh s' = sControlCh (ySess y)"
    using k transmitted_simps [OF session_Send_snd] by (auto simp: keepaliveLoop_turn_def split: if_splits)
  then show ?thesis using stalled_keep [OF st, of y'] st by (simp add: y' stalled_def)
next
  case (LRx t)
  then show ?thesis using s st by (auto simp: sys_next_def stalled_def)
next
  case (LDeliver pick)
  then show ?thesis using s st by (auto simp: sys_next_def stalled_def deliver_step_def deliver_def)
qed (use s l stalled_task [OF st] in \<open>auto simp: sys_next_def ends_session_def\<close>)

lemma stalled_run:
  "stalled y \<Longrightarrow> run P y ls = Some y' \<Longrightarrow> \<forall>l \<in> set ls. \<not> ends_session l \<Longrightarrow>
    stalled y' \<and> set (yHeard y') \<subseteq> set (yHeard y)"
proof (induction ls arbitrary: y)
  case (Cons l ls)
  then obtain y1 where "sys_next P y l = Some y1" "run P y1 ls = Some y'" by (auto split: option.splits)
  then show ?case using Cons.IH [of y1] stalled_step [OF Cons.prems(1), of P l y1] Cons.prems(3) by auto
qed simp

text \<open>Filling the channel.\<close>

lemma fill_channel:
  assumes "opened (yTask y)" and "sCtxErr (ySess y) = None" and "yRx y = RxRecords rs"
    and "\<forall>r \<in> set rs. crCPType r \<noteq> cpTypePlainData" and "controlChCap < length (sControlCh (ySess y)) + length rs"
    and "length (sControlCh (ySess y)) \<le> controlChCap"
  shows "\<exists>ls y'. run P y ls = Some y' \<and> stalled y' \<and> yHeard y' = yHeard y"
  using assms
proof (induction rs arbitrary: y)
  case (Cons r rs)
  show ?case
  proof (cases "length (sControlCh (ySess y)) = controlChCap")
    case True
    then have "stalled y" using Cons.prems by (simp add: stalled_def)
    then show ?thesis using run.simps(1) by blast
  next
    case False
    let ?s = "(ySess y)\<lparr>sControlCh := sControlCh (ySess y) @ [\<lparr>cpCpt = crCPType r, cpBody = crBody r\<rparr>]\<rparr>"
    have ne: "rs \<noteq> []" using Cons.prems(5,6) False by auto
    then have pc: "rx_pc_of rs = RxRecords rs" by (cases rs) (simp_all add: rx_pc_of_def)
    have "deliver False (Some (ySess y)) r = (True, Some ?s)"
      using Cons.prems(2,4,6) False by (simp add: deliver_def)
    then have s: "sys_next P y (LDeliver False) = Some (y\<lparr>ySess := ?s, yRx := RxRecords rs\<rparr>)"
      using Cons.prems(3) pc by (simp add: sys_next_def deliver_step_def)
    obtain ls y' where "run P (y\<lparr>ySess := ?s, yRx := RxRecords rs\<rparr>) ls = Some y'" "stalled y'" "yHeard y' = yHeard y"
      using Cons.IH [of "y\<lparr>ySess := ?s, yRx := RxRecords rs\<rparr>"] Cons.prems False by auto
    then have "run P y (LDeliver False # ls) = Some y' \<and> stalled y' \<and> yHeard y' = yHeard y" using s by simp
    then show ?thesis by blast
  qed
qed simp

text \<open>
  C25.  A device (or anyone who knows the session key) can stall an open session with one
  datagram: when it carries more control records than the channel has room for, the receive
  loop blocks on it, and from then on, until the session is closed or its context ends, the
  loop takes nothing off the wire - no ACK, no terminal data, no END - whatever else
  happens, so that no operation can succeed any more.
\<close>

theorem control_records_stall_session:
  assumes "opened (yTask y)" and "sCtxErr (ySess y) = None" and "yRx y = RxLoop"
    and "length (sControlCh (ySess y)) \<le> controlChCap"
    and "fst (acceptIncoming (sCounters (ySess y)) c)"
    and "\<forall>r \<in> set rs. crCPType r \<noteq> cpTypePlainData" and "length (concat (map control_wire rs)) < 2 ^ 32"
    and "controlChCap < length (sControlCh (ySess y)) + length rs"
  shows "\<exists>ls y'. run P y (LRx (device_turn (ySess y) pTypeData c (concat (map control_wire rs))) # ls) = Some y'
    \<and> stalled y'
    \<and> (\<forall>ls' y''. (\<forall>l \<in> set ls'. \<not> ends_session l) \<longrightarrow> run P y' ls' = Some y'' \<longrightarrow>
          stalled y'' \<and> set (yHeard y'') \<subseteq> set (yHeard y))"
proof -
  let ?p = "concat (map control_wire rs)" and ?h = "device_header (ySess y) pTypeData c"
  have recs: "controlRecords ?p = rs" by (rule controlRecords_concat [OF assms(6,7)])
  have h: "hCounter ?h = c" "hSessionKey ?h = sSessionKey (ySess y)" "hPType ?h = pTypeData" "pTypeData \<noteq> pTypeAck"
    by (simp_all add: device_header_def pType_defs)
  obtain rs' s1 where b: "begin_inbound (ySess y) ?h ?p None = (rs', s1)" by fastforce
  have rs': "rs' = rs" and s1: "sCtxErr s1 = None" "sControlCh s1 = sControlCh (ySess y)"
    using begin_inbound_spec [OF b] assms(2,5) by (simp_all add: h recs)
  have ne: "rs \<noteq> []" using assms(4,8) by auto
  let ?y = "y\<lparr>ySess := s1, yRx := RxRecords rs\<rparr>"
  have s: "sys_next P y (LRx (device_turn (ySess y) pTypeData c ?p)) = Some ?y"
    using assms(2,3) b rs' ne h
    by (simp add: sys_next_def rx_step_def Let_def device_turn_read device_decode rx_pc_of_def split: list.split)
  obtain ls y' where r: "run P ?y ls = Some y'" "stalled y'" "yHeard y' = yHeard y"
    using fill_channel [of ?y rs P] assms(1,4,6,8) s1 by auto
  have "run P y (LRx (device_turn (ySess y) pTypeData c ?p) # ls) = Some y'" using s r(1) by simp
  moreover have "stalled y'' \<and> set (yHeard y'') \<subseteq> set (yHeard y)"
    if "\<forall>l \<in> set ls'. \<not> ends_session l" "run P y' ls' = Some y''" for ls' y''
    using stalled_run [OF r(2) that(2,1)] r(3) by simp
  ultimately show ?thesis using r(2) by blast
qed

theorem control_records_stall_session_witness:
  "\<exists>y y' ls. reach sample_params sample_session y \<and> run sample_params y ls = Some y' \<and> stalled y'"
proof -
  obtain y where r: "reach sample_params sample_session y" and t: "yTask y = TReady None" and x: "yRx y = RxLoop"
    and c: "sCtxErr (ySess y) = None" and ch: "sControlCh (ySess y) = []" and i: "ctIn (sCounters (ySess y)) = 25"
    by (rule sample_reach)
  let ?rs = "replicate 17 (rec_of cpTypePassSalt [])"
  have a: "opened (yTask y)" "length (sControlCh (ySess y)) \<le> controlChCap"
    "fst (acceptIncoming (sCounters (ySess y)) 26)" "controlChCap < length (sControlCh (ySess y)) + length ?rs"
    "\<forall>r \<in> set ?rs. crCPType r \<noteq> cpTypePlainData"
    using t ch i by (simp_all add: acceptIncoming_def controlChCap_def cpType_defs)
  have "length (concat (map control_wire ?rs)) < 2 ^ 32"
    by (simp add: length_concat sum_list_replicate length_control_wire cpType_defs cpHeaderLen_def)
  from control_records_stall_session [OF a(1) c x a(2,3,5) this a(4), of sample_params] show ?thesis
    using r by blast
qed

end
