(* ===== verification/System_Sequential.thy ===== *)
theory System_Sequential
  imports System_Properties
begin

text \<open>
  The two models of the same code agree.  The functions of the theory \<open>Session\<close> run a receive
  turn or a transmission to its end; in \<open>System\<close> the same code is cut into steps between
  which the other goroutines move.  When no other goroutine moves, the steps lead where the
  functions do.
\<close>

section \<open>A receive turn\<close>

text \<open>Delivering the records one step at a time; a blocked delivery is a step that is not there.\<close>

lemma deliver_run:
  assumes "yRx y = rx_pc_of rs"
  shows "case foldWhile (deliver pick) (Some (ySess y)) rs of
     Some s' \<Rightarrow> \<exists>n. run P y (replicate n (LDeliver pick)) = Some (y\<lparr>ySess := s', yRx := RxLoop\<rparr>)
   | None \<Rightarrow> \<exists>n y' r rs'. run P y (replicate n (LDeliver pick)) = Some y' \<and> yRx y' = RxRecords (r # rs')
       \<and> sys_next P y' (LDeliver pick) = None"
  using assms
proof (induction rs arbitrary: y)
  case Nil
  then have "y\<lparr>yRx := RxLoop\<rparr> = y" by (cases y) (simp add: rx_pc_of_def)
  then show ?case by (auto intro!: exI [of _ 0])
next
  case (Cons r rs)
  obtain goon st where d: "deliver pick (Some (ySess y)) r = (goon, st)" by fastforce
  show ?case
  proof (cases st)
    case None
    then have "goon = False" using d by (auto simp: deliver_def split: if_splits)
    moreover have "sys_next P y (LDeliver pick) = None"
      using Cons.prems d None by (simp add: sys_next_def deliver_step_def rx_pc_of_def)
    ultimately show ?thesis using d None Cons.prems by (auto intro!: exI [of _ 0] exI [of _ y])
  next
    case (Some s1)
    let ?y = "y\<lparr>ySess := s1, yRx := (if goon then rx_pc_of rs else RxLoop)\<rparr>"
    have step: "sys_next P y (LDeliver pick) = Some ?y"
      using Cons.prems d Some by (simp add: sys_next_def deliver_step_def rx_pc_of_def)
    show ?thesis
    proof (cases goon)
      case False
      then show ?thesis using d Some step by (auto intro!: exI [of _ 1])
    next
      case True
      have more: "run P y (replicate (Suc n) (LDeliver pick)) = run P ?y (replicate n (LDeliver pick))" for n
        using step by simp
      have fold: "foldWhile (deliver pick) (Some (ySess y)) (r # rs) = foldWhile (deliver pick) (Some (ySess ?y)) rs"
        using d Some True by simp
      show ?thesis
      proof (cases "foldWhile (deliver pick) (Some (ySess ?y)) rs")
        case None
        then obtain n y' r' rs' where "run P ?y (replicate n (LDeliver pick)) = Some y'" "yRx y' = RxRecords (r' # rs')"
            "sys_next P y' (LDeliver pick) = None"
          using Cons.IH [of ?y] True by auto
        then show ?thesis unfolding fold None option.case using more [of n]
          by (intro exI [of _ "Suc n"] exI [of _ y'] exI [of _ r'] exI [of _ rs']) simp
      next
        case (Some s')
        then obtain n where "run P ?y (replicate n (LDeliver pick)) = Some (?y\<lparr>ySess := s', yRx := RxLoop\<rparr>)"
          using Cons.IH [of ?y] True by auto
        then show ?thesis unfolding fold Some option.case using more [of n]
          by (intro exI [of _ "Suc n"]) simp
      qed
    qed
  qed
qed

text \<open>
  Where a receive turn leaves the system, and the runs that take the turn and deliver its
  records: to the end, or to a delivery that blocks.
\<close>

definition rx_after :: "bool \<Rightarrow> session \<Rightarrow> sys \<Rightarrow> sys" where
  "rx_after goon s y = (if goon then y\<lparr>ySess := s\<rparr> else rx_exit y s)"

definition turn_run :: "params \<Rightarrow> sys \<Rightarrow> rx_turn \<Rightarrow> nat \<Rightarrow> sys option" where
  "turn_run P y t n = run P y (LRx t # replicate n (LDeliver (rtPick t)))"

definition turn_reaches :: "params \<Rightarrow> sys \<Rightarrow> rx_turn \<Rightarrow> bool \<Rightarrow> session \<Rightarrow> bool" where
  "turn_reaches P y t goon s' \<longleftrightarrow> (\<exists>n hs. turn_run P y t n = Some ((rx_after goon s' y)\<lparr>yHeard := hs\<rparr>))"

definition turn_blocks :: "params \<Rightarrow> sys \<Rightarrow> rx_turn \<Rightarrow> bool" where
  "turn_blocks P y t \<longleftrightarrow> (\<exists>n y' r rs. turn_run P y t n = Some y' \<and> yRx y' = RxRecords (r # rs)
     \<and> sys_next P y' (LDeliver (rtPick t)) = None)"

lemma data_turn_run:
  assumes "yRx y = RxLoop" and "sCtxErr (ySess y) = None" and "rtRead t = ReadOk n buf" and "headerLen \<le> n"
    and "n \<le> length buf" and "decodeHeader (take n buf) DirToClient = Inr (h, payload)"
    and "hSessionKey h = sSessionKey (ySess y)" and "hPType h = pTypeData"
  shows "case processInboundData (rtPick t) (ySess y) h payload (rtAnswer t) of
     Some s' \<Rightarrow> turn_reaches P y t True s' | None \<Rightarrow> turn_blocks P y t"
proof -
  obtain rs s1 where b: "begin_inbound (ySess y) h payload (rtAnswer t) = (rs, s1)" by fastforce
  let ?y = "y\<lparr>ySess := s1, yRx := rx_pc_of rs\<rparr>"
  have step: "turn_run P y t n = run P ?y (replicate n (LDeliver (rtPick t)))" for n
    using assms b by (simp add: turn_run_def) (simp add: sys_next_def rx_step_def Let_def pType_defs)
  have p: "processInboundData (rtPick t) (ySess y) h payload (rtAnswer t)
      = foldWhile (deliver (rtPick t)) (Some s1) rs"
  proof (cases "acceptIncoming (sCounters (ySess y)) (hCounter h)")
    case (Pair v cts)
    have "\<not> v \<Longrightarrow> cts = sCounters (ySess y)" using Pair by (simp add: acceptIncoming_False)
    then have "\<not> v \<Longrightarrow> (after_ack (ySess y) h payload (rtAnswer t))\<lparr>sCounters := cts\<rparr>
        = after_ack (ySess y) h payload (rtAnswer t)" by simp
    then show ?thesis using begin_inbound_spec [OF b] Pair
      by (simp add: processInboundData_cases split: bool.splits)
  qed
  have home: "?y\<lparr>ySess := s', yRx := RxLoop\<rparr> = (rx_after True s' y)\<lparr>yHeard := yHeard y\<rparr>" for s'
    using assms(1) by (cases y) (simp add: rx_after_def)
  show ?thesis
    using deliver_run [where y = ?y and rs = rs and pick = "rtPick t" and P = P]
    unfolding p turn_reaches_def turn_blocks_def step home by (auto split: option.splits)
qed

lemma receive_turn_run:
  assumes rx: "yRx y = RxLoop" and t: "rxLoop_turn (ySess y) t = Ret r"
  shows "case r of Some (goon, s') \<Rightarrow> turn_reaches P y t goon s' | None \<Rightarrow> turn_blocks P y t"
proof -
  have upd: "y\<lparr>yHeard := yHeard y\<rparr> = y" "(rx_exit y s')\<lparr>yHeard := yHeard y\<rparr> = rx_exit y s'"
      "y\<lparr>ySess := ySess y\<rparr> = y" for s'
    by (cases y, simp add: rx_exit_def)+
  have one: "turn_reaches P y t goon s'" if "rx_step y t = Some (rx_after goon s' y)" for goon s'
    unfolding turn_reaches_def using that rx upd by (intro exI [of _ 0] exI [of _ "yHeard y"]) (auto simp: turn_run_def sys_next_def rx_after_def)
  show ?thesis
  proof (cases "sCtxErr (ySess y) = None")
    case False
    then show ?thesis using t one [of False "ySess y"]
      by (auto simp: rxLoop_turn_def rx_step_def rx_after_def Let_def)
  next
    case ctx: True
    show ?thesis
    proof (cases "rtRead t")
      case (ReadOk n buf)
      show ?thesis
      proof (cases "n < headerLen")
        case True
        then show ?thesis using t ctx ReadOk upd one [of True "ySess y"]
          by (auto simp: rxLoop_turn_def rx_step_def rx_after_def Let_def)
      next
        case False
        then have n: "n \<le> length buf" using t ctx ReadOk
          by (auto simp: rxLoop_turn_def slice_to_def split: if_splits)
        show ?thesis
        proof (cases "decodeHeader (take n buf) DirToClient")
          case (Inl e)
          then show ?thesis using t ctx ReadOk False n upd one [of True "ySess y"]
            by (auto simp: rxLoop_turn_def rx_step_def rx_after_def Let_def slice_to_def)
        next
          case (Inr hp)
          obtain h payload where hp: "hp = (h, payload)" by fastforce
          consider (other) "hSessionKey h \<noteq> sSessionKey (ySess y)
              \<or> hPType h \<notin> {pTypeAck, pTypeData, pTypeEnd}"
            | (ack) "hSessionKey h = sSessionKey (ySess y)" "hPType h = pTypeAck"
            | (data) "hSessionKey h = sSessionKey (ySess y)" "hPType h = pTypeData"
            | (end_pkt) "hSessionKey h = sSessionKey (ySess y)" "hPType h = pTypeEnd" by blast
          then show ?thesis
          proof cases
            case other
            then have "rx_step y t = Some (rx_after True (ySess y) y)" and "r = Some (True, ySess y)"
              using t ctx ReadOk False n Inr hp upd(3)
              by (auto simp: rxLoop_turn_def rx_step_def rx_after_def Let_def slice_to_def split: if_splits)
            then show ?thesis using one by simp
          next
            case ack
            then have r: "r = Some (True, ackCh_offer (ySess y) (hCounter h))"
              using t ctx ReadOk False n Inr hp by (simp add: rxLoop_turn_def slice_to_def)
            have "rx_step y t = Some (y\<lparr>ySess := ackCh_offer (ySess y) (hCounter h), yHeard := yHeard y @ [hCounter h]\<rparr>)"
              using ack ctx ReadOk False n Inr hp by (simp add: rx_step_def Let_def)
            then show ?thesis using rx unfolding r
              by (auto simp: sys_next_def rx_after_def turn_reaches_def turn_run_def intro!: exI [of _ 0])
          next
            case data
            then show ?thesis
              using t data_turn_run [OF rx ctx ReadOk _ n Inr [unfolded hp] data, of P] False ReadOk Inr hp ctx n upd(1)
              by (auto simp: rxLoop_turn_def slice_to_def rx_after_def pType_defs split: option.splits)
          next
            case end_pkt
            then show ?thesis using t ctx ReadOk False n Inr hp one [of False "Session_fail (ySess y) (Some EOF)"]
              by (auto simp: rxLoop_turn_def rx_step_def rx_after_def Let_def slice_to_def pType_defs)
          qed
        qed
      qed
    next
      case (ReadErr e)
      then show ?thesis using t ctx one [of False "Session_fail (ySess y) (Some (Errno e))"]
        by (auto simp: rxLoop_turn_def rx_step_def rx_after_def Let_def)
    qed (use t ctx upd one [of True "ySess y"] one [of False "ySess y"] in
        \<open>auto simp: rxLoop_turn_def rx_step_def rx_after_def Let_def\<close>)
  qed
qed

section \<open>A transmission\<close>








section \<open>Properties\<close>

text \<open>
  The two models of a receive turn agree: when \<open>rxLoop_turn\<close>, the loop body computed at
  one go, returns, there is a run of the system that takes the datagram and delivers its
  control records one by one, and that ends in the same session, with the loop going on or
  having exited as the function says and the client goroutine where it was.  When the
  function says that the turn blocks, the run comes to a record whose delivery is not a step.
\<close>

theorem receive_turn_is_a_run:
  assumes "yRx y = RxLoop" and "rxLoop_turn (ySess y) t = Ret r"
  shows "case r of
     Some (goon, s') \<Rightarrow> \<exists>n y'. run P y (LRx t # replicate n (LDeliver (rtPick t))) = Some y' \<and> yTask y' = yTask y
       \<and> ySess y' = (if goon then s' else rxLoop_exit s') \<and> yRx y' = (if goon then RxLoop else RxExited)
   | None \<Rightarrow> \<exists>n y' rc rs. run P y (LRx t # replicate n (LDeliver (rtPick t))) = Some y'
       \<and> yRx y' = RxRecords (rc # rs) \<and> sys_next P y' (LDeliver (rtPick t)) = None"
  using receive_turn_run [OF assms, of P] assms(1)
  by (cases r) (force simp: turn_reaches_def turn_blocks_def turn_run_def rx_after_def rx_exit_def)+

theorem receive_turn_is_a_run_witness:
  "\<exists>n y'. run P (sys_init sample_session) (LRx (device_turn sample_session pTypeEnd 0 []) # replicate n (LDeliver True)) = Some y'
    \<and> ySess y' = rxLoop_exit (Session_fail sample_session (Some EOF)) \<and> yRx y' = RxExited"
proof -
  let ?t = "device_turn sample_session pTypeEnd 0 []"
  have "decodeHeader (header_wire (device_header sample_session pTypeEnd 0) DirToClient) DirToClient
      = Inr (device_header sample_session pTypeEnd 0, [])"
    using device_decode [of sample_session pTypeEnd 0 "[]"] by simp
  then have "rxLoop_turn sample_session ?t = Ret (Some (False, Session_fail sample_session (Some EOF)))"
    by (simp add: rxLoop_turn_def device_turn_read slice_to_def)
      (simp add: device_header_def pType_defs sample_session_def new_session_def)
  then show ?thesis
    using receive_turn_is_a_run [of "sys_init sample_session" ?t _ P]
    by (simp add: sys_init_def device_turn_def Let_def del: run.simps) blast
qed



end
