(* ===== verification/Descriptors.thy ===== *)
theory Descriptors
  imports System_Facts Mndp_Discover Session_Properties
begin

text \<open>
  The life of the descriptors: the listener of MNDP discovery (\<open>openListener\<close> of
  \<^verbatim>\<open>src/internal/mndp/conn.go\<close>) with the deferred close of \<open>Discover\<close>, and the two sockets of
  a session from \<open>Open\<close> to its teardown, whichever goroutine does it.
\<close>

section \<open>The MNDP listener\<close>

text \<open>The hook: both options are required, and the error says which one failed.\<close>

definition listener_control :: "listen_answers \<Rightarrow> int \<Rightarrow> err option \<times> sysevent list" where
  "listener_control la fd =
    (case laControl la of
       Some e \<Rightarrow> (Some e, [])
     | None \<Rightarrow>
         (case laOpt1 la of
            Some e \<Rightarrow> (Some (Wrapf ''SO_REUSEADDR: '' e []), [])
          | None \<Rightarrow>
              (case laOpt2 la of
                 Some e \<Rightarrow> (Some (Wrapf ''SO_BROADCAST: '' e []), [EvSetsockopt fd SO_REUSEADDR 1])
               | None \<Rightarrow> (None, [EvSetsockopt fd SO_REUSEADDR 1, EvSetsockopt fd SO_BROADCAST 1]))))"

text \<open>The type assertion without a second result panics on any other connection.\<close>

definition openListener :: "listen_answers \<Rightarrow> (err discover_error + int) go \<times> sysevent list" where
  "openListener la =
    (case ListenPacket (listener_control la) mndpPort la of
       (Inl e, evs) \<Rightarrow> (Ret (Inl (DiscoverBind e)), evs)
     | (Inr (UDPConn fd), evs) \<Rightarrow> (Ret (Inr fd), evs)
     | (Inr (OtherConn t fd), evs) \<Rightarrow> (Panic, evs))"

text \<open>\<open>Discover\<close> with its listener: the deferred close runs when it returns.\<close>

definition Discover_calls ::
    "listen_answers \<Rightarrow> err bcast_error + (ip \<times> nat) \<Rightarrow> int \<Rightarrow> duration \<Rightarrow> mac list \<Rightarrow> err mndp_turn list \<Rightarrow>
     (((ip \<times> nat) \<times> byte list) list \<times> err discover_error option \<times> Neighbor list) option go \<times> sysevent list"
where
  "Discover_calls la bcast start timeout order turns =
    (case openListener la of
       (Panic, evs) \<Rightarrow> (Panic, evs)
     | (Ret (Inl e), evs) \<Rightarrow> (Ret (Some ([], Some e, [])), evs)
     | (Ret (Inr fd), evs) \<Rightarrow>
         (case Discover (Inr ()) bcast start timeout order turns of
            None \<Rightarrow> (Ret None, evs)
          | Some r \<Rightarrow> (Ret (Some r), evs @ [EvClose fd])))"

lemma tidy_listener: "tidy (\<lambda>pc. {#packet_fd pc#}) (ListenPacket (listener_control la) mndpPort la)"
  by (rule tidy_ListenPacket) (auto simp: listener_control_def split: option.splits)

lemma ListenPacket_UDP: "ListenPacket control port la = (Inr pc, evs) \<Longrightarrow> pc = UDPConn (packet_fd pc)"
  by (auto simp: ListenPacket_def Let_def split: sum.splits option.splits prod.splits)

section \<open>The sockets of a session\<close>

lemma tidy_Open_session:
  "tidy (\<lambda>(conn, s). {#rxConn_fd conn, rsFd (sSender s)#}) (Open_session iface mac_text vlanID lookup sa rand)"
proof (cases "\<exists>dst i. parseMAC mac_text = Inr dst \<and> resolveInterface iface lookup = Inr i")
  case True
  then obtain dst i where ok: "parseMAC mac_text = Inr dst" "resolveInterface iface lookup = Inr i" by blast
  obtain r evs where run: "openSockets i vlanID sa = (r, evs)" by (cases "openSockets i vlanID sa")
  show ?thesis using tidy_openSockets [of i vlanID sa]
    by (cases r; cases rand) (auto simp: tidy_def Open_session_def ok run new_session_def closes_open_append)
next
  case False
  then show ?thesis
    by (cases "parseMAC mac_text"; cases "resolveInterface iface lookup")
      (auto simp: tidy_def Open_session_def split: mac_error.split)
qed

lemma Open_session_new:
  "Open_session iface mac_text vlanID lookup sa rand = (Inr (conn, s0), evs) \<Longrightarrow>
   \<exists>sender src dst key. s0 = new_session sender src dst key"
  by (auto simp: Open_session_def split: sum.splits prod.splits mac_error.splits)

lemma Open_session_fresh:
  assumes "Open_session iface mac_text vlanID lookup sa rand = (Inr (conn, s0), evs)"
  shows "session_inv s0 \<and> \<not> sDone s0"
  using Open_session_new [OF assms] session_inv_new by (auto simp: new_session_def)

text \<open>The closing calls that a session has made so far.\<close>

definition session_closes :: "rxConn \<Rightarrow> rawSender \<Rightarrow> session \<Rightarrow> sysevent list" where
  "session_closes conn sender s =
    replicate (sConnCloses s) (EvClose (rxConn_fd conn)) @ replicate (sSenderCloses s) (EvClose (rsFd sender))"

section \<open>Properties\<close>

text \<open>
  C10.  No descriptor is lost or closed twice.  When \<open>Open\<close> fails before its goroutines start,
  whichever call it is that fails, everything it opened has been closed; otherwise exactly
  the two sockets are open, and in every reachable state of the session they are still open
  or, once it is closed, by whichever goroutine, both are closed.
\<close>

theorem descriptors_accounted:
  assumes "Open_session iface mac_text vlanID lookup sa rand = (r, evs)"
  shows "closes_open {#} evs \<and> (case r of
      Inl e \<Rightarrow> live evs = {#}
    | Inr (conn, s0) \<Rightarrow> live evs = {#rxConn_fd conn, rsFd (sSender s0)#}
        \<and> (reach P s0 y \<longrightarrow> closes_open {#} (evs @ session_closes conn (sSender s0) (ySess y))
            \<and> live (evs @ session_closes conn (sSender s0) (ySess y))
              = (if sClosed (ySess y) then {#} else {#rxConn_fd conn, rsFd (sSender s0)#})))"
proof -
  have t: "closes_open {#} evs" "live evs = (case r of Inl e \<Rightarrow> {#} | Inr (conn, s) \<Rightarrow> {#rxConn_fd conn, rsFd (sSender s)#})"
    using tidy_Open_session [of iface mac_text vlanID lookup sa rand] by (auto simp: tidy_def assms live_def split: sum.splits)
  show ?thesis
  proof (cases r)
    case (Inr p)
    obtain conn s0 where p: "p = (conn, s0)" by (cases p)
    have live: "fold live_step evs {#} = {#rxConn_fd conn, rsFd (sSender s0)#}" using t(2) by (simp add: Inr p live_def)
    have "session_inv (ySess y)" if "reach P s0 y"
      using resources_reach [OF that] Open_session_fresh assms by (simp add: Inr p resources_inv_def)
    then have "closes_open {#} (evs @ session_closes conn (sSender s0) (ySess y))
      \<and> live (evs @ session_closes conn (sSender s0) (ySess y))
          = (if sClosed (ySess y) then {#} else {#rxConn_fd conn, rsFd (sSender s0)#})" if "reach P s0 y"
      using that t(1) by (cases "sClosed (ySess y)")
        (simp_all add: session_inv_def session_closes_def closes_open_append live_def live)
    then show ?thesis using t by (simp add: Inr p)
  qed (use t in simp)
qed

definition sample_iface :: net_iface where
  "sample_iface = \<lparr>niName = ''eth0'', niIndex = 2, niHardwareAddr = [2, 0, 0, 0, 0, 1]\<rparr>"

definition sample_answers :: socket_answers where
  "sample_answers = \<lparr>saListen = \<lparr>laSocket = Inr 3, laDefault = None, laControl = None, laOpt1 = None,
       laOpt2 = Some (Errno 92), laBind = None\<rparr>,
     saRawSocket = Inr 5, saRawBind = None, saSendSocket = Inr 4\<rparr>"

theorem descriptors_accounted_witness:
  "\<exists>s0 evs. Open_session ''eth0'' (formatMAC (Mac 2 0 0 0 0 2)) 0 (Inr sample_iface) sample_answers (Inr [0xab, 0xcd])
       = (Inr (UdpConn 3, s0), evs)
     \<and> live (evs @ session_closes (UdpConn 3) (sSender s0) (ySess (sys_init s0))) = {#3, 4#}
     \<and> live (snd (Open_session ''eth0'' (formatMAC (Mac 2 0 0 0 0 2)) 7 (Inr sample_iface)
         (sample_answers\<lparr>saSendSocket := Inl (Errno 1)\<rparr>) (Inr [0xab, 0xcd]))) = {#}"
proof -
  obtain s0 evs where up: "Open_session ''eth0'' (formatMAC (Mac 2 0 0 0 0 2)) 0 (Inr sample_iface) sample_answers (Inr [0xab, 0xcd])
      = (Inr (UdpConn 3, s0), evs)" "rsFd (sSender s0) = 4" "\<not> sClosed s0"
    by (simp add: Open_session_def parse_format resolveInterface_def sample_iface_def sample_answers_def openSockets_def
        openRecv_def ListenPacket_def recv_control_def openRawSender_def new_session_def)
  obtain e evs' where down: "Open_session ''eth0'' (formatMAC (Mac 2 0 0 0 0 2)) 7 (Inr sample_iface)
      (sample_answers\<lparr>saSendSocket := Inl (Errno 1)\<rparr>) (Inr [0xab, 0xcd]) = (Inl e, evs')"
    by (simp add: Open_session_def parse_format resolveInterface_def sample_iface_def sample_answers_def openSockets_def
        openRawReceiver_def openRawSender_def)
  show ?thesis
    using descriptors_accounted [OF up(1), of undefined "sys_init s0"] descriptors_accounted [OF down] up down
      reach.init [of undefined s0] by (auto simp: sys_init_def)
qed

text \<open>
  Discovery closes its listener on every path on which it returns, and the type assertion in
  \<open>openListener\<close> never panics.
\<close>

theorem listener_released:
  "\<exists>r evs. Discover_calls la bcast start timeout order turns = (Ret r, evs) \<and> closes_open {#} evs
    \<and> (r \<noteq> None \<longrightarrow> live evs = {#})"
proof -
  obtain l evs where run: "ListenPacket (listener_control la) mndpPort la = (l, evs)"
    by (cases "ListenPacket (listener_control la) mndpPort la")
  have t: "closes_open {#} evs" "fold live_step evs {#} = (case l of Inl e \<Rightarrow> {#} | Inr pc \<Rightarrow> {#packet_fd pc#})"
    using tidy_listener [of la] by (auto simp: tidy_def run split: sum.splits)
  show ?thesis
  proof (cases l)
    case (Inl e)
    then show ?thesis using t run by (simp add: Discover_calls_def openListener_def live_def)
  next
    case (Inr pc)
    then have "pc = UDPConn (packet_fd pc)" using ListenPacket_UDP run by blast
    then obtain fd where fd: "pc = UDPConn fd" by (cases pc) auto
    show ?thesis using t run Inr
      by (cases "Discover (Inr ()) bcast start timeout order turns")
        (simp_all add: Discover_calls_def openListener_def fd live_def closes_open_append)
  qed
qed

section \<open>Sending after the close\<close>

text \<open>
  Nothing keeps a goroutine that has passed its check of \<open>closed\<close> from sending when another
  one has closed the sockets in the meantime: here the receive loop gets END before
  SESSIONSTART goes out.  The descriptor number that \<open>sendto\<close> then uses is no longer the
  session's.
\<close>

definition end_turn :: "session \<Rightarrow> rx_turn" where
  "end_turn s = \<lparr>rtRead = ReadOk headerLen (header_wire (session_header s pTypeEnd 0) DirToClient),
     rtAnswer = None, rtPick = False\<rparr>"

lemma end_turn_closes:
  assumes "sCtxErr s = None" and "\<not> sClosed s"
  shows "sys_next P (sys_init s) (LRx (end_turn s)) = Some (rx_exit (sys_init s) (Session_fail s (Some EOF)))"
proof -
  have "decodeHeader (header_wire (session_header s pTypeEnd 0) DirToClient) DirToClient
      = Inr ((session_header s pTypeEnd 0)\<lparr>hVersion := 1\<rparr>, [])"
    using decode_header_wire [of _ _ "[]"] by simp
  then show ?thesis using assms(1)
    by (simp add: sys_next_def rx_step_def sys_init_def end_turn_def session_header_def pType_defs Let_def)
qed

theorem send_after_close:
  "\<exists>y y'. reach P sample_session y \<and> sSenderCloses (ySess y) = 1
    \<and> sys_next P y (LStart None) = Some y' \<and> length (sSent (ySess y')) = Suc (length (sSent (ySess y)))"
proof -
  define y where "y = rx_exit (sys_init sample_session) (Session_fail sample_session (Some EOF))"
  have step: "sys_next P (sys_init sample_session) (LRx (end_turn sample_session)) = Some y"
    unfolding y_def by (rule end_turn_closes) (simp_all add: sample_session_def new_session_def)
  have r: "reach P sample_session y" using reach.more [OF reach.init sys_step.step [OF step]] .
  have t: "yTask y = TStart" by (simp add: y_def rx_exit_def sys_init_def)
  have closed: "sSenderCloses (ySess y) = 1"
    by (simp add: y_def rx_exit_def sys_init_def rxLoop_exit_def rxPipeW_Close_def Session_fail_def sample_session_def
        new_session_def ctx_cancel_def conn_Close_def sender_Close_def Let_def)
  obtain e s' where send: "sendSessionStart (ySess y) None = (e, s')" by (cases "sendSessionStart (ySess y) None")
  have "e = None \<and> length (sSent s') = Suc (length (sSent (ySess y)))"
    using session_Send_transmits [OF send [unfolded sendSessionStart_def]] transmitted_simps(17) by force
  then have "sys_next P y (LStart None) = Some (move_task y (TKeygen, s'))"
    using t send by (simp add: sys_next_def task_step_def task_sessionstart_def Let_def)
  then show ?thesis using r closed \<open>e = None \<and> _\<close> by (intro exI [of _ y] exI conjI) (auto simp: move_task_def)
qed

end
