(* ===== verification/Peer.thy ===== *)
theory Peer
  imports Session_Facts "HOL-Library.Sublist"
begin

text \<open>
  The other end of a session, as far as the properties speak about it: a device that takes
  the DATA datagrams of the session in sequence, each at the counter behind the bytes it has
  already, and ignores everything else.  It reads the frames that the sender handed to the
  kernel, or those of them that the network did not lose.
\<close>

section \<open>Reading frames\<close>

text \<open>The UDP payload of a frame; its headers have a fixed length.\<close>

definition udp_payload :: "session \<Rightarrow> sendto_call \<Rightarrow> byte list" where
  "udp_payload s call = drop (if rsVlanID (sSender s) \<noteq> 0 then 46 else 42) (scPkt call)"

definition peer_take :: "u16 \<Rightarrow> byte list \<Rightarrow> byte list \<times> u32 \<Rightarrow> byte list \<times> u32" where
  "peer_take key d st =
    (case decodeHeader d DirToServer of
       Inl e \<Rightarrow> st
     | Inr (h, payload) \<Rightarrow>
         if hPType h = pTypeData \<and> hSessionKey h = key \<and> hCounter h = snd st
         then (fst st @ payload, snd st + of_nat (length payload)) else st)"

definition peer_run :: "session \<Rightarrow> sendto_call list \<Rightarrow> byte list \<times> u32 \<Rightarrow> byte list \<times> u32" where
  "peer_run s calls = fold (\<lambda>call. peer_take (sSessionKey s) (udp_payload s call)) calls"

definition peer_reads :: "session \<Rightarrow> u32 \<Rightarrow> sendto_call list \<Rightarrow> byte list" where
  "peer_reads s start calls = fst (peer_run s calls ([], start))"

lemma peer_run_simps [simp]:
  "peer_run s [] st = st"
  "peer_run s (call # calls) st = peer_run s calls (peer_take (sSessionKey s) (udp_payload s call) st)"
  "peer_run s (xs @ ys) st = peer_run s ys (peer_run s xs st)"
  by (simp_all add: peer_run_def)

lemma udp_payload_frame [simp]: "udp_payload s (frame_call s pkt i) = pkt"
  by (simp add: udp_payload_def frame_call_def buildFrame_wire)

lemma same_sender_reads:
  "rsVlanID (sSender s') = rsVlanID (sSender s) \<Longrightarrow> sSessionKey s' = sSessionKey s \<Longrightarrow> peer_run s' = peer_run s"
  by (simp add: peer_run_def udp_payload_def fun_eq_iff)

section \<open>A run of copies\<close>

lemma peer_take_data:
  "peer_take (sSessionKey s) (data_datagram s payload) (bytes, expect)
    = (if ctOut (sCounters s) = expect then (bytes @ payload, expect + of_nat (length payload)) else (bytes, expect))"
  by (simp add: peer_take_def data_datagram_def decode_header_wire session_header_def)

text \<open>The counter behind a payload differs from the one before it.\<close>

lemma counter_moves_nat:
  assumes "0 < n" and "n < 2 ^ 32"
  shows "c + of_nat n \<noteq> (c :: u32)"
proof -
  have "unat (of_nat n :: u32) = n" using assms(2) by (simp add: unat_of_nat)
  then have "(of_nat n :: u32) \<noteq> 0" using assms(1) by (metis less_irrefl unat_0)
  then show ?thesis by simp
qed

lemma counter_moves: "payload \<noteq> [] \<Longrightarrow> length payload < 2 ^ 32 \<Longrightarrow> c + of_nat (length payload) \<noteq> (c :: u32)"
  by (rule counter_moves_nat) simp_all

lemma peer_copies:
  assumes "length payload < 2 ^ 32" and "0 < n"
  shows "peer_run s (map (\<lambda>k. frame_call s (data_datagram s payload) (f k)) [0..<n]) (bytes, ctOut (sCounters s))
    = (bytes @ payload, ctOut (sCounters s) + of_nat (length payload))"
proof -
  let ?later = "(bytes @ payload, ctOut (sCounters s) + of_nat (length payload) :: u32)"
  have again: "peer_take (sSessionKey s) (data_datagram s payload) ?later = ?later"
    using counter_moves [OF _ assms(1)] by (cases "payload = []") (auto simp: peer_take_data)
  have rest: "peer_run s (map (\<lambda>k. frame_call s (data_datagram s payload) (f k)) ks) ?later = ?later" for ks
    by (induction ks) (simp_all add: again)
  obtain m where "n = Suc m" using assms(2) by (cases n) auto
  then have "[0..<n] = 0 # [1..<n]" by (simp add: upt_conv_Cons)
  then show ?thesis by (simp add: peer_take_data rest)
qed

end
