(* ===== verification/System_Peer.thy ===== *)
theory System_Peer
  imports System_Properties Peer
begin

text \<open>
  What the other end of a session reads, over the session's whole life and over a network
  that loses frames: the bytes of the operations, in order and once each, up to the first
  operation of which no copy arrived.
\<close>

section \<open>The peer on datagrams\<close>

definition peer_fold :: "u16 \<Rightarrow> byte list list \<Rightarrow> byte list \<times> u32 \<Rightarrow> byte list \<times> u32" where
  "peer_fold key = fold (peer_take key)"

lemma peer_fold_simps [simp]:
  "peer_fold key [] st = st" "peer_fold key (d # ds) st = peer_fold key ds (peer_take key d st)"
  "peer_fold key (xs @ ys) st = peer_fold key ys (peer_fold key xs st)"
  by (simp_all add: peer_fold_def)

lemma peer_run_fold: "peer_run s calls st = peer_fold (sSessionKey s) (map (udp_payload s) calls) st"
  by (induction calls arbitrary: st) simp_all

lemma peer_take_op:
  "peer_take (sSessionKey s) (op_datagram s (c, payload)) (bytes, expect)
    = (if c = expect then (bytes @ payload, expect + of_nat (length payload)) else (bytes, expect))"
  by (simp add: peer_take_def op_datagram_def decode_header_wire session_header_def)

lemma peer_take_control: "client_header s d \<Longrightarrow> peer_take key d st = st"
  using decode_header_wire [of _ DirToServer "[]"]
  by (auto simp: client_header_def peer_take_def session_header_def pType_defs)

lemma peer_fold_filter:
  "\<forall>d \<in> set ds. is_data d \<or> client_header s d \<Longrightarrow> peer_fold key ds st = peer_fold key (filter is_data ds) st"
  by (induction ds arbitrary: st) (auto simp: peer_take_control)

section \<open>Operations of which all, some or no copies arrive\<close>

text \<open>Between two operations at consecutive counters the counter moves by the bytes between them.\<close>

lemma consecutive_member:
  "consecutive c ops \<Longrightarrow> (c', p) \<in> set ops \<Longrightarrow> \<exists>d. c' = c + of_nat d \<and> d + length p \<le> op_bytes ops"
proof (induction c ops rule: consecutive.induct)
  case (2 c c1 p1 ops)
  show ?case
  proof (cases "(c', p) = (c1, p1)")
    case True
    then show ?thesis using 2(2) by (intro exI [of _ 0]) (simp add: op_bytes_def)
  next
    case False
    then obtain d where "c' = c + of_nat (length p1) + of_nat d" "d + length p \<le> op_bytes ops"
      using 2 by auto
    then show ?thesis by (intro exI [of _ "length p1 + d"]) (simp add: op_bytes_def add.assoc)
  qed
qed simp

lemma later_counter:
  assumes "consecutive (c + of_nat m) ops" and "(c', p) \<in> set ops" and "0 < m" and "m + op_bytes ops < 2 ^ 32"
  shows "c' \<noteq> c"
proof -
  obtain d where "c' = c + of_nat (m + d)" "d + length p \<le> op_bytes ops"
    using consecutive_member [OF assms(1,2)] by (auto simp: add.assoc)
  then show ?thesis using counter_moves_nat [of "m + d" c] assms(3,4) by simp
qed

lemma set_copies: "d \<in> set (copies s ns ops) \<Longrightarrow> \<exists>op \<in> set ops. d = op_datagram s op"
  unfolding copies_def by (auto dest: set_zip_rightD)

text \<open>Behind an operation that was lost, nothing is taken any more.\<close>

lemma peer_stuck:
  assumes "\<forall>d \<in> set ds. \<exists>op \<in> set ops. d = op_datagram s op"
    and "consecutive (c + of_nat m) ops" and "0 < m" and "m + op_bytes ops < 2 ^ 32"
  shows "peer_fold (sSessionKey s) ds (bytes, c) = (bytes, c)"
  using assms(1)
proof (induction ds)
  case (Cons d ds)
  then obtain c' p where op: "(c', p) \<in> set ops" "d = op_datagram s (c', p)" by auto
  show ?case using Cons later_counter [OF assms(2) op(1) assms(3,4)] by (simp add: op(2) peer_take_op)
qed simp

lemma op_datagram_eq: "op_datagram s (c, p) = op_datagram s (c', p') \<longleftrightarrow> c = c' \<and> p = p'"
proof
  assume "op_datagram s (c, p) = op_datagram s (c', p')"
  then have "decodeHeader (op_datagram s (c, p)) DirToServer = decodeHeader (op_datagram s (c', p')) DirToServer"
    by simp
  then show "c = c' \<and> p = p'" by (simp add: op_datagram_def decode_header_wire session_header_def)
qed simp

lemma peer_op_lost:
  assumes "\<forall>d \<in> set ds. \<exists>op \<in> set ops. d = op_datagram s op" and "consecutive (c + of_nat (length p)) ops"
    and "p \<noteq> []" and "length p + op_bytes ops < 2 ^ 32"
  shows "peer_fold (sSessionKey s) ds (bytes, c) = (bytes, c)" and "op_datagram s (c, p) \<notin> set ds"
proof -
  have p: "0 < length p" using assms(3) by simp
  show "peer_fold (sSessionKey s) ds (bytes, c) = (bytes, c)" by (rule peer_stuck [OF assms(1,2) p assms(4)])
  show "op_datagram s (c, p) \<notin> set ds"
  proof
    assume "op_datagram s (c, p) \<in> set ds"
    then obtain c' p' where "(c', p') \<in> set ops" "op_datagram s (c, p) = op_datagram s (c', p')" using assms(1) by auto
    then show False using later_counter [OF assms(2) _ p assms(4), of c' p'] by (simp add: op_datagram_eq)
  qed
qed

text \<open>An operation of which a copy arrives is taken once; one without bytes may be lost.\<close>

lemma peer_op_heard:
  assumes "length payload < 2 ^ 32" and "0 < n \<or> payload = []"
  shows "peer_fold (sSessionKey s) (replicate n (op_datagram s (c, payload))) (bytes, c)
    = (bytes @ payload, c + of_nat (length payload))"
proof -
  let ?d = "op_datagram s (c, payload)" and ?later = "(bytes @ payload, c + of_nat (length payload))"
  have "peer_take (sSessionKey s) ?d ?later = ?later"
    using counter_moves [OF _ assms(1)] by (cases "payload = []") (auto simp: peer_take_op)
  then have "peer_fold (sSessionKey s) (replicate m ?d) ?later = ?later" for m by (induction m) simp_all
  then show ?thesis using assms(2) by (cases n) (simp_all add: peer_take_op)
qed

lemma later_datagram:
  assumes "consecutive (c + of_nat (length p)) ops" and "length p + op_bytes ops < 2 ^ 32" and "op \<in> set ops" and "snd op \<noteq> []"
  shows "op_datagram s op \<noteq> op_datagram s (c, p)"
proof -
  obtain c' p' where op: "op = (c', p')" by fastforce
  have "c' \<noteq> c" if "p \<noteq> []"
    using later_counter [OF assms(1) _ _ assms(2), of c' p'] assms(3) that op by simp
  then show ?thesis using assms(4) by (auto simp: op op_datagram_eq)
qed

text \<open>
  \<open>heard_first s ops ds j\<close>: the first \<open>j\<close> operations were heard, and if there is another, it
  carries bytes and no copy of it is among \<open>ds\<close>.
\<close>

definition heard_first :: "session \<Rightarrow> (u32 \<times> byte list) list \<Rightarrow> byte list list \<Rightarrow> nat \<Rightarrow> bool" where
  "heard_first s ops ds j \<longleftrightarrow> j \<le> length ops
    \<and> (j < length ops \<longrightarrow> snd (ops ! j) \<noteq> [] \<and> op_datagram s (ops ! j) \<notin> set ds)"

lemma subseq_set: "subseq xs ys \<Longrightarrow> set xs \<subseteq> set ys"
  by (auto dest: list_emb_set)

lemma subseq_replicate: "subseq xs (replicate n d) \<Longrightarrow> xs = replicate (length xs) d"
  using subseq_set [of xs "replicate n d"] by (intro replicate_eqI) auto

lemma peer_hears_first:
  assumes "consecutive c ops" and "op_bytes ops < 2 ^ 32" and "length ns = length ops"
    and "subseq ds (copies s ns ops)"
  shows "\<exists>j. heard_first s ops ds j
    \<and> fst (peer_fold (sSessionKey s) ds (bytes, c)) = bytes @ concat (map snd (take j ops))"
  using assms
proof (induction c ops arbitrary: ns ds bytes rule: consecutive.induct)
  case (1 c)
  then have "ds = []" by (simp add: copies_def)
  then show ?case by (simp add: heard_first_def)
next
  case (2 c c1 p ops)
  obtain n ns' where ns: "ns = n # ns'" using 2(4) by (cases ns) auto
  have c1: "c1 = c" and later: "consecutive (c + of_nat (length p)) ops" using 2(2) by simp_all
  have small: "length p + op_bytes ops < 2 ^ 32" using 2(3) by (simp add: op_bytes_def)
  let ?d = "op_datagram s (c, p)"
  have "copies s ns ((c, p) # ops) = replicate n ?d @ copies s ns' ops" by (simp add: copies_def ns)
  then obtain xs ys where ds: "ds = xs @ ys" "subseq xs (replicate n ?d)" "subseq ys (copies s ns' ops)"
    using 2(5) by (auto simp: c1 elim: subseq_appendE)
  define m where "m = length xs"
  have xs: "xs = replicate m ?d" unfolding m_def by (rule subseq_replicate [OF ds(2)])
  have ys: "\<forall>d \<in> set ys. \<exists>op \<in> set ops. d = op_datagram s op"
    using ds(3) set_copies by (meson subseq_set subsetD)
  show ?case
  proof (cases "m = 0 \<and> p \<noteq> []")
    case True
    then have "ds = ys" "p \<noteq> []" using ds(1) xs by simp_all
    then show ?thesis using peer_op_lost(1) [OF ys later _ small, of bytes] peer_op_lost(2) [OF ys later _ small]
      by (intro exI [of _ 0]) (simp add: heard_first_def c1)
  next
    case False
    then have front: "peer_fold (sSessionKey s) xs (bytes, c) = (bytes @ p, c + of_nat (length p))"
      using peer_op_heard [of p m s c bytes] small by (auto simp: xs)
    obtain j where j: "heard_first s ops ys j"
        "fst (peer_fold (sSessionKey s) ys (bytes @ p, c + of_nat (length p))) = (bytes @ p) @ concat (map snd (take j ops))"
      using 2(1) [OF later _ _ ds(3), of "bytes @ p"] small 2(4) ns by auto
    have "op_datagram s (ops ! j) \<notin> set xs" if less: "j < length ops"
      using later_datagram [OF later small nth_mem [OF less], of s] j(1) less by (auto simp: heard_first_def xs)
    then have "heard_first s ((c1, p) # ops) ds (Suc j)" using j(1) by (simp add: heard_first_def ds(1))
    then show ?thesis using j(2) front by (intro exI [of _ "Suc j"]) (simp add: ds(1))
  qed
qed

section \<open>Over the life of a session\<close>

lemma emits_payloads:
  assumes "emits s ds s'" and "sSent s = []"
  shows "map (udp_payload s') (sSent s') = ds"
proof -
  have "udp_payload s' = udp_payload s" using assms(1) by (auto simp: emits_def udp_payload_def fun_eq_iff)
  moreover have "sSent s' = map (\<lambda>k. frame_call s (ds ! k) (rsIpID (sSender s) + 1 + of_nat k)) [0..<length ds]"
    using assms by (simp add: emits_def)
  ultimately show ?thesis by (intro nth_equalityI) simp_all
qed

lemma op_in_copies:
  assumes "length ns = length ops" and "\<forall>n \<in> set ns. 1 \<le> n" and "op \<in> set ops"
  shows "op_datagram s op \<in> set (copies s ns ops)"
proof -
  obtain i where i: "i < length ops" "op = ops ! i" using assms(3) by (auto simp: in_set_conv_nth)
  then have "(ns ! i, op) \<in> set (zip ns ops)" using assms(1) by (auto simp: in_set_zip)
  moreover have "1 \<le> ns ! i" using assms(1,2) i(1) by simp
  ultimately have "op_datagram s op \<in> set (replicate (ns ! i) (op_datagram s op))"
      and "replicate (ns ! i) (op_datagram s op) \<in> set (map2 (\<lambda>n op. replicate n (op_datagram s op)) ns ops)"
    by (auto simp: image_iff intro: bexI [of _ "(ns ! i, op)"])
  then show ?thesis unfolding copies_def set_concat by blast
qed

section \<open>Properties\<close>

text \<open>
  C7.  The sequencing does its work over a network that loses frames.  Whatever part of the
  frames of a session arrives, a peer that takes each DATA at the counter behind the bytes
  it has already reads exactly the payloads of the first so many operations, in order and
  once each, and the next operation is one of which no copy arrived; when every frame
  arrives it reads all of them.
\<close>

theorem peer_reassembles:
  assumes "reach P (new_session sender src dst key) y" and "op_bytes (yOps y) < 2 ^ 32"
    and "subseq calls (sSent (ySess y))"
  shows "\<exists>j \<le> length (yOps y). peer_reads (ySess y) 0 calls = concat (map snd (take j (yOps y)))
    \<and> (j < length (yOps y) \<longrightarrow> op_datagram (ySess y) (yOps y ! j) \<notin> udp_payload (ySess y) ` set calls)
    \<and> (calls = sSent (ySess y) \<longrightarrow> j = length (yOps y))"
proof -
  let ?init = "new_session sender src dst key" and ?cur = "ySess y" and ?ops = "yOps y"
  let ?arrived = "map (udp_payload (ySess y)) calls"
  have start: "sSent ?init = []" "ctOut (sCounters ?init) = 0" by (simp_all add: new_session_def zero_counters_def)
  obtain ds ns where ds: "emits ?init ds ?cur" "\<forall>d \<in> set ds. is_data d \<or> client_header ?init d"
      "length ns = length ?ops" "\<forall>n \<in> set ns. 1 \<le> n \<and> n \<le> max_copies (pCfg P)"
      "filter is_data ds = copies ?init ns ?ops" "consecutive (ctOut (sCounters ?init)) ?ops"
    using wire_reach [OF assms(1)] unfolding wire_inv_def by blast
  have op: "op_datagram ?cur = op_datagram ?init"
    by (simp add: fun_eq_iff op_datagram_def session_header_emits [OF ds(1)])
  have key: "sSessionKey ?cur = sSessionKey ?init" using ds(1) by (simp add: emits_def)
  have sent: "map (udp_payload ?cur) (sSent ?cur) = ds" by (rule emits_payloads [OF ds(1) start(1)])
  then have sub: "subseq ?arrived ds" using subseq_map [OF assms(3)] by metis
  then have data: "subseq (filter is_data ?arrived) (copies ?init ns ?ops)" using subseq_filter ds(5) by metis
  have "consecutive 0 ?ops" using ds(6) start(2) by simp
  from peer_hears_first [OF this assms(2) ds(3) data, of "[]"]
  obtain j where j: "heard_first ?init ?ops (filter is_data ?arrived) j"
      "fst (peer_fold (sSessionKey ?init) (filter is_data ?arrived) ([], 0)) = concat (map snd (take j ?ops))"
    unfolding append_Nil by blast
  have "\<forall>d \<in> set ?arrived. is_data d \<or> client_header ?init d" using ds(2) subseq_set [OF sub] by blast
  note only_data = peer_fold_filter [OF this]
  have "peer_reads ?cur 0 calls = concat (map snd (take j ?ops))"
    unfolding peer_reads_def peer_run_fold key only_data by (rule j(2))
  moreover have "op_datagram ?cur (?ops ! j) \<notin> udp_payload ?cur ` set calls" if "j < length ?ops"
  proof
    assume "op_datagram ?cur (?ops ! j) \<in> udp_payload ?cur ` set calls"
    then have "op_datagram ?init (?ops ! j) \<in> set (filter is_data ?arrived)"
      unfolding op set_filter set_map using is_data_op by blast
    then show False using j(1) that unfolding heard_first_def by blast
  qed
  moreover have "j = length ?ops" if all: "calls = sSent ?cur"
  proof (rule ccontr)
    assume "j \<noteq> length ?ops"
    then have less: "j < length ?ops" using j(1) by (simp add: heard_first_def)
    have "op_datagram ?init (?ops ! j) \<in> set (copies ?init ns ?ops)"
      using op_in_copies [OF ds(3)] ds(4) nth_mem [OF less] by blast
    then show False using j(1) less ds(5) sent all by (auto simp: heard_first_def)
  qed
  ultimately show ?thesis using j(1) by (intro exI [of _ j]) (simp add: heard_first_def)
qed

theorem peer_reassembles_witness:
  "\<exists>y payload. reach sample_params sample_session y \<and> length payload = 57
    \<and> peer_reads (ySess y) 0 (sSent (ySess y)) = payload"
proof -
  obtain pub where k: "mtwei_keygen newMtweiState (Inr (replicate 32 0) :: err + byte list) None = Ret (Inr (64, pub))"
    by (rule sample_keygen)
  let ?payload = "concat (map control_wire (auth_init_records ''admin'' pub))"
  obtain y2 where r: "run sample_params (sys_init sample_session) [LStart None, LKeygen (Inr (replicate 32 0))] = Some y2"
    and t: "yTask y2 = TDrain ?payload (CInit 64 pub)" and rest: "at_rest sample_session y2" and ops: "yOps y2 = []"
    using first_steps [OF sample_session_def k, of sample_params] by force
  obtain y' where r': "run sample_params y2 (acked_send sample_session (ctOut (sCounters (ySess y2)) + of_nat (length ?payload)))
      = Some y'" and ops': "yOps y' = [(ctOut (sCounters (ySess y2)), ?payload)]"
    using acked_send_run [OF t rest, of sample_params] ops by (metis append_Nil sample_params_simps(1,4))
  have y': "reach sample_params sample_session y'" using run_reach [OF run_reach [OF reach.init r] r'] .
  have "length pub = 33" by (rule task_keygen_ok(1) [OF k, of "[]"]) simp
  then have l: "length ?payload = 57" using auth_init_length [of "''admin''" pub] by simp
  have few: "op_bytes (yOps y') < 2 ^ 32" by (simp only: ops' op_bytes_def) (simp add: l del: length_concat)
  from peer_reassembles [OF y' [unfolded sample_session_def] few, of "sSent (ySess y')"]
  have "peer_reads (ySess y') 0 (sSent (ySess y')) = ?payload" by (auto simp: ops')
  then show ?thesis using y' l by blast
qed

end
