(* ===== verification/Text.thy ===== *)
theory Text
  imports Mac_Text
begin

text \<open>
  What the program uses of Go's packages \<^verbatim>\<open>unicode/utf8\<close>, \<^verbatim>\<open>unicode\<close> and \<^verbatim>\<open>strings\<close>,
  and of \<^verbatim>\<open>fmt\<close>'s padding.  A Go string is a list of bytes, here characters; ranging over it
  yields runes, and a byte that is not part of valid UTF-8 yields the replacement rune.
\<close>

section \<open>UTF-8\<close>

type_synonym rune = nat

definition RuneError :: rune where "RuneError = 0xfffd"

definition byte_char :: "nat \<Rightarrow> char" where
  "byte_char n = char_of n"

lemma code_byte_char [simp]: "n < 256 \<Longrightarrow> code (byte_char n) = n"
  by (simp add: code_def byte_char_def)

lemma byte_char_code [simp]: "byte_char (code c) = c"
  by (simp add: code_def byte_char_def)

lemma code_lt [simp]: "code c < 256"
proof -
  have "code c mod 256 = code c" by (simp add: code_def)
  then show ?thesis by (metis mod_less_divisor zero_less_numeral)
qed

lemma code_inject [simp]: "code c = code d \<longleftrightarrow> c = d"
  by (simp add: code_def)

definition continuation :: "nat \<Rightarrow> bool" where
  "continuation n \<longleftrightarrow> 0x80 \<le> n \<and> n \<le> 0xbf"

text \<open>\<^verbatim>\<open>DecodeRuneInString\<close>: the rune at the front and its width, \<open>(RuneError, 1)\<close> when it is invalid.\<close>

definition decode2 :: "nat \<Rightarrow> nat \<Rightarrow> nat" where "decode2 a b = (a - 0xc0) * 64 + (b - 0x80)"
definition decode3 :: "nat \<Rightarrow> nat \<Rightarrow> nat \<Rightarrow> nat" where
  "decode3 a b c = (a - 0xe0) * 4096 + (b - 0x80) * 64 + (c - 0x80)"
definition decode4 :: "nat \<Rightarrow> nat \<Rightarrow> nat \<Rightarrow> nat \<Rightarrow> nat" where
  "decode4 a b c d = (a - 0xf0) * 262144 + (b - 0x80) * 4096 + (c - 0x80) * 64 + (d - 0x80)"

definition second_ok :: "nat \<Rightarrow> nat \<Rightarrow> bool" where
  "second_ok a b \<longleftrightarrow>
    (if a = 0xe0 then 0xa0 else if a = 0xf0 then 0x90 else 0x80) \<le> b
    \<and> b \<le> (if a = 0xed then 0x9f else if a = 0xf4 then 0x8f else 0xbf)"

definition decode_rune :: "string \<Rightarrow> rune \<times> nat" where
  "decode_rune s =
    (case map code (take 4 s) of
       [] \<Rightarrow> (RuneError, 0)
     | a # rest \<Rightarrow>
         if a < 0x80 then (a, 1)
         else if 0xc2 \<le> a \<and> a \<le> 0xdf then
           (case rest of b # _ \<Rightarrow> if continuation b then (decode2 a b, 2) else (RuneError, 1) | _ \<Rightarrow> (RuneError, 1))
         else if 0xe0 \<le> a \<and> a \<le> 0xef then
           (case rest of
              b # c # _ \<Rightarrow> if second_ok a b \<and> continuation c then (decode3 a b c, 3) else (RuneError, 1)
            | _ \<Rightarrow> (RuneError, 1))
         else if 0xf0 \<le> a \<and> a \<le> 0xf4 then
           (case rest of
              b # c # d # _ \<Rightarrow>
                if second_ok a b \<and> continuation c \<and> continuation d then (decode4 a b c d, 4) else (RuneError, 1)
            | _ \<Rightarrow> (RuneError, 1))
         else (RuneError, 1))"

definition encode_rune :: "rune \<Rightarrow> string" where
  "encode_rune r =
    map byte_char
     (if r < 0x80 then [r]
      else if r < 0x800 then [0xc0 + r div 64, 0x80 + r mod 64]
      else if 0xd800 \<le> r \<and> r \<le> 0xdfff \<or> 0x10ffff < r then [0xef, 0xbf, 0xbd]
      else if r < 0x10000 then [0xe0 + r div 4096, 0x80 + r div 64 mod 64, 0x80 + r mod 64]
      else [0xf0 + r div 262144, 0x80 + r div 4096 mod 64, 0x80 + r div 64 mod 64, 0x80 + r mod 64])"

lemma decode_rune_width: "s \<noteq> [] \<Longrightarrow> 0 < snd (decode_rune s)"
  by (cases s) (auto simp: decode_rune_def split: list.splits)

text \<open>
  The runes of a string, each with the bytes it was read from, as \<^verbatim>\<open>for i, r := range s\<close>
  meets them.
\<close>

function segments :: "string \<Rightarrow> (rune \<times> string) list" where
  "segments s =
    (if s = [] then []
     else (fst (decode_rune s), take (snd (decode_rune s)) s) # segments (drop (snd (decode_rune s)) s))"
  by pat_completeness auto
termination
  by (relation "measure length") (auto simp: decode_rune_width)

declare segments.simps [simp del]

lemma segments_Nil [simp]: "segments [] = []"
  by (subst segments.simps) simp

lemma concat_segments [simp]: "concat (map snd (segments s)) = s"
proof (induction s rule: segments.induct)
  case (1 s)
  show ?case by (subst segments.simps) (use 1 in simp)
qed

definition runes :: "string \<Rightarrow> rune list" where
  "runes s = map fst (segments s)"

lemma runes_Nil [simp]: "runes [] = []"
  by (simp add: runes_def)

definition valid_rune :: "rune \<Rightarrow> bool" where
  "valid_rune r \<longleftrightarrow> r \<le> 0x10ffff \<and> \<not> (0xd800 \<le> r \<and> r \<le> 0xdfff)"

text \<open>Valid UTF-8: the encoding of valid runes.\<close>

definition utf8 :: "rune list \<Rightarrow> string" where
  "utf8 rs = concat (map encode_rune rs)"

lemma base64_digits:
  fixes r :: nat
  shows "4096 * (r div 4096) + 64 * (r div 64 mod 64) + r mod 64 = r"
    and "262144 * (r div 262144) + 4096 * (r div 4096 mod 64) + 64 * (r div 64 mod 64) + r mod 64 = r"
proof -
  have "r div 4096 = r div 64 div 64" and "r div 262144 = r div 4096 div 64"
    by (simp_all flip: div_mult2_eq)
  moreover have "64 * (r div 64) + r mod 64 = r" "64 * (r div 64 div 64) + r div 64 mod 64 = r div 64"
    "64 * (r div 4096 div 64) + r div 4096 mod 64 = r div 4096" by simp_all
  ultimately show "4096 * (r div 4096) + 64 * (r div 64 mod 64) + r mod 64 = r"
    and "262144 * (r div 262144) + 4096 * (r div 4096 mod 64) + 64 * (r div 64 mod 64) + r mod 64 = r"
    by linarith+
qed

lemma decode_encode:
  assumes "valid_rune r"
  shows "decode_rune (encode_rune r @ s) = (r, length (encode_rune r))"
proof -
  consider "r < 0x80" | "0x80 \<le> r" "r < 0x800" | "0x800 \<le> r" "r < 0x10000" "\<not> (0xd800 \<le> r \<and> r \<le> 0xdfff)"
    | "0x10000 \<le> r" "r \<le> 0x10ffff"
    using assms by (force simp: valid_rune_def)
  then show ?thesis
  proof cases
    case 1
    then show ?thesis by (simp add: encode_rune_def decode_rune_def)
  next
    case 2
    have b: "0xc0 + r div 64 < 256" "0x80 + r mod 64 < 256" using 2 by auto
    have "0xc2 \<le> 0xc0 + r div 64" "0xc0 + r div 64 \<le> 0xdf" using 2 by auto
    moreover have "decode2 (0xc0 + r div 64) (0x80 + r mod 64) = r" by (simp add: decode2_def)
    ultimately show ?thesis using 2 b by (simp add: encode_rune_def decode_rune_def continuation_def)
  next
    case 3
    define a b c where "a = r div 4096" and "b = r div 64 mod 64" and "c = r mod 64"
    have r: "r = 4096 * a + 64 * b + c" and bc: "b < 64" "c < 64"
      using base64_digits [of r] by (simp_all add: a_def b_def c_def)
    have s: "second_ok (0xe0 + a) (0x80 + b)" and a: "a < 16" "a = 0 \<longrightarrow> 32 \<le> b"
      using 3 bc unfolding r second_ok_def by auto
    have e: "encode_rune r = map byte_char [0xe0 + a, 0x80 + b, 0x80 + c]"
      using 3 by (auto simp: encode_rune_def a_def b_def c_def)
    have d: "decode3 (0xe0 + a) (0x80 + b) (0x80 + c) = r" by (simp add: decode3_def r)
    show ?thesis unfolding e using s a bc d by (simp add: decode_rune_def continuation_def)
  next
    case 4
    define a b c d where "a = r div 262144" and "b = r div 4096 mod 64" and "c = r div 64 mod 64" and "d = r mod 64"
    have r: "r = 262144 * a + 4096 * b + 64 * c + d" and bcd: "b < 64" "c < 64" "d < 64"
      using base64_digits [of r] by (simp_all add: a_def b_def c_def d_def)
    have s: "second_ok (0xf0 + a) (0x80 + b)" and a: "a < 5"
      using 4 bcd unfolding r second_ok_def by auto
    have e: "encode_rune r = map byte_char [0xf0 + a, 0x80 + b, 0x80 + c, 0x80 + d]"
      using 4 by (simp add: encode_rune_def a_def b_def c_def d_def)
    have d: "decode4 (0xf0 + a) (0x80 + b) (0x80 + c) (0x80 + d) = r" by (simp add: decode4_def r)
    show ?thesis unfolding e using s a bcd d by (simp add: decode_rune_def continuation_def)
  qed
qed

lemma encode_rune_nonempty [simp]: "encode_rune r \<noteq> []"
  by (simp add: encode_rune_def)

lemma segments_encode:
  "valid_rune r \<Longrightarrow> segments (encode_rune r @ s) = (r, encode_rune r) # segments s"
  by (subst segments.simps) (simp add: decode_encode)

lemma segments_utf8_append:
  "\<forall>r \<in> set rs. valid_rune r \<Longrightarrow>
   segments (utf8 rs @ s) = map (\<lambda>r. (r, encode_rune r)) rs @ segments s"
  by (induction rs) (simp_all add: utf8_def segments_encode)

lemma runes_utf8_append: "\<forall>r \<in> set rs. valid_rune r \<Longrightarrow> runes (utf8 rs @ s) = rs @ runes s"
  by (simp add: runes_def segments_utf8_append o_def)

lemma runes_utf8: "\<forall>r \<in> set rs. valid_rune r \<Longrightarrow> runes (utf8 rs) = rs"
  using runes_utf8_append [of rs "[]"] by simp

text \<open>ASCII text is its own encoding.\<close>

definition ascii :: "string \<Rightarrow> bool" where
  "ascii s \<longleftrightarrow> (\<forall>c \<in> set s. code c < 128)"

lemma ascii_simps [simp]: "ascii []" "ascii (c # s) \<longleftrightarrow> code c < 128 \<and> ascii s"
  "ascii (s @ t) \<longleftrightarrow> ascii s \<and> ascii t" "ascii (rev s) \<longleftrightarrow> ascii s"
  by (auto simp: ascii_def)

lemma encode_rune_ascii: "code c < 128 \<Longrightarrow> encode_rune (code c) = [c]"
  by (simp add: encode_rune_def)

lemma segments_ascii_Cons: "code c < 128 \<Longrightarrow> segments (c # s) = (code c, [c]) # segments s"
  using segments_encode [of "code c" s] by (simp add: encode_rune_ascii valid_rune_def)

lemma segments_ascii: "ascii s \<Longrightarrow> segments (s @ t) = map (\<lambda>c. (code c, [c])) s @ segments t"
  by (induction s) (simp_all add: segments_ascii_Cons)

lemma runes_ascii: "ascii s \<Longrightarrow> runes s = map code s"
  using segments_ascii [of s "[]"] by (simp add: runes_def)

section \<open>White space\<close>

text \<open>\<^verbatim>\<open>unicode.IsSpace\<close>: six ASCII characters, NEL, NBSP and the \<^verbatim>\<open>White_Space\<close> runes beyond Latin-1.\<close>

definition IsSpace :: "rune \<Rightarrow> bool" where
  "IsSpace r \<longleftrightarrow>
    9 \<le> r \<and> r \<le> 13 \<or> r = 0x20 \<or> r = 0x85 \<or> r = 0xa0 \<or> r = 0x1680 \<or> 0x2000 \<le> r \<and> r \<le> 0x200a
    \<or> r = 0x2028 \<or> r = 0x2029 \<or> r = 0x202f \<or> r = 0x205f \<or> r = 0x3000"

text \<open>
  \<^verbatim>\<open>strings.TrimSpace\<close>.  Go trims the right end by decoding backwards; as a lead byte is
  never inside another rune, the last rune read backwards is the last segment.
\<close>

definition TrimSpace :: "string \<Rightarrow> string" where
  "TrimSpace s =
    (let sp = \<lambda>x. IsSpace (fst x)
     in concat (map snd (rev (dropWhile sp (rev (dropWhile sp (segments s)))))))"

text \<open>\<^verbatim>\<open>strings.Fields\<close>: the runs of runes that are not white space.\<close>

fun fields_loop :: "(rune \<times> string) list \<Rightarrow> string \<Rightarrow> string list" where
  "fields_loop [] cur = (if cur = [] then [] else [cur])"
| "fields_loop ((r, b) # rest) cur =
    (if IsSpace r then (if cur = [] then [] else [cur]) @ fields_loop rest []
     else fields_loop rest (cur @ b))"

definition Fields :: "string \<Rightarrow> string list" where
  "Fields s = fields_loop (segments s) []"

section \<open>Other functions of strings\<close>

text \<open>\<^verbatim>\<open>strings.Split\<close> with a separator of one character: one piece more than separators.\<close>

fun Split :: "string \<Rightarrow> char \<Rightarrow> string list" where
  "Split [] sep = [[]]"
| "Split (c # s) sep =
    (if c = sep then [] # Split s sep
     else case Split s sep of [] \<Rightarrow> [[c]] | p # ps \<Rightarrow> (c # p) # ps)"

lemma Split_nonempty [simp]: "Split s sep \<noteq> []"
  by (cases s) (auto split: list.splits)

lemma Split_no_sep: "sep \<notin> set s \<Longrightarrow> Split s sep = [s]"
  by (induction s) auto

lemma Split_sep: "sep \<notin> set s \<Longrightarrow> Split (s @ sep # t) sep = s # Split t sep"
  by (induction s) auto

definition HasPrefix :: "string \<Rightarrow> string \<Rightarrow> bool" where
  "HasPrefix s p \<longleftrightarrow> take (length p) s = p"

definition CutPrefix :: "string \<Rightarrow> string \<Rightarrow> string option" where
  "CutPrefix s p = (if HasPrefix s p then Some (drop (length p) s) else None)"

definition TrimPrefix :: "string \<Rightarrow> string \<Rightarrow> string" where
  "TrimPrefix s p = (case CutPrefix s p of Some t \<Rightarrow> t | None \<Rightarrow> s)"

lemma HasPrefix_append [simp]: "HasPrefix (p @ s) p"
  by (simp add: HasPrefix_def)

lemma CutPrefix_append [simp]: "CutPrefix (p @ s) p = Some s"
  by (simp add: CutPrefix_def)

text \<open>\<^verbatim>\<open>strings.Join\<close>.\<close>

fun Join :: "string list \<Rightarrow> string \<Rightarrow> string" where
  "Join [] sep = []"
| "Join [s] sep = s"
| "Join (s # t # ss) sep = s @ sep @ Join (t # ss) sep"

text \<open>
  \<^verbatim>\<open>strings.ToLower\<close> on ASCII.  The program compares the result with ASCII words without an
  \<open>i\<close> or a \<open>k\<close>, the only ASCII letters that are the lower case of a rune outside ASCII.
\<close>

definition ToLower :: "string \<Rightarrow> string" where
  "ToLower s = map (\<lambda>c. if 65 \<le> code c \<and> code c \<le> 90 then byte_char (code c + 32) else c) s"

section \<open>Formatting (fmt)\<close>

text \<open>\<^verbatim>\<open>%-*s\<close> and \<^verbatim>\<open>%*s\<close> pad to a number of runes.\<close>

definition pad_right :: "nat \<Rightarrow> string \<Rightarrow> string" where
  "pad_right n s = s @ replicate (n - length (runes s)) CHR '' ''"

definition pad_left :: "nat \<Rightarrow> string \<Rightarrow> string" where
  "pad_left n s = replicate (n - length (runes s)) CHR '' '' @ s"

lemma length_pad [simp]:
  "ascii s \<Longrightarrow> length (pad_right n s) = max n (length s)"
  "ascii s \<Longrightarrow> length (pad_left n s) = max n (length s)"
  by (simp_all add: pad_right_def pad_left_def runes_ascii)

text \<open>\<^verbatim>\<open>%d\<close> of a signed integer.\<close>

definition show_int :: "int \<Rightarrow> string" where
  "show_int i = (if i < 0 then CHR ''-'' # decimal (nat (- i)) else decimal (nat i))"

text \<open>A line feed, which Isabelle's string literals write \<open>CHR 0x0A\<close>.\<close>

abbreviation nl :: char where "nl \<equiv> CHR 0x0A"

lemma code_nl [simp]: "code CHR 0x0A = 10" "code CHR '' '' = 32" "code CHR 0x0D = 13" "code CHR 0x09 = 9"
  by (simp_all add: code_def)

lemma ascii_digit [simp]: "n < 10 \<Longrightarrow> code (digit n) = 48 + n"
  by (simp add: digit_def code_def)

lemma decimal_step: "decimal n = (if n < 10 then [digit n] else decimal (n div 10) @ [digit (n mod 10)])"
  by (rule decimal.simps)

lemma decimal_digits: "\<forall>c \<in> set (decimal n). 48 \<le> code c \<and> code c \<le> 57"
proof (induction n rule: decimal.induct)
  case (1 n)
  then show ?case by (subst decimal_step) auto
qed

lemma decimal_nonempty [simp]: "decimal n \<noteq> []"
  by (subst decimal_step) simp

lemma ascii_decimal [simp]: "ascii (decimal n)"
  using decimal_digits [of n] by (auto simp: ascii_def)

section \<open>Words and lines of ASCII text\<close>

text \<open>A word: ASCII without white space.\<close>

definition word_text :: "string \<Rightarrow> bool" where
  "word_text w \<longleftrightarrow> w \<noteq> [] \<and> (\<forall>c \<in> set w. code c < 128 \<and> \<not> IsSpace (code c))"

lemma fields_word:
  "\<forall>c \<in> set w. code c < 128 \<and> \<not> IsSpace (code c) \<Longrightarrow>
   fields_loop (segments (w @ s)) cur = fields_loop (segments s) (cur @ w)"
  by (induction w arbitrary: cur) (simp_all add: segments_ascii_Cons)

lemma fields_space:
  "code c < 128 \<Longrightarrow> IsSpace (code c) \<Longrightarrow>
   fields_loop (segments (c # s)) cur = (if cur = [] then [] else [cur]) @ fields_loop (segments s) []"
  by (simp add: segments_ascii_Cons)

lemma Fields_word: "word_text w \<Longrightarrow> code c < 128 \<Longrightarrow> IsSpace (code c) \<Longrightarrow> Fields (w @ c # s) = w # Fields s"
  by (simp add: Fields_def word_text_def fields_word fields_space)

lemma Fields_space: "code c < 128 \<Longrightarrow> IsSpace (code c) \<Longrightarrow> Fields (c # s) = Fields s"
  by (simp add: Fields_def fields_space)

lemma TrimSpace_ascii:
  assumes "ascii s"
  shows "TrimSpace s = rev (dropWhile (\<lambda>c. IsSpace (code c)) (rev (dropWhile (\<lambda>c. IsSpace (code c)) s)))"
proof -
  have seg: "segments s = map (\<lambda>c. (code c, [c])) s" using segments_ascii [OF assms, of "[]"] by simp
  have one: "concat (map (\<lambda>c. [c]) t) = t" for t :: string by (induction t) auto
  show ?thesis unfolding TrimSpace_def Let_def seg
    by (simp add: dropWhile_map rev_map o_def one)
qed

lemma TrimSpace_word:
  assumes "ascii s" and "s \<noteq> []" and "\<not> IsSpace (code (hd s))" and "\<not> IsSpace (code (last s))"
  shows "TrimSpace s = s"
proof -
  have "dropWhile (\<lambda>c. IsSpace (code c)) s = s" using assms(2,3) by (cases s) auto
  moreover have "dropWhile (\<lambda>c. IsSpace (code c)) (rev s) = rev s"
    using assms(2,4) by (cases s rule: rev_cases) auto
  ultimately show ?thesis by (simp add: TrimSpace_ascii [OF assms(1)])
qed

lemma TrimSpace_space: "ascii (c # s) \<Longrightarrow> IsSpace (code c) \<Longrightarrow> TrimSpace (c # s) = TrimSpace s"
  by (simp add: TrimSpace_ascii)

lemma Split_Join:
  "\<forall>p \<in> set ps. sep \<notin> set p \<Longrightarrow> ps \<noteq> [] \<Longrightarrow> Split (Join ps [sep]) sep = ps"
proof (induction ps)
  case (Cons p ps)
  then show ?case by (cases ps) (simp_all add: Split_sep Split_no_sep)
qed simp

end
