(* ===== verification/Flags.thy ===== *)
theory Flags
  imports Text
begin

text \<open>
  Number and flag parsing of Go's standard library, as far as the program uses it:
  \<^verbatim>\<open>strconv.ParseUint\<close>, \<^verbatim>\<open>ParseInt\<close>, \<^verbatim>\<open>Atoi\<close>, \<^verbatim>\<open>ParseBool\<close>,
  \<^verbatim>\<open>time.ParseDuration\<close> and \<^verbatim>\<open>flag.FlagSet.Parse\<close> for string, int, uint, bool and duration
  flags.  Integers have 64 bits.
\<close>

section \<open>strconv\<close>

datatype num_error = SyntaxError | RangeError

text \<open>\<^verbatim>\<open>lower\<close>: the byte with the bit of the letter's case set.\<close>

definition lower :: "char \<Rightarrow> nat" where
  "lower c = (if 65 \<le> code c \<and> code c \<le> 90 then code c + 32 else code c)"

definition is_digit :: "char \<Rightarrow> bool" where
  "is_digit c \<longleftrightarrow> 48 \<le> code c \<and> code c \<le> 57"

definition digit_value :: "char \<Rightarrow> nat option" where
  "digit_value c =
    (if is_digit c then Some (code c - 48)
     else if 97 \<le> lower c \<and> lower c \<le> 122 then Some (lower c - 97 + 10)
     else None)"

text \<open>The scan over the digits; \<open>maxVal\<close> is the largest value of the bit size.\<close>

fun uint_loop :: "string \<Rightarrow> nat \<Rightarrow> bool \<Rightarrow> nat \<Rightarrow> nat \<Rightarrow> num_error + nat" where
  "uint_loop [] base base0 maxVal n = Inr n"
| "uint_loop (c # s) base base0 maxVal n =
    (if c = CHR ''_'' \<and> base0 then uint_loop s base base0 maxVal n
     else case digit_value c of
       None \<Rightarrow> Inl SyntaxError
     | Some d \<Rightarrow>
         if base \<le> d then Inl SyntaxError
         else if maxVal < n * base + d then Inl RangeError
         else uint_loop s base base0 maxVal (n * base + d))"

text \<open>\<^verbatim>\<open>underscoreOK\<close>: underscores only between digits, a base prefix counting as a digit.\<close>

fun underscore_scan :: "string \<Rightarrow> bool \<Rightarrow> char \<Rightarrow> bool" where
  "underscore_scan [] hex saw \<longleftrightarrow> saw \<noteq> CHR ''_''"
| "underscore_scan (c # s) hex saw \<longleftrightarrow>
    (if is_digit c \<or> hex \<and> 97 \<le> lower c \<and> lower c \<le> 102 then underscore_scan s hex CHR ''0''
     else if c = CHR ''_'' then saw = CHR ''0'' \<and> underscore_scan s hex CHR ''_''
     else saw \<noteq> CHR ''_'' \<and> underscore_scan s hex CHR ''!'')"

definition underscoreOK :: "string \<Rightarrow> bool" where
  "underscoreOK s0 =
    (let s = (if s0 \<noteq> [] \<and> hd s0 \<in> {CHR ''-'', CHR ''+''} then tl s0 else s0) in
     if length s \<ge> 2 \<and> hd s = CHR ''0'' \<and> lower (s ! 1) \<in> {98, 111, 120}
     then underscore_scan (drop 2 s) (lower (s ! 1) = 120) CHR ''0''
     else underscore_scan s False CHR ''^'')"

definition ParseUint :: "string \<Rightarrow> nat \<Rightarrow> nat \<Rightarrow> num_error + nat" where
  "ParseUint s0 base bits =
    (if s0 = [] then Inl SyntaxError
     else let
       (b, s) = (if base \<noteq> 0 then (base, s0)
                 else if hd s0 \<noteq> CHR ''0'' then (10, s0)
                 else if length s0 \<ge> 3 \<and> lower (s0 ! 1) = 98 then (2, drop 2 s0)
                 else if length s0 \<ge> 3 \<and> lower (s0 ! 1) = 111 then (8, drop 2 s0)
                 else if length s0 \<ge> 3 \<and> lower (s0 ! 1) = 120 then (16, drop 2 s0)
                 else (8, tl s0))
     in case uint_loop s b (base = 0) (2 ^ bits - 1) 0 of
          Inl e \<Rightarrow> Inl e
        | Inr n \<Rightarrow> if base = 0 \<and> CHR ''_'' \<in> set s \<and> \<not> underscoreOK s0 then Inl SyntaxError else Inr n)"

definition ParseInt :: "string \<Rightarrow> nat \<Rightarrow> nat \<Rightarrow> num_error + int" where
  "ParseInt s0 base bits =
    (if s0 = [] then Inl SyntaxError
     else let neg = (hd s0 = CHR ''-''); s = (if hd s0 \<in> {CHR ''+'', CHR ''-''} then tl s0 else s0)
     in case ParseUint s base bits of
          Inl e \<Rightarrow> Inl e
        | Inr un \<Rightarrow>
            if \<not> neg \<and> 2 ^ (bits - 1) \<le> un then Inl RangeError
            else if neg \<and> 2 ^ (bits - 1) < un then Inl RangeError
            else Inr (if neg then - int un else int un))"

text \<open>\<^verbatim>\<open>Atoi(s)\<close> is \<^verbatim>\<open>ParseInt(s, 10, 0)\<close>.\<close>

definition Atoi :: "string \<Rightarrow> num_error + int" where
  "Atoi s = ParseInt s 10 64"

definition ParseBool :: "string \<Rightarrow> bool option" where
  "ParseBool s =
    (if s \<in> {''1'', ''t'', ''T'', ''true'', ''TRUE'', ''True''} then Some True
     else if s \<in> {''0'', ''f'', ''F'', ''false'', ''FALSE'', ''False''} then Some False
     else None)"

section \<open>time.ParseDuration\<close>

text \<open>
  The integer part is exact.  A fraction of \<open>f\<close> with \<open>k\<close> digits of a unit is
  \<^verbatim>\<open>uint64(float64(f) * (float64(unit) / scale))\<close> with \<open>scale = 10 ^ k\<close>, whose
  IEEE rounding is the argument \<open>fmul f unit k\<close>.
\<close>

fun leadingInt :: "string \<Rightarrow> nat \<Rightarrow> (nat \<times> string) option" where
  "leadingInt [] x = Some (x, [])"
| "leadingInt (c # s) x =
    (if \<not> is_digit c then Some (x, c # s)
     else if 2 ^ 63 div 10 < x then None
     else if 2 ^ 63 < x * 10 + (code c - 48) then None
     else leadingInt s (x * 10 + (code c - 48)))"

fun leadingFraction :: "string \<Rightarrow> nat \<Rightarrow> nat \<Rightarrow> bool \<Rightarrow> nat \<times> nat \<times> string" where
  "leadingFraction [] x k overflow = (x, k, [])"
| "leadingFraction (c # s) x k overflow =
    (if \<not> is_digit c then (x, k, c # s)
     else if overflow \<or> (2 ^ 63 - 1) div 10 < x \<or> 2 ^ 63 < x * 10 + (code c - 48) then leadingFraction s x k True
     else leadingFraction s (x * 10 + (code c - 48)) (Suc k) False)"

definition time_unit :: "string \<Rightarrow> nat option" where
  "time_unit u =
    (if u = ''ns'' then Some 1
     else if u = ''us'' \<or> u = [CHR 0xC2, CHR 0xB5, CHR ''s''] \<or> u = [CHR 0xCE, CHR 0xBC, CHR ''s''] then Some 1000
     else if u = ''ms'' then Some 1000000
     else if u = ''s'' then Some 1000000000
     else if u = ''m'' then Some 60000000000
     else if u = ''h'' then Some 3600000000000
     else None)"

lemma leadingInt_length: "leadingInt s x = Some (v, r) \<Longrightarrow> length r \<le> length s"
  by (induction s x rule: leadingInt.induct) (auto split: if_splits)

lemma leadingFraction_length: "leadingFraction s x k ov = (f, k', r) \<Longrightarrow> length r \<le> length s"
  by (induction s x k ov arbitrary: f k' r rule: leadingFraction.induct) (auto split: if_splits)

text \<open>One number with its unit, added to the total \<open>d\<close>: the new total and what is left.\<close>

definition duration_term :: "(nat \<Rightarrow> nat \<Rightarrow> nat \<Rightarrow> nat) \<Rightarrow> string \<Rightarrow> nat \<Rightarrow> (nat \<times> string) option" where
  "duration_term fmul s d =
    (if \<not> (s \<noteq> [] \<and> (hd s = CHR ''.'' \<or> is_digit (hd s))) then None
     else case leadingInt s 0 of
       None \<Rightarrow> None
     | Some (v, s1) \<Rightarrow>
         let pre = (length s1 \<noteq> length s);
             dot = (s1 \<noteq> [] \<and> hd s1 = CHR ''.'');
             (f, k, s2) = (if dot then leadingFraction (tl s1) 0 0 False else (0, 0, s1));
             post = (dot \<and> length s2 \<noteq> length (tl s1));
             u = takeWhile (\<lambda>c. \<not> (c = CHR ''.'' \<or> is_digit c)) s2;
             s3 = drop (length u) s2
         in if \<not> pre \<and> \<not> post then None
            else if u = [] then None
            else case time_unit u of
              None \<Rightarrow> None
            | Some unit \<Rightarrow>
                if 2 ^ 63 div unit < v then None
                else let w = v * unit + (if 0 < f then fmul f unit k else 0)
                     in if 2 ^ 63 < w \<or> 2 ^ 63 < d + w then None else Some (d + w, s3))"

lemma duration_term_shorter: "duration_term fmul s d = Some (d', r) \<Longrightarrow> length r < length s"
  by (auto simp: duration_term_def Let_def split: option.splits if_splits prod.splits
      dest!: leadingInt_length leadingFraction_length)

function duration_loop :: "(nat \<Rightarrow> nat \<Rightarrow> nat \<Rightarrow> nat) \<Rightarrow> string \<Rightarrow> nat \<Rightarrow> nat option" where
  "duration_loop fmul s d =
    (if s = [] then Some d
     else case duration_term fmul s d of None \<Rightarrow> None | Some (d', r) \<Rightarrow> duration_loop fmul r d')"
  by pat_completeness auto
termination
  by (relation "measure (\<lambda>(_, s, _). length s)") (auto simp: duration_term_shorter)

declare duration_loop.simps [simp del]

definition ParseDuration :: "(nat \<Rightarrow> nat \<Rightarrow> nat \<Rightarrow> nat) \<Rightarrow> string \<Rightarrow> int option" where
  "ParseDuration fmul orig =
    (let neg = (orig \<noteq> [] \<and> hd orig = CHR ''-'');
         s = (if orig \<noteq> [] \<and> hd orig \<in> {CHR ''-'', CHR ''+''} then tl orig else orig)
     in if s = ''0'' then Some 0
        else if s = [] then None
        else case duration_loop fmul s 0 of
          None \<Rightarrow> None
        | Some d \<Rightarrow> if neg then Some (- int d) else if 2 ^ 63 - 1 < d then None else Some (int d))"

section \<open>flag.FlagSet\<close>

text \<open>
  A flag holds its current value, at first the default; a flag set is a map from names.
  \<^verbatim>\<open>Parse\<close> handles one flag at a time, \<^verbatim>\<open>parseOne\<close>, until the first argument that is not
  a flag.  \<open>pd\<close> is \<^verbatim>\<open>time.ParseDuration\<close>.
\<close>

datatype flag_value = FString string | FBool bool | FInt int | FUint nat | FDuration int

type_synonym flagset = "string \<rightharpoonup> flag_value"

datatype flag_error =
    BadSyntax string
  | NotDefined string
  | HelpRequested
  | NeedsArgument string
  | InvalidValue string string

fun is_bool_flag :: "flag_value \<Rightarrow> bool" where
  "is_bool_flag (FBool b) = True"
| "is_bool_flag _ = False"

fun flag_Set :: "(string \<Rightarrow> int option) \<Rightarrow> flag_value \<Rightarrow> string \<Rightarrow> flag_value option" where
  "flag_Set pd (FString _) s = Some (FString s)"
| "flag_Set pd (FBool _) s = map_option FBool (ParseBool s)"
| "flag_Set pd (FInt _) s = (case ParseInt s 0 64 of Inr i \<Rightarrow> Some (FInt i) | Inl e \<Rightarrow> None)"
| "flag_Set pd (FUint _) s = (case ParseUint s 0 64 of Inr n \<Rightarrow> Some (FUint n) | Inl e \<Rightarrow> None)"
| "flag_Set pd (FDuration _) s = map_option FDuration (pd s)"

text \<open>The name of a flag argument and its value after an equals sign, which cannot be its first character.\<close>

definition cut_equals :: "string \<Rightarrow> string \<times> string option" where
  "cut_equals name =
    (let pre = takeWhile (\<lambda>c. c \<noteq> CHR ''='') (tl name) in
     if length pre = length (tl name) then (name, None)
     else (hd name # pre, Some (drop (length pre + 2) name)))"

definition assign_flag ::
    "(string \<Rightarrow> int option) \<Rightarrow> flagset \<Rightarrow> string \<Rightarrow> flag_value \<Rightarrow> string \<Rightarrow> string list
     \<Rightarrow> flag_error + bool \<times> flagset \<times> string list" where
  "assign_flag pd fs name v value args =
    (case flag_Set pd v value of
       None \<Rightarrow> Inl (InvalidValue name value)
     | Some v' \<Rightarrow> Inr (True, fs(name \<mapsto> v'), args))"

definition parseOne ::
    "(string \<Rightarrow> int option) \<Rightarrow> flagset \<Rightarrow> string list \<Rightarrow> flag_error + bool \<times> flagset \<times> string list" where
  "parseOne pd fs args =
    (case args of
       [] \<Rightarrow> Inr (False, fs, args)
     | s # rest \<Rightarrow>
         if length s < 2 \<or> hd s \<noteq> CHR ''-'' then Inr (False, fs, args)
         else if s = ''--'' then Inr (False, fs, rest)
         else
           let name = drop (if s ! 1 = CHR ''-'' then 2 else 1) s in
           if name = [] \<or> hd name = CHR ''-'' \<or> hd name = CHR ''='' then Inl (BadSyntax s)
           else case cut_equals name of (name, value) \<Rightarrow>
             (case fs name of
                None \<Rightarrow>
                  if name = ''help'' \<or> name = ''h'' then Inl HelpRequested else Inl (NotDefined name)
              | Some v \<Rightarrow>
                  if is_bool_flag v then
                    assign_flag pd fs name v (case value of Some x \<Rightarrow> x | None \<Rightarrow> ''true'') rest
                  else (case (value, rest) of
                      (Some x, _) \<Rightarrow> assign_flag pd fs name v x rest
                    | (None, x # rest') \<Rightarrow> assign_flag pd fs name v x rest'
                    | (None, []) \<Rightarrow> Inl (NeedsArgument name))))"

lemma assign_flag_args: "assign_flag pd fs name v x args = Inr (seen, fs', args') \<Longrightarrow> seen \<and> args' = args"
  by (auto simp: assign_flag_def split: option.splits)

lemma parseOne_shorter:
  assumes "parseOne pd fs args = Inr (True, fs', args')"
  shows "length args' < length args"
proof (cases args)
  case Nil
  then show ?thesis using assms by (simp add: parseOne_def)
next
  case (Cons s rest)
  then show ?thesis using assms
    by (auto simp: parseOne_def Let_def split: if_splits option.splits list.splits prod.splits
        dest!: assign_flag_args)
qed

function flag_Parse ::
    "(string \<Rightarrow> int option) \<Rightarrow> flagset \<Rightarrow> string list \<Rightarrow> flag_error + flagset \<times> string list" where
  "flag_Parse pd fs args =
    (case parseOne pd fs args of
       Inl e \<Rightarrow> Inl e
     | Inr (seen, fs', args') \<Rightarrow> if seen then flag_Parse pd fs' args' else Inr (fs', args'))"
  by pat_completeness auto
termination
  by (relation "measure (\<lambda>(_, _, args). length args)") (auto simp: parseOne_shorter)

declare flag_Parse.simps [simp del]

definition get_string :: "flagset \<Rightarrow> string \<Rightarrow> string" where
  "get_string fs name = (case fs name of Some (FString s) \<Rightarrow> s | _ \<Rightarrow> [])"

definition get_bool :: "flagset \<Rightarrow> string \<Rightarrow> bool" where
  "get_bool fs name = (case fs name of Some (FBool b) \<Rightarrow> b | _ \<Rightarrow> False)"

definition get_int :: "flagset \<Rightarrow> string \<Rightarrow> int" where
  "get_int fs name = (case fs name of Some (FInt i) \<Rightarrow> i | _ \<Rightarrow> 0)"

definition get_uint :: "flagset \<Rightarrow> string \<Rightarrow> nat" where
  "get_uint fs name = (case fs name of Some (FUint n) \<Rightarrow> n | _ \<Rightarrow> 0)"

definition get_duration :: "flagset \<Rightarrow> string \<Rightarrow> int" where
  "get_duration fs name = (case fs name of Some (FDuration d) \<Rightarrow> d | _ \<Rightarrow> 0)"

section \<open>What parsing gives\<close>

text \<open>A flag keeps its kind, and the values that come from arguments are in range.\<close>

fun same_kind :: "flag_value \<Rightarrow> flag_value \<Rightarrow> bool" where
  "same_kind (FString _) (FString _) = True"
| "same_kind (FBool _) (FBool _) = True"
| "same_kind (FInt _) (FInt _) = True"
| "same_kind (FUint _) (FUint _) = True"
| "same_kind (FDuration _) (FDuration _) = True"
| "same_kind _ _ = False"

lemma same_kind_refl [simp]: "same_kind v v"
  by (cases v) simp_all

lemma same_kind_trans: "same_kind u v \<Longrightarrow> same_kind v w \<Longrightarrow> same_kind u w"
  by (cases u; cases v; cases w) simp_all

lemma flag_Set_kind: "flag_Set pd v s = Some v' \<Longrightarrow> same_kind v v'"
  by (cases v) (auto split: sum.splits)

definition same_flags :: "flagset \<Rightarrow> flagset \<Rightarrow> bool" where
  "same_flags fs fs' \<longleftrightarrow> (\<forall>name. rel_option same_kind (fs name) (fs' name))"

lemma same_flags_refl [simp]: "same_flags fs fs"
  by (simp add: same_flags_def option.rel_refl)

lemma same_flags_trans:
  assumes "same_flags a b" and "same_flags b c"
  shows "same_flags a c"
  unfolding same_flags_def
proof
  fix name
  have "rel_option same_kind (a name) (b name)" "rel_option same_kind (b name) (c name)"
    using assms by (auto simp: same_flags_def)
  then show "rel_option same_kind (a name) (c name)"
    by (cases "a name"; cases "b name"; cases "c name") (auto intro: same_kind_trans)
qed

lemma assign_flag_same:
  "fs name = Some v \<Longrightarrow> assign_flag pd fs name v x args = Inr (seen, fs', args') \<Longrightarrow> same_flags fs fs'"
  by (auto simp: assign_flag_def same_flags_def option.rel_refl flag_Set_kind split: option.splits)

lemma parseOne_same:
  assumes "parseOne pd fs args = Inr (seen, fs', args')"
  shows "same_flags fs fs'"
proof (cases args)
  case Nil
  then show ?thesis using assms by (simp add: parseOne_def)
next
  case (Cons s rest)
  then show ?thesis using assms
    by (auto simp: parseOne_def Let_def split: if_splits option.splits list.splits prod.splits
        intro: assign_flag_same)
qed

lemma flag_Parse_same: "flag_Parse pd fs args = Inr (fs', rest) \<Longrightarrow> same_flags fs fs'"
proof (induction pd fs args arbitrary: fs' rest rule: flag_Parse.induct)
  case (1 pd fs args)
  show ?case
  proof (cases "parseOne pd fs args")
    case (Inl e)
    then show ?thesis using 1(2) by (subst (asm) flag_Parse.simps) simp
  next
    case (Inr r)
    obtain seen fs1 args1 where r: "r = (seen, fs1, args1)" by (cases r) auto
    have one: "same_flags fs fs1" using Inr r parseOne_same by blast
    show ?thesis
    proof (cases seen)
      case True
      then have "flag_Parse pd fs1 args1 = Inr (fs', rest)"
        using 1(2) Inr r by (subst (asm) flag_Parse.simps) simp
      then have "same_flags fs1 fs'" using 1(1) Inr r True by auto
      then show ?thesis using one same_flags_trans by blast
    next
      case False
      then show ?thesis using 1(2) Inr r one by (subst (asm) flag_Parse.simps) simp
    qed
  qed
qed

lemma flag_Parse_unset:
  assumes "flag_Parse pd fs args = Inr (fs', rest)"
  shows "fs' name = None \<longleftrightarrow> fs name = None"
  using flag_Parse_same [OF assms] unfolding same_flags_def
  by (metis option.rel_distinct(1,2) option.exhaust)

text \<open>Names as the program's flags have them, arguments that are not flags.\<close>

definition plain_name :: "string \<Rightarrow> bool" where
  "plain_name name \<longleftrightarrow> name \<noteq> [] \<and> hd name \<noteq> CHR ''-'' \<and> CHR ''='' \<notin> set name"

definition positional :: "string \<Rightarrow> bool" where
  "positional s \<longleftrightarrow> length s < 2 \<or> hd s \<noteq> CHR ''-''"

lemma cut_equals_plain:
  assumes "plain_name name"
  shows "cut_equals name = (name, None)"
proof -
  have t: "takeWhile (\<lambda>c. c \<noteq> CHR ''='') (tl name) = tl name"
    unfolding takeWhile_eq_all_conv using assms by (cases name) (auto simp: plain_name_def)
  show ?thesis unfolding cut_equals_def t by simp
qed

lemma parseOne_plain:
  assumes "plain_name name" and "fs name = Some v"
  shows "parseOne pd fs ((CHR ''-'' # name) # rest) =
    (if is_bool_flag v then assign_flag pd fs name v ''true'' rest
     else case rest of [] \<Rightarrow> Inl (NeedsArgument name) | x # rest' \<Rightarrow> assign_flag pd fs name v x rest')"
  using assms cut_equals_plain [OF assms(1)]
  by (cases name) (auto simp: parseOne_def plain_name_def split: list.splits)

lemma flag_Parse_value:
  assumes "plain_name name" and "fs name = Some v" and "\<not> is_bool_flag v"
  shows "flag_Parse pd fs ((CHR ''-'' # name) # x # rest) =
    (case flag_Set pd v x of
       None \<Rightarrow> Inl (InvalidValue name x)
     | Some v' \<Rightarrow> flag_Parse pd (fs(name \<mapsto> v')) rest)"
  by (subst flag_Parse.simps)
    (simp add: parseOne_plain [of name fs v] assms assign_flag_def split: option.split)

lemma flag_Parse_bool:
  assumes "plain_name name" and "fs name = Some (FBool b)"
  shows "flag_Parse pd fs ((CHR ''-'' # name) # rest) = flag_Parse pd (fs(name \<mapsto> FBool True)) rest"
  by (subst flag_Parse.simps)
    (simp add: parseOne_plain [of name fs "FBool b"] assms assign_flag_def ParseBool_def split: option.split)

lemma flag_Parse_positional:
  "args = [] \<or> positional (hd args) \<Longrightarrow> flag_Parse pd fs args = Inr (fs, args)"
  by (cases args; subst flag_Parse.simps) (auto simp: parseOne_def positional_def)

text \<open>Options written one after another, \<^verbatim>\<open>-name value\<close>: the last one for a name wins.\<close>

definition option_args :: "(string \<times> string) list \<Rightarrow> string list" where
  "option_args opts = concat (map (\<lambda>(name, x). [CHR ''-'' # name, x]) opts)"

fun set_flags :: "(string \<Rightarrow> int option) \<Rightarrow> flagset \<Rightarrow> (string \<times> string) list \<Rightarrow> flagset option" where
  "set_flags pd fs [] = Some fs"
| "set_flags pd fs ((name, x) # opts) =
    (case fs name of
       None \<Rightarrow> None
     | Some v \<Rightarrow> if is_bool_flag v \<or> \<not> plain_name name then None
         else (case flag_Set pd v x of None \<Rightarrow> None | Some v' \<Rightarrow> set_flags pd (fs(name \<mapsto> v')) opts))"

lemma flag_Parse_options:
  assumes "set_flags pd fs opts = Some fs'"
  shows "flag_Parse pd fs (option_args opts @ rest) = flag_Parse pd fs' rest"
  using assms
proof (induction opts arbitrary: fs)
  case Nil
  then show ?case by (simp add: option_args_def)
next
  case (Cons opt opts)
  obtain name x where o: "opt = (name, x)" by (cases opt) auto
  obtain v v' where v: "fs name = Some v" "\<not> is_bool_flag v" "plain_name name" "flag_Set pd v x = Some v'"
    and more: "set_flags pd (fs(name \<mapsto> v')) opts = Some fs'"
    using Cons.prems by (auto simp: o split: option.splits if_splits)
  have "option_args (opt # opts) @ rest = (CHR ''-'' # name) # x # (option_args opts @ rest)"
    by (simp add: option_args_def o)
  then show ?case using Cons.IH [OF more] by (simp add: flag_Parse_value [of name fs v] v fun_upd_def)
qed

section \<open>Decimal numerals are read back\<close>

lemma uint_loop_append:
  "uint_loop (xs @ ys) b b0 m n = err_bind (uint_loop xs b b0 m n) (uint_loop ys b b0 m)"
  by (induction xs b b0 m n rule: uint_loop.induct) (auto split: option.splits)

lemma uint_loop_digit:
  assumes "d < 10" and "n * 10 + d \<le> m"
  shows "uint_loop [digit d] 10 b0 m n = Inr (n * 10 + d)"
proof -
  have "digit d \<noteq> CHR ''_''" using ascii_digit [OF assms(1)] assms(1) by (auto simp: code_def)
  moreover have "digit_value (digit d) = Some d" using assms(1) by (simp add: digit_value_def is_digit_def)
  ultimately show ?thesis using assms by simp
qed

lemma uint_loop_decimal: "n \<le> m \<Longrightarrow> uint_loop (decimal n) 10 b0 m 0 = Inr n"
proof (induction n rule: decimal.induct)
  case (1 n)
  show ?case
  proof (cases "n < 10")
    case True
    then show ?thesis using uint_loop_digit [of n 0 m b0] 1(2) by (subst decimal_step) simp
  next
    case False
    then show ?thesis using 1 uint_loop_digit [of "n mod 10" "n div 10" m b0]
      by (subst decimal_step) (simp add: uint_loop_append)
  qed
qed

lemma hd_decimal: "0 < n \<Longrightarrow> 49 \<le> code (hd (decimal n)) \<and> code (hd (decimal n)) \<le> 57"
proof (induction n rule: decimal.induct)
  case (1 n)
  show ?case
  proof (cases "n < 10")
    case True
    then show ?thesis using 1(2) by (subst (1 2) decimal_step) simp
  next
    case False
    then have "hd (decimal n) = hd (decimal (n div 10))" by (subst decimal_step) simp
    then show ?thesis using 1 False by simp
  qed
qed

lemma decimal_0: "decimal 0 = ''0''"
  by (subst decimal_step) (simp add: digit_def char_of_def bit_0)

lemma no_underscore: "CHR ''_'' \<notin> set (decimal n)"
  using decimal_digits [of n] by (auto simp: code_def)

lemma ParseUint_decimal:
  assumes "n < 2 ^ bits" and "base = 0 \<or> base = 10"
  shows "ParseUint (decimal n) base bits = Inr n"
proof (cases "n = 0")
  case True
  have "code CHR ''0'' = 48" by (simp add: code_def)
  then show ?thesis using assms
    by (auto simp: True decimal_0 ParseUint_def digit_value_def is_digit_def)
next
  case False
  then have "hd (decimal n) \<noteq> CHR ''0''" using hd_decimal [of n] by (auto simp: code_def)
  then show ?thesis using assms uint_loop_decimal [of n "2 ^ bits - 1"]
    by (auto simp: ParseUint_def no_underscore)
qed

lemma ParseInt_decimal:
  assumes "n < 2 ^ 63" and "base = 0 \<or> base = 10"
  shows "ParseInt (decimal n) base 64 = Inr (int n)"
proof -
  have "hd (decimal n) \<in> set (decimal n)" by simp
  then have "48 \<le> code (hd (decimal n))" using decimal_digits [of n] by blast
  then have "hd (decimal n) \<noteq> CHR ''+''" "hd (decimal n) \<noteq> CHR ''-''" by (auto simp: code_def)
  moreover have "ParseUint (decimal n) base 64 = Inr n" using assms by (intro ParseUint_decimal) auto
  ultimately show ?thesis using assms by (simp add: ParseInt_def)
qed

lemma Atoi_decimal: "n < 2 ^ 63 \<Longrightarrow> Atoi (decimal n) = Inr (int n)"
  by (simp add: Atoi_def ParseInt_decimal)

end
