(* ===== verification/Exec_Line.thy ===== *)
theory Exec_Line
  imports Text
begin

text \<open>
  The exec command line of \<^verbatim>\<open>src/internal/sshserver/exec.go\<close>: the request payloads and
  \<open>splitCmd\<close>.  \<^verbatim>\<open>ssh.Unmarshal\<close> belongs to \<^verbatim>\<open>golang.org/x/crypto\<close>: it is an argument,
  which reads a payload or fails.
\<close>

section \<open>Request payloads\<close>

record ptyReqMsg =
  ptTerm :: string
  ptCols :: u32
  ptRows :: u32
  ptWidthPx :: u32
  ptHeightPx :: u32
  ptModes :: string

record winChangeMsg =
  wcCols :: u32
  wcRows :: u32
  wcWidthPx :: u32
  wcHeightPx :: u32

record execMsg =
  exCommand :: string

definition parsePTYReq :: "(byte list \<Rightarrow> ptyReqMsg option) \<Rightarrow> byte list \<Rightarrow> string \<times> u32 \<times> u32 \<times> bool" where
  "parsePTYReq unmarshal payload =
    (case unmarshal payload of
       None \<Rightarrow> ([], 0, 0, False)
     | Some m \<Rightarrow> (ptTerm m, ptCols m, ptRows m, True))"

definition parseWinChange :: "(byte list \<Rightarrow> winChangeMsg option) \<Rightarrow> byte list \<Rightarrow> u32 \<times> u32 \<times> bool" where
  "parseWinChange unmarshal payload =
    (case unmarshal payload of
       None \<Rightarrow> (0, 0, False)
     | Some m \<Rightarrow> (wcCols m, wcRows m, True))"

definition parseExec :: "(byte list \<Rightarrow> execMsg option) \<Rightarrow> byte list \<Rightarrow> string \<times> bool" where
  "parseExec unmarshal payload =
    (case unmarshal payload of
       None \<Rightarrow> ([], False)
     | Some m \<Rightarrow> (exCommand m, True))"

section \<open>Splitting the command line\<close>

text \<open>
  The state of the loop: the arguments so far, the one being built, the quote that is open
  and whether there is an argument being built, which can be empty.
\<close>

datatype split_error = UnclosedQuote

definition dquote :: rune where "dquote = 34"
definition squote :: rune where "squote = 39"

record split_state =
  spArgs :: "string list"
  spCur :: string
  spQuote :: "rune option"
  spHas :: bool

definition split_step :: "rune \<Rightarrow> split_state \<Rightarrow> split_state" where
  "split_step r st =
    (case spQuote st of
       Some q \<Rightarrow>
         if r = q then st\<lparr>spQuote := None, spHas := True\<rparr>
         else st\<lparr>spCur := spCur st @ encode_rune r, spHas := True\<rparr>
     | None \<Rightarrow>
         if r = dquote \<or> r = squote then st\<lparr>spQuote := Some r, spHas := True\<rparr>
         else if IsSpace r then
           (if spHas st then st\<lparr>spArgs := spArgs st @ [spCur st], spCur := [], spHas := False\<rparr> else st)
         else st\<lparr>spCur := spCur st @ encode_rune r, spHas := True\<rparr>)"

definition split_init :: split_state where
  "split_init = \<lparr>spArgs = [], spCur = [], spQuote = None, spHas = False\<rparr>"

definition splitCmd :: "string \<Rightarrow> split_error + string list" where
  "splitCmd s =
    (let st = fold split_step (runes s) split_init
     in if spQuote st \<noteq> None then Inl UnclosedQuote
        else Inr (if spHas st then spArgs st @ [spCur st] else spArgs st))"

section \<open>How the loop moves\<close>

definition word_rune :: "rune \<Rightarrow> bool" where
  "word_rune r \<longleftrightarrow> \<not> IsSpace r \<and> r \<noteq> dquote \<and> r \<noteq> squote"

lemma IsSpace_quotes [simp]: "\<not> IsSpace dquote" "\<not> IsSpace squote"
  by (simp_all add: IsSpace_def dquote_def squote_def)

lemma utf8_simps [simp]: "utf8 [] = []" "utf8 (r # rs) = encode_rune r @ utf8 rs"
  "utf8 (rs @ ss) = utf8 rs @ utf8 ss"
  by (simp_all add: utf8_def)

lemma split_quoted:
  "q \<notin> set rs \<Longrightarrow> spQuote st = Some q \<Longrightarrow> spHas st \<Longrightarrow>
   fold split_step rs st = st\<lparr>spCur := spCur st @ utf8 rs\<rparr>"
  by (induction rs arbitrary: st) (auto simp: split_step_def)

lemma split_word:
  "\<forall>r \<in> set rs. word_rune r \<Longrightarrow> spQuote st = None \<Longrightarrow> rs \<noteq> [] \<or> spHas st \<Longrightarrow>
   fold split_step rs st = st\<lparr>spCur := spCur st @ utf8 rs, spHas := True\<rparr>"
proof (induction rs arbitrary: st)
  case (Cons r rs)
  then show ?case by (cases st) (auto simp: split_step_def word_rune_def)
qed (cases st; simp)

definition flush :: "split_state \<Rightarrow> split_state" where
  "flush st = (if spHas st then st\<lparr>spArgs := spArgs st @ [spCur st], spCur := [], spHas := False\<rparr> else st)"

lemma split_space: "IsSpace r \<Longrightarrow> spQuote st = None \<Longrightarrow> split_step r st = flush st"
  by (auto simp: split_step_def flush_def)

text \<open>An argument in quotes, whatever it holds but the quote itself.\<close>

lemma split_quoted_arg:
  assumes "q = dquote \<or> q = squote" and "q \<notin> set rs" and "spQuote st = None"
  shows "fold split_step (q # rs @ [q]) st = st\<lparr>spCur := spCur st @ utf8 rs, spHas := True\<rparr>"
proof -
  have 1: "split_step q st = st\<lparr>spQuote := Some q, spHas := True\<rparr>"
    using assms by (auto simp: split_step_def)
  have 2: "fold split_step rs (split_step q st) = st\<lparr>spQuote := Some q, spHas := True, spCur := spCur st @ utf8 rs\<rparr>"
    unfolding 1 by (subst split_quoted [of q]) (use assms in auto)
  show ?thesis by (simp add: 2) (cases st; use assms(3) in \<open>simp add: split_step_def\<close>)
qed

section \<open>Quoted command lines\<close>

text \<open>A Go string that is valid UTF-8, and how a client quotes an argument.\<close>

definition valid_utf8 :: "string \<Rightarrow> bool" where
  "valid_utf8 s \<longleftrightarrow> (\<exists>rs. s = utf8 rs \<and> (\<forall>r \<in> set rs. valid_rune r))"

definition quotable :: "string \<Rightarrow> bool" where
  "quotable s \<longleftrightarrow> valid_utf8 s \<and> (CHR 0x22 \<notin> set s \<or> CHR 0x27 \<notin> set s)"

definition quote_arg :: "string \<Rightarrow> string" where
  "quote_arg s =
    (let q = (if CHR 0x22 \<in> set s then CHR 0x27 else CHR 0x22) in q # s @ [q])"

lemma ascii_in_encode:
  assumes "valid_rune r" and "code c < 128"
  shows "c \<in> set (encode_rune r) \<longleftrightarrow> r = code c"
proof (cases "r < 128")
  case True
  then have "encode_rune r = [byte_char r]" by (simp add: encode_rune_def)
  moreover have "c = byte_char r \<longleftrightarrow> r = code c" using True byte_char_code by force
  ultimately show ?thesis by simp
next
  case False
  have "128 \<le> code d" if "d \<in> set (encode_rune r)" for d
    using that False assms(1) by (auto simp: encode_rune_def valid_rune_def split: if_splits)
  then show ?thesis using assms(2) False by fastforce
qed

lemma ascii_in_utf8:
  "\<forall>r \<in> set rs. valid_rune r \<Longrightarrow> code c < 128 \<Longrightarrow> c \<in> set (utf8 rs) \<longleftrightarrow> code c \<in> set rs"
  by (induction rs) (auto simp: ascii_in_encode)

lemma code_quotes [simp]: "code CHR 0x22 = dquote" "code CHR 0x27 = squote"
  by (simp_all add: code_def dquote_def squote_def)

lemma valid_ascii [simp]: "valid_rune dquote" "valid_rune squote" "valid_rune 32"
  by (simp_all add: valid_rune_def dquote_def squote_def)

lemma encode_quotes [simp]: "encode_rune dquote = [CHR 0x22]" "encode_rune squote = [CHR 0x27]" "encode_rune 32 = '' ''"
  using encode_rune_ascii [of "CHR 0x22"] encode_rune_ascii [of "CHR 0x27"] encode_rune_ascii [of "CHR '' ''"]
  by (simp_all add: dquote_def squote_def)

lemma split_arg:
  assumes "quotable a"
  obtains rs where "quote_arg a = utf8 rs" and "\<forall>r \<in> set rs. valid_rune r"
    and "\<And>pre. fold split_step rs \<lparr>spArgs = pre, spCur = [], spQuote = None, spHas = False\<rparr>
      = \<lparr>spArgs = pre, spCur = a, spQuote = None, spHas = True\<rparr>"
proof -
  obtain rs where rs: "a = utf8 rs" "\<forall>r \<in> set rs. valid_rune r"
    using assms(1) by (auto simp: quotable_def valid_utf8_def)
  have in_a: "CHR 0x22 \<in> set a \<longleftrightarrow> dquote \<in> set rs" "CHR 0x27 \<in> set a \<longleftrightarrow> squote \<in> set rs"
    using rs ascii_in_utf8 [of rs "CHR 0x22"] ascii_in_utf8 [of rs "CHR 0x27"]
    by (simp_all add: dquote_def squote_def)
  define q where "q = (if dquote \<in> set rs then squote else dquote)"
  have q: "q = dquote \<or> q = squote" "q \<notin> set rs" "valid_rune q"
    using assms(1) in_a by (auto simp: q_def quotable_def)
  have "quote_arg a = utf8 (q # rs @ [q])"
    using in_a rs by (simp add: quote_arg_def q_def Let_def)
  then show ?thesis using that [of "q # rs @ [q]"] rs q split_quoted_arg [OF q(1,2)] by simp
qed

text \<open>A whole line of quoted arguments: the runes of the line and the loop over them.\<close>

lemma split_line:
  "\<forall>a \<in> set as. quotable a \<Longrightarrow> as \<noteq> [] \<Longrightarrow> \<exists>rs. Join (map quote_arg as) '' '' = utf8 rs
    \<and> (\<forall>r \<in> set rs. valid_rune r)
    \<and> (\<forall>pre. fold split_step rs \<lparr>spArgs = pre, spCur = [], spQuote = None, spHas = False\<rparr>
         = \<lparr>spArgs = pre @ butlast as, spCur = last as, spQuote = None, spHas = True\<rparr>)"
proof (induction as)
  case (Cons a as)
  let ?st = "\<lambda>pre. \<lparr>spArgs = pre, spCur = [], spQuote = None, spHas = False\<rparr>"
  obtain rs where one: "quote_arg a = utf8 rs" "\<forall>r \<in> set rs. valid_rune r"
    "\<And>pre. fold split_step rs (?st pre) = \<lparr>spArgs = pre, spCur = a, spQuote = None, spHas = True\<rparr>"
    using split_arg Cons.prems(1) by (metis list.set_intros(1))
  show ?case
  proof (cases as)
    case Nil
    then show ?thesis using one by (intro exI [of _ rs]) simp
  next
    case more: (Cons b bs)
    obtain rs' where rest: "Join (map quote_arg as) '' '' = utf8 rs'" "\<forall>r \<in> set rs'. valid_rune r"
      "\<And>pre. fold split_step rs' (?st pre)
        = \<lparr>spArgs = pre @ butlast as, spCur = last as, spQuote = None, spHas = True\<rparr>"
      using Cons more by auto
    have sp: "IsSpace 32" by (simp add: IsSpace_def)
    have "Join (map quote_arg (a # as)) '' '' = utf8 (rs @ 32 # rs')"
      using one(1) rest(1) by (simp add: more)
    moreover have "fold split_step (rs @ 32 # rs') (?st pre)
        = \<lparr>spArgs = pre @ butlast (a # as), spCur = last (a # as), spQuote = None, spHas = True\<rparr>" for pre
      using rest(3) [of "pre @ [a]"] by (simp add: one(3) split_space [OF sp] flush_def more)
    ultimately show ?thesis using one(2) rest(2) by (intro exI [of _ "rs @ 32 # rs'"]) auto
  qed
qed simp

lemma split_line_args:
  assumes "\<forall>a \<in> set as. quotable a"
  shows "splitCmd (Join (map quote_arg as) '' '') = Inr as"
proof (cases "as = []")
  case True
  then show ?thesis by (simp add: splitCmd_def split_init_def)
next
  case False
  then obtain rs where line: "Join (map quote_arg as) '' '' = utf8 rs" "\<forall>r \<in> set rs. valid_rune r"
    "\<forall>pre. fold split_step rs \<lparr>spArgs = pre, spCur = [], spQuote = None, spHas = False\<rparr>
       = \<lparr>spArgs = pre @ butlast as, spCur = last as, spQuote = None, spHas = True\<rparr>"
    using split_line [OF assms] by blast
  then show ?thesis using False by (simp add: splitCmd_def split_init_def runes_utf8)
qed

section \<open>Lines without quotes\<close>






lemma valid_utf8_ascii:
  assumes "ascii s"
  shows "valid_utf8 s"
proof -
  have "utf8 (map code s) = s" using assms by (induction s) (simp_all add: encode_rune_ascii)
  moreover have "\<forall>r \<in> set (map code s). valid_rune r"
    using assms by (auto simp: ascii_def valid_rune_def)
  ultimately show ?thesis unfolding valid_utf8_def by metis
qed

section \<open>Properties\<close>

text \<open>
  C18.  Quoting the arguments (in double quotes, or in single quotes when there is a double
  quote inside) and joining them with spaces is undone by \<open>splitCmd\<close>: every list of
  arguments that are valid UTF-8 and do not hold both quotes comes back, empty arguments and
  arguments with white space included.
\<close>

theorem split_roundtrip:
  assumes "\<forall>a \<in> set as. quotable a"
  shows "splitCmd (Join (map quote_arg as) '' '') = Inr as"
  by (rule split_line_args [OF assms])

theorem split_roundtrip_witness:
  "splitCmd ''\"mactelnet\" \"-p\" \"a b\" '\"' \"\"'' = Inr [''mactelnet'', ''-p'', ''a b'', [CHR 0x22], []]"
proof -
  have "\<forall>a \<in> set [''mactelnet'', ''-p'', ''a b'', [CHR 0x22], []]. quotable a"
    by (simp add: quotable_def valid_utf8_ascii ascii_def code_def)
  from split_roundtrip [OF this] show ?thesis by (simp add: quote_arg_def Let_def)
qed




end
