(* ===== verification/Prompt.thy ===== *)
theory Prompt
  imports Session_Properties Text
begin

text \<open>
  Input of an exec command: the buffered reader around the SSH channel, the password prompt
  of \<^verbatim>\<open>src/internal/sshserver/exec.go\<close> and the copy loop that takes over after it.  What the
  client sends is the list of results of the channel's reads; a loop that has used them up
  is blocked.
\<close>

section \<open>bufio.Reader\<close>

text \<open>
  \<open>rBuf\<close> is the unread part of the buffer of 4096 bytes.  It is refilled only when it is
  empty; a read of the channel returns at most what the buffer holds and leaves the rest.
\<close>

datatype read_result = Data "byte list" | ReadFail err

record bufio =
  rBuf :: "byte list"
  rSrc :: "read_result list"

datatype 'a read = Got 'a bufio | Failed err bufio | Blocked

fun bufio_fill :: "read_result list \<Rightarrow> unit read" where
  "bufio_fill [] = Blocked"
| "bufio_fill (ReadFail e # rest) = Failed e \<lparr>rBuf = [], rSrc = rest\<rparr>"
| "bufio_fill (Data c # rest) =
    (if c = [] then bufio_fill rest
     else Got () \<lparr>rBuf = take 4096 c, rSrc = (if length c \<le> 4096 then rest else Data (drop 4096 c) # rest)\<rparr>)"

definition NewReader :: "read_result list \<Rightarrow> bufio" where
  "NewReader src = \<lparr>rBuf = [], rSrc = src\<rparr>"

definition ReadByte :: "bufio \<Rightarrow> byte read" where
  "ReadByte r =
    (case rBuf r of
       b # bs \<Rightarrow> Got b (r\<lparr>rBuf := bs\<rparr>)
     | [] \<Rightarrow> (case bufio_fill (rSrc r) of
         Got u r' \<Rightarrow> Got (hd (rBuf r')) (r'\<lparr>rBuf := tl (rBuf r')\<rparr>)
       | Failed e r' \<Rightarrow> Failed e r'
       | Blocked \<Rightarrow> Blocked))"

text \<open>The bytes that are still to be read before the source fails or blocks, and how it ends.\<close>

fun pending :: "read_result list \<Rightarrow> byte list" where
  "pending [] = []"
| "pending (ReadFail e # rest) = []"
| "pending (Data c # rest) = c @ pending rest"

fun ending :: "read_result list \<Rightarrow> err option" where
  "ending [] = None"
| "ending (ReadFail e # rest) = Some e"
| "ending (Data c # rest) = ending rest"

definition upcoming :: "bufio \<Rightarrow> byte list" where
  "upcoming r = rBuf r @ pending (rSrc r)"

lemma fill_pending:
  "bufio_fill src = Got u r \<Longrightarrow> rBuf r \<noteq> [] \<and> upcoming r = pending src \<and> ending (rSrc r) = ending src"
  by (induction src rule: bufio_fill.induct)
    (auto simp: upcoming_def split: if_splits simp flip: append_assoc)

lemma fill_end:
  "pending src = [] \<Longrightarrow> (case ending src of
     None \<Rightarrow> bufio_fill src = Blocked | Some e \<Rightarrow> \<exists>r. bufio_fill src = Failed e r)"
  by (induction src rule: bufio_fill.induct) (auto split: option.splits)

lemma fill_some: "pending src \<noteq> [] \<Longrightarrow> \<exists>r. bufio_fill src = Got () r"
  by (induction src rule: bufio_fill.induct) auto

lemma ReadByte_some:
  assumes "upcoming r = c # cs"
  shows "\<exists>r'. ReadByte r = Got c r' \<and> upcoming r' = cs \<and> ending (rSrc r') = ending (rSrc r)
    \<and> length (rBuf r') \<le> length (upcoming r)"
proof (cases "rBuf r")
  case Nil
  then have "pending (rSrc r) \<noteq> []" using assms by (simp add: upcoming_def)
  then obtain q where q: "bufio_fill (rSrc r) = Got () q" using fill_some by blast
  then show ?thesis using fill_pending [OF q] assms Nil
    by (cases "rBuf q") (auto simp: ReadByte_def upcoming_def)
next
  case (Cons b bs)
  then show ?thesis using assms by (auto simp: ReadByte_def upcoming_def)
qed

lemma ReadByte_end:
  assumes "upcoming r = []"
  shows "case ending (rSrc r) of None \<Rightarrow> ReadByte r = Blocked | Some e \<Rightarrow> \<exists>r'. ReadByte r = Failed e r'"
  using assms fill_end [of "rSrc r"]
  by (auto simp: upcoming_def ReadByte_def split: option.splits)

lemma ReadByte_got: "ReadByte r = Got c r' \<Longrightarrow> upcoming r = c # upcoming r'"
proof (cases "upcoming r")
  case Nil
  assume "ReadByte r = Got c r'"
  then show ?thesis using ReadByte_end [OF Nil] by (auto split: option.splits)
next
  case (Cons a as)
  assume "ReadByte r = Got c r'"
  then show ?thesis using ReadByte_some [OF Cons] by (auto simp: Cons)
qed

section \<open>The password prompt\<close>

definition CR :: byte where "CR = 13"
definition LF :: byte where "LF = 10"

definition passwordMaxLen :: nat where "passwordMaxLen = 256"

text \<open>The arms of the switch that do not end the line: editing, other control bytes, text.\<close>

definition prompt_edit :: "byte \<Rightarrow> byte list \<Rightarrow> err + byte list" where
  "prompt_edit c sb =
    (if c = 0x08 \<or> c = 0x7f then Inr (if length sb > 0 then take (length sb - 1) sb else sb)
     else if unat c < 0x20 then Inr sb
     else if length sb \<ge> passwordMaxLen then Inl (Errorf ''password exceeds maximum length'')
     else Inr (sb @ [c]))"

text \<open>A line feed after a carriage return is dropped when the buffer already holds it.\<close>

definition absorb_LF :: "byte \<Rightarrow> bufio \<Rightarrow> bufio" where
  "absorb_LF c r = (if c = CR \<and> length (rBuf r) > 0 \<and> hd (rBuf r) = LF then r\<lparr>rBuf := tl (rBuf r)\<rparr> else r)"

function prompt_loop :: "bufio \<Rightarrow> byte list \<Rightarrow> ((err + string) \<times> bufio) option" where
  "prompt_loop r sb =
    (case ReadByte r of
       Blocked \<Rightarrow> None
     | Failed e r' \<Rightarrow> Some (Inl e, r')
     | Got c r' \<Rightarrow>
         if c = CR \<or> c = LF then Some (Inr (string_of_bytes sb), absorb_LF c r')
         else (case prompt_edit c sb of
             Inl e \<Rightarrow> Some (Inl e, r')
           | Inr sb' \<Rightarrow> prompt_loop r' sb'))"
  by pat_completeness auto
termination
  by (relation "measure (\<lambda>(r, _). length (upcoming r))") (auto dest: ReadByte_got)

declare prompt_loop.simps [simp del]

text \<open>
  \<open>readPasswordPrompt\<close>: \<open>answer\<close> is the error of writing the prompt; what it writes to the
  channel comes first, \<open>None\<close> is a reader that is still waiting.
\<close>

definition readPasswordPrompt :: "err option \<Rightarrow> bufio \<Rightarrow> string \<times> ((err + string) \<times> bufio) option" where
  "readPasswordPrompt answer r =
    (case answer of
       Some e \<Rightarrow> ([], Some (Inl e, r))
     | None \<Rightarrow>
         (case prompt_loop r [] of
            None \<Rightarrow> (''Password: '', None)
          | Some (Inl e, r') \<Rightarrow> (''Password: '', Some (Inl e, r'))
          | Some (Inr pwd, r') \<Rightarrow> (''Password: '' @ [CHR 0x0D, CHR 0x0A], Some (Inr pwd, r'))))"

definition passwordPromptTimeout :: int where "passwordPromptTimeout = 30 * 1000000000"

text \<open>
  The select of \<open>readPasswordPromptWithTimeout\<close> takes one of three cases; when several are
  ready, any of them.  \<open>None\<close> when the case it is said to take is not ready.
\<close>

datatype prompt_select = SelResult | SelTimer | SelCtx err

definition timeout_error :: err where
  "timeout_error = Errorf ''timeout after 30s waiting for password''"

definition readPasswordPromptWithTimeout ::
    "prompt_select \<Rightarrow> err option \<Rightarrow> bufio \<Rightarrow> string \<times> (err + string \<times> bufio) option" where
  "readPasswordPromptWithTimeout sel answer r =
    (case readPasswordPrompt answer r of
       (w, res) \<Rightarrow>
         (w, case sel of
            SelResult \<Rightarrow> map_option (\<lambda>(x, r'). case x of Inl e \<Rightarrow> Inl e | Inr pwd \<Rightarrow> Inr (pwd, r')) res
          | SelTimer \<Rightarrow> Some (Inl timeout_error)
          | SelCtx e \<Rightarrow> Some (Inl e)))"

section \<open>The prompt over the stream of bytes\<close>

text \<open>The line as a function of the bytes alone: the result, the byte that ended it, the rest.\<close>

fun line_read :: "byte list \<Rightarrow> byte list \<Rightarrow> ((err + byte list) \<times> byte \<times> byte list) option" where
  "line_read [] sb = None"
| "line_read (c # cs) sb =
    (if c = CR \<or> c = LF then Some (Inr sb, c, cs)
     else (case prompt_edit c sb of Inl e \<Rightarrow> Some (Inl e, c, cs) | Inr sb' \<Rightarrow> line_read cs sb'))"

lemma absorb_LF_upcoming:
  "upcoming (absorb_LF c r) = upcoming r \<or> c = CR \<and> upcoming r = LF # upcoming (absorb_LF c r)"
  by (cases "rBuf r") (auto simp: absorb_LF_def upcoming_def)

lemma prompt_loop_line:
  "case line_read (upcoming r) sb of
     None \<Rightarrow> (case ending (rSrc r) of None \<Rightarrow> prompt_loop r sb = None | Some e \<Rightarrow> \<exists>r'. prompt_loop r sb = Some (Inl e, r'))
   | Some (Inl e, t, rest) \<Rightarrow> \<exists>r'. prompt_loop r sb = Some (Inl e, r') \<and> upcoming r' = rest
   | Some (Inr pw, t, rest) \<Rightarrow> \<exists>r'. prompt_loop r sb = Some (Inr (string_of_bytes pw), r')
       \<and> (upcoming r' = rest \<or> t = CR \<and> rest = LF # upcoming r')"
proof (induction r sb rule: prompt_loop.induct)
  case (1 r sb)
  show ?case
  proof (cases "upcoming r")
    case Nil
    then show ?thesis using ReadByte_end [OF Nil]
      by (auto simp: prompt_loop.simps [of r sb] split: option.splits)
  next
    case (Cons c cs)
    obtain r' where r': "ReadByte r = Got c r'" "upcoming r' = cs" "ending (rSrc r') = ending (rSrc r)"
      using ReadByte_some [OF Cons] by blast
    show ?thesis
    proof (cases "c = CR \<or> c = LF")
      case True
      have "prompt_loop r sb = Some (Inr (string_of_bytes sb), absorb_LF c r')"
        using True by (simp add: prompt_loop.simps [of r sb] r')
      moreover have "line_read (upcoming r) sb = Some (Inr sb, c, cs)" using True by (simp add: Cons)
      ultimately show ?thesis using absorb_LF_upcoming [of c r'] by (auto simp: r')
    next
      case False
      show ?thesis
      proof (cases "prompt_edit c sb")
        case (Inl e)
        then show ?thesis using False by (simp add: Cons prompt_loop.simps [of r sb] r')
      next
        case (Inr sb')
        have a: "prompt_loop r sb = prompt_loop r' sb'"
          using False Inr by (simp add: prompt_loop.simps [of r sb] r')
        have b: "line_read (upcoming r) sb = line_read (upcoming r') sb'"
          using False Inr by (simp add: Cons r')
        show ?thesis unfolding a b r'(3) [symmetric] by (rule 1 [OF r'(1) False Inr])
      qed
    qed
  qed
qed

text \<open>A chunk that fits the empty buffer is read as if it had been there.\<close>

lemma prompt_loop_chunk:
  assumes "c \<noteq> []" and "length c \<le> 4096"
  shows "prompt_loop \<lparr>rBuf = [], rSrc = Data c # src\<rparr> sb = prompt_loop \<lparr>rBuf = c, rSrc = src\<rparr> sb"
proof -
  have "ReadByte \<lparr>rBuf = [], rSrc = Data c # src\<rparr> = ReadByte \<lparr>rBuf = c, rSrc = src\<rparr>"
    using assms by (cases c) (simp_all add: ReadByte_def)
  then show ?thesis by (simp add: prompt_loop.simps)
qed

text \<open>Editing alone: what a line without its end leaves, as long as it does not overflow.\<close>

fun line_edit :: "byte list \<Rightarrow> byte list \<Rightarrow> byte list option" where
  "line_edit [] sb = Some sb"
| "line_edit (c # cs) sb = (case prompt_edit c sb of Inl e \<Rightarrow> None | Inr sb' \<Rightarrow> line_edit cs sb')"

definition line_bytes :: "byte list \<Rightarrow> bool" where
  "line_bytes xs \<longleftrightarrow> CR \<notin> set xs \<and> LF \<notin> set xs"

lemma line_read_edit:
  "line_bytes xs \<Longrightarrow> line_edit xs sb = Some pw \<Longrightarrow> t = CR \<or> t = LF \<Longrightarrow>
   line_read (xs @ t # rest) sb = Some (Inr pw, t, rest)"
  by (induction xs arbitrary: sb) (auto simp: line_bytes_def split: sum.splits)

definition typed :: "byte \<Rightarrow> bool" where
  "typed c \<longleftrightarrow> 0x20 \<le> unat c \<and> c \<noteq> 0x7f"

lemma typed_edit: "typed c \<Longrightarrow> length sb < 256 \<Longrightarrow> prompt_edit c sb = Inr (sb @ [c])"
  by (auto simp: prompt_edit_def typed_def passwordMaxLen_def)

lemma line_edit_typed:
  "\<forall>c \<in> set xs. typed c \<Longrightarrow> length sb + length xs \<le> 256 \<Longrightarrow> line_edit xs sb = Some (sb @ xs)"
  by (induction xs arbitrary: sb) (auto simp: typed_edit)

lemma line_read_overflow:
  "256 < length sb + length xs \<Longrightarrow> length sb \<le> 256 \<Longrightarrow> \<forall>c \<in> set xs. typed c \<Longrightarrow>
   \<exists>t rest'. line_read (xs @ rest) sb = Some (Inl (Errorf ''password exceeds maximum length''), t, rest')"
proof (induction xs arbitrary: sb)
  case (Cons c xs)
  have c: "c \<noteq> CR" "c \<noteq> LF" using Cons.prems(3) by (auto simp: typed_def CR_def LF_def)
  show ?case
  proof (cases "length sb < 256")
    case True
    then show ?thesis using Cons c by (simp add: typed_edit)
  next
    case False
    then have "prompt_edit c sb = Inl (Errorf ''password exceeds maximum length'')"
      using Cons.prems by (auto simp: prompt_edit_def typed_def passwordMaxLen_def)
    then show ?thesis using c by simp
  qed
qed simp

lemma line_edit_append: "line_edit (xs @ ys) sb = Option.bind (line_edit xs sb) (line_edit ys)"
  by (induction xs arbitrary: sb) (auto split: sum.splits)

lemma line_edit_erase:
  "c = 0x08 \<or> c = 0x7f \<Longrightarrow> line_edit [c] sb = Some (butlast sb)"
  by (auto simp: prompt_edit_def butlast_conv_take)

lemma prompt_edit_ok:
  "prompt_edit c sb = Inr sb' \<Longrightarrow> length sb \<le> 256 \<and> (\<forall>x \<in> set sb. typed x) \<Longrightarrow>
   length sb' \<le> 256 \<and> (\<forall>x \<in> set sb'. typed x)"
  by (auto simp: prompt_edit_def typed_def passwordMaxLen_def split: if_splits dest: in_set_takeD)

lemma prompt_loop_ok:
  assumes "prompt_loop r sb = Some (Inr pwd, r')" and "length sb \<le> 256 \<and> (\<forall>x \<in> set sb. typed x)"
  shows "\<exists>pw. pwd = string_of_bytes pw \<and> length pw \<le> 256 \<and> (\<forall>x \<in> set pw. typed x)"
  using assms
proof (induction r sb rule: prompt_loop.induct)
  case (1 r sb)
  obtain c r1 where c: "ReadByte r = Got c r1"
    using 1(2) by (subst (asm) prompt_loop.simps) (auto split: read.splits)
  show ?case
  proof (cases "c = CR \<or> c = LF")
    case True
    then show ?thesis using 1(2,3) c by (subst (asm) prompt_loop.simps) auto
  next
    case False
    then obtain sb' where sb': "prompt_edit c sb = Inr sb'" "prompt_loop r1 sb' = Some (Inr pwd, r')"
      using 1(2) c by (subst (asm) prompt_loop.simps) (auto split: sum.splits)
    show ?thesis using 1(1) [OF c False sb'(1,2)] prompt_edit_ok [OF sb'(1) 1(3)] by blast
  qed
qed

lemma prompt_loop_buffered:
  assumes "line_bytes xs" and "line_edit xs sb = Some pw" and "t = CR \<or> t = LF"
  shows "prompt_loop \<lparr>rBuf = xs @ t # ys, rSrc = src\<rparr> sb
    = Some (Inr (string_of_bytes pw), absorb_LF t \<lparr>rBuf = ys, rSrc = src\<rparr>)"
  using assms
proof (induction xs arbitrary: sb)
  case Nil
  then show ?case by (subst prompt_loop.simps) (simp add: ReadByte_def)
next
  case (Cons c xs)
  have c: "c \<noteq> CR" "c \<noteq> LF" "line_bytes xs" using Cons.prems(1) by (auto simp: line_bytes_def)
  obtain sb' where "prompt_edit c sb = Inr sb'" "line_edit xs sb' = Some pw"
    using Cons.prems(2) by (auto split: sum.splits)
  then show ?case using Cons.IH [OF c(3) _ Cons.prems(3)] c
    by (subst prompt_loop.simps) (simp add: ReadByte_def)
qed

section \<open>After the prompt: io.Copy from the reader to the session\<close>

text \<open>
  \<^verbatim>\<open>bufio.Reader.WriteTo\<close>: what is buffered is written first, then each refill of the
  buffer, each with one call of \<^verbatim>\<open>Session.Write\<close>, until a call fails.
\<close>

function refills :: "read_result list \<Rightarrow> byte list list" where
  "refills src = (case bufio_fill src of Got u r \<Rightarrow> rBuf r # refills (rSrc r) | _ \<Rightarrow> [])"
  by pat_completeness auto
termination
proof (relation "measure (\<lambda>src. length (pending src))")
  fix src u and r :: bufio
  assume "bufio_fill src = Got u r"
  from fill_pending [OF this] have "rBuf r \<noteq> []" "pending src = rBuf r @ pending (rSrc r)"
    by (simp_all add: upcoming_def)
  then show "(rSrc r, src) \<in> measure (\<lambda>src. length (pending src))" by simp
qed simp

declare refills.simps [simp del]

definition copied :: "bufio \<Rightarrow> byte list list" where
  "copied r = (if rBuf r \<noteq> [] then [rBuf r] else []) @ refills (rSrc r)"

text \<open>
  One call of \<open>write\<close> per piece, each in its own environment; a call that is still waiting, or
  for which the environment has run out, leaves the copy waiting.
\<close>

fun copy_to ::
    "('s \<Rightarrow> byte list \<Rightarrow> 'x \<Rightarrow> ((err + nat) \<times> 's) option) \<Rightarrow> 's \<Rightarrow> byte list list \<Rightarrow> 'x list
      \<Rightarrow> (err option \<times> 's) option"
where
  "copy_to write s [] env = Some (None, s)"
| "copy_to write s (p # ps) [] = None"
| "copy_to write s (p # ps) (x # env) =
    (case write s p x of
       None \<Rightarrow> None
     | Some (Inl e, s') \<Rightarrow> Some (Some e, s')
     | Some (Inr n, s') \<Rightarrow> copy_to write s' ps env)"

definition write_in ::
    "schedules \<Rightarrow> session \<Rightarrow> byte list \<Rightarrow> errno option \<times> attempt list \<Rightarrow> ((err + nat) \<times> session) option"
where
  "write_in cfg s p x = Session_Write cfg s p (fst x) (snd x)"

definition copy_writes ::
    "schedules \<Rightarrow> session \<Rightarrow> byte list list \<Rightarrow> (errno option \<times> attempt list) list \<Rightarrow> (err option \<times> session) option"
where
  "copy_writes cfg = copy_to (write_in cfg)"

text \<open>
  \<^verbatim>\<open>io.Copy(sess, chReader)\<close>: the error it returns, nil at the end of the input; \<open>None\<close>
  inside is a copy that still waits for input or for an acknowledgement.
\<close>

definition io_Copy ::
    "schedules \<Rightarrow> session \<Rightarrow> bufio \<Rightarrow> (errno option \<times> attempt list) list \<Rightarrow> (err option \<times> session) option"
where
  "io_Copy cfg s r env =
    (case copy_writes cfg s (copied r) env of
       None \<Rightarrow> None
     | Some (Some e, s') \<Rightarrow> Some (Some e, s')
     | Some (None, s') \<Rightarrow>
         (case ending (rSrc r) of
            None \<Rightarrow> None
          | Some e \<Rightarrow> Some (if e = EOF then None else Some e, s')))"

lemma concat_refills: "concat (refills src) = pending src"
proof (induction src rule: refills.induct)
  case (1 src)
  show ?case
  proof (cases "bufio_fill src")
    case (Got u r)
    then show ?thesis using 1 [OF Got] fill_pending [OF Got]
      by (simp add: refills.simps [of src] upcoming_def)
  next
    case (Failed e r)
    then have "pending src = []" using fill_some [of src] by force
    then show ?thesis using Failed by (simp add: refills.simps [of src])
  next
    case Blocked
    then have "pending src = []" using fill_some [of src] by force
    then show ?thesis using Blocked by (simp add: refills.simps [of src])
  qed
qed

lemma concat_copied: "concat (copied r) = upcoming r"
  by (simp add: copied_def concat_refills upcoming_def)

lemma fill_size: "bufio_fill src = Got u r \<Longrightarrow> length (rBuf r) \<le> 4096"
  by (induction src rule: bufio_fill.induct) (auto split: if_splits)

lemma refills_sizes: "\<forall>c \<in> set (refills src). c \<noteq> [] \<and> length c \<le> 4096"
proof (induction src rule: refills.induct)
  case (1 src)
  show ?case
  proof (cases "bufio_fill src")
    case (Got u r)
    then show ?thesis using 1 [OF Got] fill_pending [OF Got] fill_size [OF Got]
      by (simp add: refills.simps [of src])
  qed (simp_all add: refills.simps [of src])
qed

section \<open>Properties\<close>

text \<open>
  C24.  The prompt reads exactly one line, however its bytes are split into reads: the
  password is the edited line and the reader stands right after the byte that ended it.  A
  line feed after a carriage return is dropped when it came in the same read, and stays the
  first byte of the session when it came in the next.
\<close>

theorem password_prompt:
  assumes "line_bytes xs" and "line_edit xs [] = Some pw" and "t = CR \<or> t = LF"
    and "upcoming r = xs @ t # rest" and "length xs + length keys + 2 \<le> 4096"
  shows "(\<exists>r'. readPasswordPrompt None r = (''Password: '' @ [CHR 0x0D, CHR 0x0A], Some (Inr (string_of_bytes pw), r'))
      \<and> (upcoming r' = rest \<or> t = CR \<and> rest = LF # upcoming r'))
    \<and> readPasswordPrompt None (NewReader (Data (xs @ CR # LF # keys) # src))
      = (''Password: '' @ [CHR 0x0D, CHR 0x0A], Some (Inr (string_of_bytes pw), \<lparr>rBuf = keys, rSrc = src\<rparr>))
    \<and> readPasswordPrompt None (NewReader (Data (xs @ [CR]) # Data (LF # keys) # src))
      = (''Password: '' @ [CHR 0x0D, CHR 0x0A], Some (Inr (string_of_bytes pw), NewReader (Data (LF # keys) # src)))"
proof -
  have "line_read (upcoming r) [] = Some (Inr pw, t, rest)"
    using line_read_edit [OF assms(1-3)] assms(4) by simp
  then have "\<exists>r'. prompt_loop r [] = Some (Inr (string_of_bytes pw), r')
      \<and> (upcoming r' = rest \<or> t = CR \<and> rest = LF # upcoming r')"
    using prompt_loop_line [of r "[]"] by simp
  moreover have "prompt_loop (NewReader (Data (xs @ CR # LF # keys) # src)) []
      = Some (Inr (string_of_bytes pw), \<lparr>rBuf = keys, rSrc = src\<rparr>)"
    using assms(5) prompt_loop_buffered [OF assms(1,2), of CR "LF # keys" src]
    by (simp add: NewReader_def prompt_loop_chunk absorb_LF_def)
  moreover have "prompt_loop (NewReader (Data (xs @ [CR]) # Data (LF # keys) # src)) []
      = Some (Inr (string_of_bytes pw), NewReader (Data (LF # keys) # src))"
    using assms(5) prompt_loop_buffered [OF assms(1,2), of CR "[]" "Data (LF # keys) # src"]
    by (simp add: NewReader_def prompt_loop_chunk absorb_LF_def)
  ultimately show ?thesis by (auto simp: readPasswordPrompt_def)
qed

theorem password_prompt_witness:
  "readPasswordPrompt None (NewReader (Data [0x61, 0x62, 0x7f, 0x63, 13, 10, 0x64] # []))
    = (''Password: '' @ [CHR 0x0D, CHR 0x0A], Some (Inr ''ac'', \<lparr>rBuf = [0x64], rSrc = []\<rparr>))"
proof -
  have "line_bytes [0x61, 0x62, 0x7f, 0x63]" by (simp add: line_bytes_def CR_def LF_def)
  moreover have "line_edit [0x61, 0x62, 0x7f, 0x63] [] = Some [0x61, 0x63]"
    by (simp add: prompt_edit_def passwordMaxLen_def)
  moreover have "string_of_bytes [0x61, 0x63] = ''ac''"
    by (simp add: string_of_bytes_def char_of_def bit_0)
  ultimately show ?thesis
    using password_prompt [of "[0x61, 0x62, 0x7f, 0x63]" "[0x61, 0x63]" LF
        "\<lparr>rBuf = [0x61, 0x62, 0x7f, 0x63, 10], rSrc = []\<rparr>" "[]" "[0x64]" "[]"]
    by (simp add: LF_def CR_def upcoming_def)
qed

text \<open>
  A password that the prompt returns has at most 256 bytes, none of them a control
  byte; a line of printable bytes of that length is returned unchanged, and the byte that
  would make it longer is an error.
\<close>

theorem password_bounds:
  assumes "readPasswordPrompt answer r = (w, Some (Inr pwd, r'))"
  shows "length pwd \<le> 256 \<and> (\<forall>c \<in> set pwd. 0x20 \<le> code c \<and> code c \<noteq> 0x7f)
    \<and> (length xs \<le> 256 \<and> (\<forall>c \<in> set xs. typed c) \<longrightarrow> line_edit xs [] = Some xs)
    \<and> (256 < length xs \<and> (\<forall>c \<in> set xs. typed c) \<and> upcoming q = xs @ rest \<longrightarrow>
        (\<exists>q'. readPasswordPrompt None q =
          (''Password: '', Some (Inl (Errorf ''password exceeds maximum length''), q'))))"
proof -
  have "prompt_loop r [] = Some (Inr pwd, r')"
    using assms by (auto simp: readPasswordPrompt_def split: option.splits sum.splits)
  then obtain pw where pw: "pwd = string_of_bytes pw" "length pw \<le> 256" "\<forall>x \<in> set pw. typed x"
    using prompt_loop_ok [of r "[]" pwd r'] by auto
  have "0x20 \<le> code c \<and> code c \<noteq> 0x7f" if in_pwd: "c \<in> set pwd" for c
  proof -
    obtain x where x: "x \<in> set pw" "c = char_of (unat x)"
      using in_pwd pw(1) by (auto simp: string_of_bytes_def)
    have "code c = unat x" using x(2) unat_byte_lt [of x] by simp
    moreover have "unat x \<noteq> 0x7f" if "x \<noteq> 0x7f"
      using that by (simp add: word_unat_eq_iff)
    ultimately show ?thesis using pw(3) x(1) by (auto simp: typed_def)
  qed
  moreover have "line_edit xs [] = Some xs" if "length xs \<le> 256" "\<forall>c \<in> set xs. typed c"
    using line_edit_typed [of xs "[]"] that by simp
  moreover have "\<exists>q'. readPasswordPrompt None q =
      (''Password: '', Some (Inl (Errorf ''password exceeds maximum length''), q'))"
    if over: "256 < length xs" "\<forall>c \<in> set xs. typed c" "upcoming q = xs @ rest"
  proof -
    obtain t rest' where "line_read (upcoming q) [] = Some (Inl (Errorf ''password exceeds maximum length''), t, rest')"
      using line_read_overflow [of "[]" xs rest] over by auto
    then obtain q' where "prompt_loop q [] = Some (Inl (Errorf ''password exceeds maximum length''), q')"
      using prompt_loop_line [of q "[]"] by auto
    then show ?thesis by (simp add: readPasswordPrompt_def)
  qed
  ultimately show ?thesis using pw by simp
qed

theorem password_bounds_witness:
  "\<exists>q'. readPasswordPrompt None (NewReader [Data (replicate 257 0x61)])
     = (''Password: '', Some (Inl (Errorf ''password exceeds maximum length''), q'))"
proof -
  have "readPasswordPrompt None (NewReader [Data [0x61, 13]])
      = (''Password: '' @ [CHR 0x0D, CHR 0x0A], Some (Inr (string_of_bytes [0x61]), NewReader []))"
    using prompt_loop_buffered [of "[0x61]" "[]" "[0x61]" CR "[]" "[]"]
    by (simp add: readPasswordPrompt_def NewReader_def prompt_loop_chunk line_bytes_def CR_def LF_def
        prompt_edit_def passwordMaxLen_def absorb_LF_def)
  from password_bounds [OF this, of "replicate 257 0x61" "NewReader [Data (replicate 257 0x61)]" "[]"]
  show ?thesis by (simp add: upcoming_def NewReader_def typed_def)
qed

text \<open>
  The copy to the session writes every byte that is still to come, in order, in pieces
  of at most 4096 bytes.  A piece of more than 1469 bytes does not fit one DATA packet:
  writing it fails without sending anything, and the copy ends with that error.
\<close>

theorem keystrokes_forwarded:
  "concat (copied r) = upcoming r
    \<and> (\<forall>p \<in> set (copied r). p \<noteq> [] \<and> length p \<le> max 4096 (length (rBuf r)))
    \<and> (\<not> sClosed s \<and> copied r = p # ps \<and> 1469 < length p \<longrightarrow>
        io_Copy cfg s r ((answer, atts) # env)
          = Some (Some (Errorf (''mactelnet: write too large ('' @ decimal (length p) @ '' bytes)'')), s))"
proof -
  have "\<forall>p \<in> set (copied r). p \<noteq> [] \<and> length p \<le> max 4096 (length (rBuf r))"
    using refills_sizes [of "rSrc r"] by (auto simp: copied_def)
  moreover have "Session_Write cfg s p answer atts
      = Some (Inl (Errorf (''mactelnet: write too large ('' @ decimal (length p) @ '' bytes)'')), s)"
    if "\<not> sClosed s" "1469 < length p"
    using that by (auto simp: Session_Write_def cpHeaderLen_def maxPacket_def headerLen_def)
  ultimately show ?thesis by (simp add: concat_copied io_Copy_def copy_writes_def write_in_def)
qed

theorem keystrokes_forwarded_witness:
  "io_Copy sample_cfg sample_session
     (NewReader [Data (replicate 1470 0x61)]) [(None, [])]
   = Some (Some (Errorf (''mactelnet: write too large ('' @ decimal 1470 @ '' bytes)'')),
       sample_session)"
proof -
  have "copied (NewReader [Data (replicate 1470 (0x61 :: byte))]) = [replicate 1470 0x61]"
    by (simp add: copied_def NewReader_def refills.simps)
  then show ?thesis
    using keystrokes_forwarded [of "NewReader [Data (replicate 1470 0x61)]"
        sample_session
        "replicate 1470 0x61" "[]" sample_cfg None "[]" "[]"]
    by (simp add: sample_session_def new_session_def)
qed

end
