(* ===== verification/Terminal_Input.thy ===== *)
theory Terminal_Input
  imports Prompt Peer
begin

text \<open>
  From the keyboard to the device: what the copy loop writes is what the other end of the
  session reads.
\<close>

section \<open>Copying to a sink of bytes\<close>

text \<open>
  What the copy loop needs of its writer: a write that succeeds has passed on the whole
  piece, a write that fails at most some first part of it.
\<close>

locale byte_sink =
  fixes put :: "'s \<Rightarrow> byte list \<Rightarrow> 'x \<Rightarrow> ((err + nat) \<times> 's) option"
    and received :: "'s \<Rightarrow> byte list"
    and healthy :: "'s \<Rightarrow> bool"
  assumes put_all: "healthy s \<Longrightarrow> put s p x = Some (Inr n, s') \<Longrightarrow> received s' = received s @ p \<and> healthy s'"
    and put_part: "healthy s \<Longrightarrow> put s p x = Some (Inl e, s') \<Longrightarrow> \<exists>q. prefix q p \<and> received s' = received s @ q"
begin

lemma copy_all:
  "healthy s \<Longrightarrow> copy_to put s ps env = Some (None, s') \<Longrightarrow> received s' = received s @ concat ps"
proof (induction ps arbitrary: s env)
  case (Cons p ps)
  obtain x env' n s1 where env: "env = x # env'" and w: "put s p x = Some (Inr n, s1)"
      and rest: "copy_to put s1 ps env' = Some (None, s')"
    using Cons.prems(2) by (cases env) (auto split: option.splits sum.splits)
  show ?case using put_all [OF Cons.prems(1) w] Cons.IH [OF _ rest] by simp
qed simp

lemma copy_some:
  "healthy s \<Longrightarrow> copy_to put s ps env = Some (Some e, s') \<Longrightarrow> \<exists>q. prefix q (concat ps) \<and> received s' = received s @ q"
proof (induction ps arbitrary: s env)
  case (Cons p ps)
  obtain x env' where env: "env = x # env'" using Cons.prems(2) by (cases env) auto
  obtain r s1 where w: "put s p x = Some (r, s1)" using Cons.prems(2) env by (auto split: option.splits)
  show ?case
  proof (cases r)
    case (Inl e1)
    then obtain q where "prefix q p" "received s1 = received s @ q"
      using put_part [OF Cons.prems(1)] w by blast
    moreover have "s1 = s'" using Cons.prems(2) env w Inl by simp
    ultimately show ?thesis by (auto intro!: exI [of _ q])
  next
    case (Inr n)
    then have "received s1 = received s @ p" "healthy s1" and rest: "copy_to put s1 ps env' = Some (Some e, s')"
      using put_all [OF Cons.prems(1)] w Cons.prems(2) env by auto
    moreover obtain q where "prefix q (concat ps)" "received s' = received s1 @ q"
      using Cons.IH [OF \<open>healthy s1\<close> rest] by blast
    ultimately show ?thesis by (auto intro!: exI [of _ "p @ q"])
  qed
qed simp

end

section \<open>The session is such a sink\<close>

text \<open>
  What the peer has read of the frames sent since \<open>m\<close> of them had gone out; it was expecting
  counter \<open>c\<close> then, and is in step when it expects the counter of the next DATA.
\<close>

definition peer_at :: "nat \<Rightarrow> u32 \<Rightarrow> session \<Rightarrow> byte list \<times> u32" where
  "peer_at m c s = peer_run s (drop m (sSent s)) ([], c)"

definition in_step :: "nat \<Rightarrow> u32 \<Rightarrow> session \<Rightarrow> bool" where
  "in_step m c s \<longleftrightarrow> m \<le> length (sSent s) \<and> snd (peer_at m c s) = ctOut (sCounters s)"

lemma peer_after_data:
  assumes "in_step m c s" and "sendDataAndWaitAck cfg s p answer atts = Some (r, s')" and "length p < 2 ^ 32"
  shows "fst (peer_at m c s') = fst (peer_at m c s) @ p" and "in_step m c s'"
proof -
  let ?s = "advance_out (s\<lparr>sAckCh := []\<rparr>) (length p)"
  obtain n where n: "1 \<le> n" and t: "transmitted ?s (data_datagram s p) n s'"
    using sendDataAndWaitAck_spec [OF assms(2)] by blast
  have same: "peer_run s' = peer_run s"
    by (rule same_sender_reads) (use t in \<open>auto simp: transmitted_def advance_out_def\<close>)
  have calls: "frame_call ?s = frame_call s" by (simp add: fun_eq_iff frame_call_def advance_out_def)
  have sent: "sSent s' = sSent s @ map (\<lambda>k. frame_call s (data_datagram s p) (rsIpID (sSender s) + 1 + of_nat k)) [0..<n]"
    using t by (auto simp: transmitted_def calls) (simp_all add: advance_out_def)
  have c: "ctOut (sCounters s') = ctOut (sCounters s) + of_nat (length p)"
    by (simp add: transmitted_simps [OF t]) (simp add: advance_out_def)
  obtain bytes where b: "peer_at m c s = (bytes, ctOut (sCounters s))"
    using assms(1) by (cases "peer_at m c s") (simp add: in_step_def)
  have "peer_at m c s' = (bytes @ p, ctOut (sCounters s) + of_nat (length p))"
    using assms(1) n b peer_copies [OF assms(3), of n s] by (simp add: peer_at_def same sent in_step_def)
  then show "fst (peer_at m c s') = fst (peer_at m c s) @ p" "in_step m c s'"
    using assms(1) b c sent by (simp_all add: in_step_def)
qed

lemma write_reaches_peer:
  assumes "in_step m c s" and "write_in cfg s p x = Some (r, s')"
  shows "(\<exists>e. r = Inl e) \<and> s' = s \<or> fst (peer_at m c s') = fst (peer_at m c s) @ p \<and> in_step m c s'"
proof (cases "sClosed s \<or> p = [] \<or> 1469 < length p")
  case True
  then show ?thesis using assms by (auto simp: write_in_def Session_Write_def protocol_lens split: if_splits)
next
  case False
  then obtain r' where "sendDataAndWaitAck cfg s p (fst x) (snd x) = Some (r', s')"
    using assms(2) Session_Write_sends [of s p] by (auto simp: write_in_def)
  then show ?thesis using peer_after_data [OF assms(1)] False by simp
qed

interpretation to_peer: byte_sink "write_in cfg" "\<lambda>s. fst (peer_at m c s)" "in_step m c" for cfg m c
proof
  fix s p x n s'
  assume "in_step m c s" and "write_in cfg s p x = Some (Inr n, s')"
  from write_reaches_peer [OF this]
  show "fst (peer_at m c s') = fst (peer_at m c s) @ p \<and> in_step m c s'" by simp
next
  fix s p x e s'
  assume "in_step m c s" and "write_in cfg s p x = Some (Inl e, s')"
  from write_reaches_peer [OF this]
  show "\<exists>q. prefix q p \<and> fst (peer_at m c s') = fst (peer_at m c s) @ q"
    by (elim disjE) (auto intro: exI [of _ "[]"])
qed

lemma in_step_start [simp]: "in_step (length (sSent s)) (ctOut (sCounters s)) s"
  by (simp add: in_step_def peer_at_def)

lemma peer_at_start [simp]: "fst (peer_at (length (sSent s)) c s) = []"
  by (simp add: peer_at_def)

lemmas copied_reaches_peer = to_peer.copy_all [OF in_step_start] to_peer.copy_some [OF in_step_start]

lemma io_Copy_reaches_peer:
  assumes "io_Copy cfg s r env = Some (None, s')"
  shows "fst (peer_at (length (sSent s)) (ctOut (sCounters s)) s') = upcoming r"
proof -
  have "copy_to (write_in cfg) s (copied r) env = Some (None, s')"
    using assms by (auto simp: io_Copy_def copy_writes_def split: option.splits if_splits)
  from copied_reaches_peer(1) [OF this] show ?thesis by (simp add: concat_copied)
qed

section \<open>Properties\<close>

text \<open>
  C8.  Everything typed after the password prompt reaches the device in order, once: when
  the copy to the session ends without an error, a device that reads the frames sent since
  has the bytes that came from the client, all of them; when it ends with an error, a first
  part of them; and while it goes on, the pieces written so far.
\<close>

theorem typed_bytes_arrive:
  "(io_Copy cfg s r env = Some (None, s') \<longrightarrow> fst (peer_at (length (sSent s)) (ctOut (sCounters s)) s') = upcoming r)
    \<and> (io_Copy cfg s r env = Some (Some e, s') \<longrightarrow>
        prefix (fst (peer_at (length (sSent s)) (ctOut (sCounters s)) s')) (upcoming r))
    \<and> (copy_writes cfg s (take j (copied r)) env = Some (None, s') \<longrightarrow>
        fst (peer_at (length (sSent s)) (ctOut (sCounters s)) s') = concat (take j (copied r))
        \<and> prefix (concat (take j (copied r))) (upcoming r))"
proof (intro conjI impI)
  let ?got = "\<lambda>s'. fst (peer_at (length (sSent s)) (ctOut (sCounters s)) s')"
  show "?got s' = upcoming r" if "io_Copy cfg s r env = Some (None, s')"
    by (rule io_Copy_reaches_peer [OF that])
  show "prefix (?got s') (upcoming r)" if "io_Copy cfg s r env = Some (Some e, s')"
  proof (cases "copy_to (write_in cfg) s (copied r) env = Some (None, s')")
    case True
    from copied_reaches_peer(1) [OF this] show ?thesis by (simp add: concat_copied)
  next
    case False
    then have "copy_to (write_in cfg) s (copied r) env = Some (Some e, s')"
      using that by (auto simp: io_Copy_def copy_writes_def split: option.splits if_splits)
    from copied_reaches_peer(2) [OF this] show ?thesis by (auto simp: concat_copied)
  qed
  assume w: "copy_writes cfg s (take j (copied r)) env = Some (None, s')"
  show "?got s' = concat (take j (copied r))"
    using copied_reaches_peer(1) [OF w [unfolded copy_writes_def]] by simp
  have "concat (copied r) = concat (take j (copied r)) @ concat (drop j (copied r))"
    by (metis append_take_drop_id concat_append)
  then show "prefix (concat (take j (copied r))) (upcoming r)" by (metis concat_copied prefixI)
qed

lemma sample_typed:
  "\<exists>s'. io_Copy sample_cfg sample_session (NewReader [Data [1, 2, 3], ReadFail EOF])
    [(None, [(0, [(1, GotAck 3)], None)])] = Some (None, s')"
proof -
  have pieces: "copied (NewReader [Data [1, 2, 3], ReadFail EOF]) = [[1, 2, 3]]"
    by (simp add: copied_def NewReader_def refills.simps)
  have "\<not> sClosed sample_session" by (simp add: sample_session_def new_session_def)
  note sends = Session_Write_sends [OF this, of "[1, 2, 3]" sample_cfg]
  obtain s' where "sendDataAndWaitAck sample_cfg sample_session [1, 2, 3] None [(0, [(1, GotAck 3)], None)] = Some (None, s')"
    using sample_ack by blast
  then have "Session_Write sample_cfg sample_session [1, 2, 3] None [(0, [(1, GotAck 3)], None)] = Some (Inr 3, s')"
    using sends by simp
  then show ?thesis
    by (simp add: io_Copy_def pieces copy_writes_def write_in_def) (simp add: NewReader_def)
qed

theorem typed_bytes_arrive_witness:
  "\<exists>s'. io_Copy sample_cfg sample_session (NewReader [Data [1, 2, 3], ReadFail EOF])
        [(None, [(0, [(1, GotAck 3)], None)])] = Some (None, s')
    \<and> fst (peer_at 0 0 s') = [1, 2, 3]"
proof -
  let ?r = "NewReader [Data [1, 2, 3], ReadFail EOF]" and ?env = "[(None, [(0, [(1, GotAck 3)], None)])]"
  have fresh: "length (sSent sample_session) = 0" by (simp add: sample_session_def new_session_def)
  obtain s' where run: "io_Copy sample_cfg sample_session ?r ?env = Some (None, s')" using sample_typed by blast
  show ?thesis
    using fresh run typed_bytes_arrive [of sample_cfg sample_session ?r ?env s' EOF 0]
    by (simp add: sample_ctOut) (simp add: upcoming_def NewReader_def)
qed

end
