(* ===== verification/Paths.thy ===== *)
theory Paths
  imports Text
begin

text \<open>
  \<^verbatim>\<open>path/filepath\<close> on Unix, as far as the program uses it: \<^verbatim>\<open>Clean\<close>, \<^verbatim>\<open>Join\<close>, \<^verbatim>\<open>Dir\<close> and
  \<^verbatim>\<open>Base\<close>.
\<close>

abbreviation slash :: char where "slash \<equiv> CHR ''/''"

text \<open>The components that \<^verbatim>\<open>Clean\<close> keeps, in reverse, and whether the path is rooted.\<close>

fun clean_parts :: "bool \<Rightarrow> string list \<Rightarrow> string list \<Rightarrow> string list" where
  "clean_parts rooted [] kept = rev kept"
| "clean_parts rooted (p # ps) kept =
    (if p = [] \<or> p = ''.'' then clean_parts rooted ps kept
     else if p = ''..'' then
       (case kept of
          [] \<Rightarrow> clean_parts rooted ps (if rooted then [] else [''..''])
        | k # ks \<Rightarrow> if k = ''..'' then clean_parts rooted ps (''..'' # kept) else clean_parts rooted ps ks)
     else clean_parts rooted ps (p # kept))"

definition Clean :: "string \<Rightarrow> string" where
  "Clean path =
    (if path = [] then ''.''
     else let rooted = (hd path = slash); parts = clean_parts rooted (Split path slash) []
          in if rooted then slash # Join parts [slash]
             else if parts = [] then ''.'' else Join parts [slash])"

text \<open>\<^verbatim>\<open>Join\<close> of two components.\<close>

definition path_join :: "string \<Rightarrow> string \<Rightarrow> string" where
  "path_join a b =
    (if a = [] then (if b = [] then [] else Clean b)
     else Clean (a @ slash # b))"

definition path_Dir :: "string \<Rightarrow> string" where
  "path_Dir path = Clean (rev (dropWhile (\<lambda>c. c \<noteq> slash) (rev path)))"

definition path_Base :: "string \<Rightarrow> string" where
  "path_Base path =
    (if path = [] then ''.''
     else let p = rev (dropWhile (\<lambda>c. c = slash) (rev path));
              b = rev (takeWhile (\<lambda>c. c \<noteq> slash) (rev p))
          in if b = [] then ''/'' else b)"

section \<open>Plain components\<close>

definition plain_part :: "string \<Rightarrow> bool" where
  "plain_part p \<longleftrightarrow> p \<noteq> [] \<and> p \<noteq> ''.'' \<and> p \<noteq> ''..'' \<and> slash \<notin> set p"

lemma clean_plain: "\<forall>p \<in> set ps. plain_part p \<Longrightarrow> clean_parts rooted ps kept = rev kept @ ps"
  by (induction ps arbitrary: kept) (auto simp: plain_part_def)

lemma Clean_plain:
  assumes "\<forall>p \<in> set ps. plain_part p" and "ps \<noteq> []"
  shows "Clean (slash # Join ps [slash]) = slash # Join ps [slash]"
proof -
  have "Split (slash # Join ps [slash]) slash = [] # ps"
    using Split_Join [of ps slash] assms by (simp add: plain_part_def)
  then show ?thesis using clean_plain [OF assms(1), of True "[]"] by (simp add: Clean_def)
qed

lemma Join_snoc: "ps \<noteq> [] \<Longrightarrow> Join (ps @ [p]) sep = Join ps sep @ sep @ p"
  by (induction ps sep rule: Join.induct) simp_all

text \<open>Joining a plain name to a clean rooted directory; and the directory of the result.\<close>

lemma path_join_plain:
  assumes "\<forall>p \<in> set ps. plain_part p" and "ps \<noteq> []" and "plain_part name"
  shows "path_join (slash # Join ps [slash]) name = slash # Join (ps @ [name]) [slash]"
proof -
  have "slash # Join ps [slash] @ slash # name = slash # Join (ps @ [name]) [slash]"
    using assms(2) by (simp add: Join_snoc)
  then show ?thesis using Clean_plain [of "ps @ [name]"] assms by (simp add: path_join_def)
qed

end
