(* ===== verification/Commands.thy ===== *)
theory Commands
  imports Prompt Flags Handshake Mndp_Discover
begin

text \<open>
  The exec commands \<^verbatim>\<open>mactelnet\<close> and \<^verbatim>\<open>mndp\<close> of \<^verbatim>\<open>src/internal/sshserver/exec.go\<close>, from
  their arguments to the exit code.  What a command gets from outside (the channel's input,
  the answers of \<^verbatim>\<open>mactelnet.Open\<close>, the network) is the record \<open>exec_env\<close>; what it does is
  the record \<open>outcome\<close>.  Logging is left out.
\<close>

section \<open>Configuration, diagnostics, output\<close>

record Config =
  cfListenAddr :: string
  cfHostKeyPath :: string
  cfAuthorizedKeys :: string
  cfIface :: string
  cfVlanID :: u16

text \<open>
  What is printed on the error stream, one constructor per shape of format string: a constant
  line, a prefix with an error (\<^verbatim>\<open>%v\<close>) or a quoted text (\<^verbatim>\<open>%q\<close>), and what \<^verbatim>\<open>flag\<close> prints.
\<close>

datatype diag =
    Line string
  | LineErr string err
  | LineDiscover string "err discover_error"
  | LineQuoted string string string
  | FlagFailure flag_error
  | FlagDefaults flagset

text \<open>JSON values as \<^verbatim>\<open>encoding/json\<close> writes them; a time is written by \<^verbatim>\<open>time.Time\<close> itself.\<close>

datatype json = JStr string | JInt int | JTime int | JList "json list" | JObj "(string \<times> json) list"

datatype written = OText string | OJson json

section \<open>Requests and outcomes\<close>

record open_call =
  ocIface :: string
  ocMac :: string
  ocUser :: string
  ocPassword :: string
  ocCols :: u16
  ocRows :: u16
  ocVlanID :: u16

text \<open>How the two copies of a session end: the context is done, or the first of them returns.\<close>

datatype pump_error = PumpErr err | PumpClosedPipe

datatype pump_end = PumpCtxDone | PumpReturned "pump_error option"

fun quiet_end :: "pump_error \<Rightarrow> bool" where
  "quiet_end PumpClosedPipe = True"
| "quiet_end (PumpErr e) = (errors_Is e EOF \<or> errors_Is e ErrClosed)"

record exec_env =
  eInput :: "read_result list"
  ePromptAnswer :: "err option"
  ePromptSel :: prompt_select
  eOpen :: "open_call \<Rightarrow> err option"
  eWinch :: "(u32 \<times> u32) list"
  ePump :: pump_end
  eListener :: "err + unit"
  eBcast :: "string \<Rightarrow> err bcast_error + (ip \<times> nat)"
  eStart :: int
  eOrder :: "mac list"
  eTurns :: "err mndp_turn list"
  eEncode :: "err option"
  eParseDuration :: "string \<Rightarrow> int option"

record outcome =
  xCode :: int
  xOut :: "written list"
  xErr :: "diag list"
  xOpen :: "open_call option"
  xInput :: "bufio option"
  xResized :: "(u16 \<times> u16) list"
  xClosed :: nat
  xSent :: "((ip \<times> nat) \<times> byte list) list"

definition exit_with :: "int \<Rightarrow> diag list \<Rightarrow> outcome" where
  "exit_with rc errs = \<lparr>xCode = rc, xOut = [], xErr = errs, xOpen = None, xInput = None,
     xResized = [], xClosed = 0, xSent = []\<rparr>"

definition out_text :: "string \<Rightarrow> written list" where
  "out_text w = (if w = [] then [] else [OText w])"

text \<open>A flag set that fails to parse says why, unless help was asked for, and prints its usage.\<close>

definition flag_diags :: "diag list \<Rightarrow> flag_error \<Rightarrow> diag list" where
  "flag_diags usage e = (if e = HelpRequested then [] else [FlagFailure e]) @ usage"

section \<open>mactelnet\<close>

definition mactelnet_flags :: "Config \<Rightarrow> flagset" where
  "mactelnet_flags cfg =
    [''u'' \<mapsto> FString [], ''p'' \<mapsto> FString [], ''i'' \<mapsto> FString (cfIface cfg), ''vlan'' \<mapsto> FUint (unat (cfVlanID cfg))]"

definition mactelnet_usage :: "Config \<Rightarrow> diag list" where
  "mactelnet_usage cfg =
    [Line ''usage: mactelnet -u USER [-p PASS] [-i IFACE] [-vlan VID] MAC'', FlagDefaults (mactelnet_flags cfg)]"

record mactelnet_request =
  mqUser :: string
  mqPass :: string
  mqIface :: string
  mqVlan :: nat
  mqMac :: string

definition mactelnet_request :: "Config \<Rightarrow> (string \<Rightarrow> int option) \<Rightarrow> string list \<Rightarrow> diag list + mactelnet_request" where
  "mactelnet_request cfg pd args =
    (case flag_Parse pd (mactelnet_flags cfg) args of
       Inl e \<Rightarrow> Inl (flag_diags (mactelnet_usage cfg) e)
     | Inr (fs, pos) \<Rightarrow>
         if get_string fs ''u'' = [] \<or> get_string fs ''i'' = [] \<or> length pos \<noteq> 1 then Inl (mactelnet_usage cfg)
         else if get_uint fs ''vlan'' > 4094 then
           Inl [Line ''mactelnet: -vlan must be in 1..4094 (or 0 for untagged)'']
         else Inr \<lparr>mqUser = get_string fs ''u'', mqPass = get_string fs ''p'', mqIface = get_string fs ''i'',
           mqVlan = get_uint fs ''vlan'', mqMac = hd pos\<rparr>)"

text \<open>The password: the flag, or the line read at the prompt; \<open>None\<close> while it is waited for.\<close>

definition mactelnet_password ::
    "exec_env \<Rightarrow> mactelnet_request \<Rightarrow> bufio \<Rightarrow> string \<times> (err + string \<times> bufio) option"
where
  "mactelnet_password env q chReader =
    (if mqPass q = [] then readPasswordPromptWithTimeout (ePromptSel env) (ePromptAnswer env) chReader
     else ([], Some (Inr (mqPass q, chReader))))"

definition mactelnet_open :: "mactelnet_request \<Rightarrow> string \<Rightarrow> u32 \<Rightarrow> u32 \<Rightarrow> open_call" where
  "mactelnet_open q password cols rows =
    \<lparr>ocIface = mqIface q, ocMac = mqMac q, ocUser = mqUser q, ocPassword = password,
     ocCols = ucast cols, ocRows = ucast rows, ocVlanID = of_nat (mqVlan q)\<rparr>"

definition pump_exit :: "pump_end \<Rightarrow> int \<times> diag list" where
  "pump_exit p =
    (case p of
       PumpCtxDone \<Rightarrow> (0, [])
     | PumpReturned None \<Rightarrow> (0, [])
     | PumpReturned (Some e) \<Rightarrow>
         if quiet_end e then (0, [])
         else (1, [LineErr ''mactelnet: '' (case e of PumpErr e \<Rightarrow> e | PumpClosedPipe \<Rightarrow> ErrClosed)]))"

text \<open>
  The resize goroutine: the window changes of \<open>eWinch\<close>, those received before the channel is
  closed or the context done, go to \<open>Session.Resize\<close>, whose error is dropped.
\<close>

definition forward_resizes :: "(u32 \<times> u32) list \<Rightarrow> (u16 \<times> u16) list" where
  "forward_resizes winch = map (\<lambda>(cols, rows). (ucast cols, ucast rows)) winch"

text \<open>The whole command; the session that \<open>Open\<close> gives is closed by the deferred call.\<close>

definition execMactelnet :: "Config \<Rightarrow> exec_env \<Rightarrow> string list \<Rightarrow> u32 \<Rightarrow> u32 \<Rightarrow> outcome option" where
  "execMactelnet cfg env args cols rows =
    (case mactelnet_request cfg (eParseDuration env) args of
       Inl errs \<Rightarrow> Some (exit_with 2 errs)
     | Inr q \<Rightarrow>
         (case mactelnet_password env q (NewReader (eInput env)) of
            (w, None) \<Rightarrow> None
          | (w, Some (Inl e)) \<Rightarrow>
              Some ((exit_with 1 [LineErr ''mactelnet: read password: '' e])\<lparr>xOut := out_text w\<rparr>)
          | (w, Some (Inr (password, chReader))) \<Rightarrow>
              let call = mactelnet_open q password cols rows in
              (case eOpen env call of
                 Some e \<Rightarrow> Some ((exit_with 1 [LineErr ''mactelnet: '' e])\<lparr>xOut := out_text w, xOpen := Some call\<rparr>)
               | None \<Rightarrow>
                   (case pump_exit (ePump env) of
                      (rc, errs) \<Rightarrow> Some ((exit_with rc errs)\<lparr>xOut := out_text w, xOpen := Some call,
                        xInput := Some chReader, xResized := forward_resizes (eWinch env), xClosed := 1\<rparr>)))))"

section \<open>mndp\<close>

definition mndp_flags :: "string \<Rightarrow> flagset" where
  "mndp_flags iface = [''t'' \<mapsto> FInt 5, ''i'' \<mapsto> FString iface, ''j'' \<mapsto> FBool False]"

definition mndp_usage :: "string \<Rightarrow> diag list" where
  "mndp_usage iface = [Line ''usage: mndp [-t SECONDS] [-i IFACE] [-j]'', FlagDefaults (mndp_flags iface)]"

text \<open>The table.  An uptime is a whole number of seconds, so its conversion to float is exact.\<close>

definition uptime_text :: "int \<Rightarrow> string" where
  "uptime_text uptime =
    (let secs = uptime div 1000000000
     in ''  up '' @ show_int (secs div 86400) @ '' days '' @ show_int (secs mod 86400 div 3600) @ '' hours'')"

definition mndp_header :: string where
  "mndp_header = pad_right 15 ''IP'' @ '' '' @ pad_right 17 ''MAC-Address'' @ '' '' @
     ''Identity (platform version hardware) uptime''"

definition mndp_row :: "Neighbor \<Rightarrow> string" where
  "mndp_row n =
    pad_right 15 (nIPv4 n) @ '' '' @ pad_right 17 (nMAC n) @ '' '' @ nIdentity n
    @ (if nPlatform n \<noteq> [] then '' ('' @ nPlatform n @ '' '' @ nVersion n @ '' '' @ nBoard n @ '')'' else [])
    @ (if nUptime n > 0 then uptime_text (nUptime n) else [])
    @ (if nSoftwareID n \<noteq> [] then ''  '' @ nSoftwareID n else [])
    @ (if nIface n \<noteq> [] then '' '' @ nIface n else [])
    @ [nl]"

definition mndp_table :: "Neighbor list \<Rightarrow> string" where
  "mndp_table ns = [nl] @ mndp_header @ [nl] @ concat (map mndp_row ns)"

text \<open>The JSON form of a neighbor, by the field tags of \<^verbatim>\<open>src/internal/mndp/types.go\<close>.\<close>

definition omit_empty :: "string \<Rightarrow> string \<Rightarrow> (string \<times> json) list" where
  "omit_empty name s = (if s = [] then [] else [(name, JStr s)])"

definition neighbor_json :: "Neighbor \<Rightarrow> json" where
  "neighbor_json n = JObj
    ([(''mac'', JStr (nMAC n))] @ omit_empty ''identity'' (nIdentity n) @ omit_empty ''platform'' (nPlatform n)
     @ omit_empty ''version'' (nVersion n) @ omit_empty ''board'' (nBoard n)
     @ omit_empty ''software_id'' (nSoftwareID n) @ omit_empty ''iface'' (nIface n)
     @ omit_empty ''ipv4'' (nIPv4 n) @ omit_empty ''ipv6'' (nIPv6 n)
     @ (if nUptime n = 0 then [] else [(''uptime'', JInt (nUptime n))])
     @ [(''seen_at'', JTime (nSeenAt n))])"

text \<open>\<^verbatim>\<open>time.Duration(*timeout)*time.Second\<close> is a product of 64-bit integers.\<close>

definition mndp_window :: "int \<Rightarrow> int" where
  "mndp_window t = wrap64 (t * 1000000000)"

definition execMndp :: "Config \<Rightarrow> exec_env \<Rightarrow> string list \<Rightarrow> outcome option" where
  "execMndp cfg env args =
    (case flag_Parse (eParseDuration env) (mndp_flags (cfIface cfg)) args of
       Inl e \<Rightarrow> Some (exit_with 2 (flag_diags (mndp_usage (cfIface cfg)) e))
     | Inr (fs, pos) \<Rightarrow>
         if get_int fs ''t'' \<le> 0 then Some (exit_with 2 [Line ''mndp: -t must be positive''])
         else
           let prelude = (if \<not> get_bool fs ''j'' then [Line ''Searching for MAC-Telnet devices... Abort with CTRL+C.''] else [])
           in (case Discover (eListener env) (eBcast env (get_string fs ''i'')) (eStart env)
                (mndp_window (get_int fs ''t'')) (eOrder env) (eTurns env) of
              None \<Rightarrow> None
            | Some (sent, Some e, ns) \<Rightarrow> Some ((exit_with 1 (prelude @ [LineDiscover ''mndp: '' e]))\<lparr>xSent := sent\<rparr>)
            | Some (sent, None, ns) \<Rightarrow>
                if get_bool fs ''j'' then
                  (case eEncode env of
                     Some e \<Rightarrow> Some ((exit_with 1 (prelude @ [LineErr ''mndp: encode: '' e]))\<lparr>xSent := sent\<rparr>)
                   | None \<Rightarrow> Some ((exit_with 0 prelude)\<lparr>xOut := [OJson (JList (map neighbor_json ns))], xSent := sent\<rparr>))
                else Some ((exit_with 0 prelude)\<lparr>xOut := [OText (mndp_table ns)], xSent := sent\<rparr>)))"

end
