(* ===== verification/Terminal_Output.thy ===== *)
theory Terminal_Output
  imports Commands System_Facts "HOL-Library.Sublist"
begin

text \<open>
  From the device to the screen: the pipe between the receive loop and the reader of a
  session, as \<^verbatim>\<open>io.Pipe\<close> works - a \<open>Write\<close> hands its bytes to the reads one after the other
  and returns when they are used up or the pipe is closed - and the copy loop that reads it.
  The stream \<open>sRxPipe\<close> of a session is the specification that this implements.
\<close>

section \<open>io.Pipe\<close>

text \<open>
  \<open>oBlocked\<close> is what the \<open>Write\<close> in progress still has to hand over.  \<open>oReads\<close> are the results
  of the reads so far.
\<close>

record out_state =
  oSess :: session
  oBlocked :: "byte list option"
  oReads :: "(pump_error + byte list) list"

definition readCloseError :: "session \<Rightarrow> pump_error" where
  "readCloseError s = (if \<not> sPipeRClosed s \<and> sPipeWClosed s then PumpErr EOF else PumpClosedPipe)"

text \<open>\<open>Session.Read\<close> with room for \<open>n\<close> bytes; \<open>None\<close> is a reader that waits.\<close>

definition Session_Read ::
    "session \<Rightarrow> byte list option \<Rightarrow> nat \<Rightarrow> ((pump_error + byte list) \<times> byte list option) option"
where
  "Session_Read s blocked n =
    (if sPipeWClosed s \<or> sPipeRClosed s then Some (Inl (readCloseError s), blocked)
     else case blocked of
       None \<Rightarrow> None
     | Some b \<Rightarrow> Some (Inr (take n b), if length b \<le> n then None else Some (drop n b)))"

text \<open>
  \<open>OWrite\<close> is a \<open>Write\<close> of the receive loop, \<open>OFail\<close> the loop's end, which is not in a \<open>Write\<close>
  then, \<open>OClose\<close> the owner's \<open>Close\<close>, which makes a blocked \<open>Write\<close> give up.
\<close>

datatype out_label = OWrite "byte list" | ORead nat | OFail "err option" | OClose "errno option"

definition out_next :: "out_state \<Rightarrow> out_label \<Rightarrow> out_state option" where
  "out_next q l =
    (let s = oSess q
     in case l of
          OWrite b \<Rightarrow>
            if sDone s \<or> oBlocked q \<noteq> None then None
            else if sPipeWClosed s \<or> sPipeRClosed s then Some q
            else Some (q\<lparr>oSess := rxPipeW_Write s b, oBlocked := Some b\<rparr>)
        | ORead n \<Rightarrow>
            map_option (\<lambda>(r, blocked). q\<lparr>oBlocked := blocked, oReads := oReads q @ [r]\<rparr>)
              (Session_Read s (oBlocked q) n)
        | OFail e \<Rightarrow>
            if sDone s \<or> oBlocked q \<noteq> None then None
            else Some (q\<lparr>oSess := rxLoop_exit (Session_fail s e)\<rparr>)
        | OClose answer \<Rightarrow>
            let s' = Session_Close s answer
            in Some (q\<lparr>oSess := s', oBlocked := (if sPipeWClosed s' then None else oBlocked q)\<rparr>))"

fun out_run :: "out_state \<Rightarrow> out_label list \<Rightarrow> out_state option" where
  "out_run q [] = Some q"
| "out_run q (l # ls) = (case out_next q l of None \<Rightarrow> None | Some q' \<Rightarrow> out_run q' ls)"

definition out_init :: "session \<Rightarrow> out_state" where
  "out_init s = \<lparr>oSess = s, oBlocked = None, oReads = []\<rparr>"

lemma out_run_snoc:
  "out_run q (ls @ [l]) = (case out_run q ls of None \<Rightarrow> None | Some q' \<Rightarrow> out_next q' l)"
  by (induction ls arbitrary: q) (auto split: option.splits)

section \<open>The copy to the client\<close>

text \<open>
  \<^verbatim>\<open>io.Copy(ch, sess)\<close> on the results of its reads: what it writes to the channel, and the
  error it returns, nil at the end of the output; \<open>None\<close> while it still reads.
\<close>

fun copy_out :: "(pump_error + byte list) list \<Rightarrow> byte list \<times> pump_error option option" where
  "copy_out [] = ([], None)"
| "copy_out (Inl e # rs) = ([], Some (if e = PumpErr EOF then None else Some e))"
| "copy_out (Inr b # rs) = (case copy_out rs of (w, r) \<Rightarrow> (b @ w, r))"

text \<open>What was written into the pipe, and what came out.\<close>

definition written :: "out_label list \<Rightarrow> byte list" where
  "written ls = concat (map (\<lambda>l. case l of OWrite b \<Rightarrow> b | _ \<Rightarrow> []) ls)"

definition read_bytes :: "(pump_error + byte list) list \<Rightarrow> byte list" where
  "read_bytes rs = concat (map (\<lambda>r. case r of Inr b \<Rightarrow> b | Inl e \<Rightarrow> []) rs)"

definition handing_over :: "out_state \<Rightarrow> byte list" where
  "handing_over q = (case oBlocked q of None \<Rightarrow> [] | Some b \<Rightarrow> b)"

definition closes :: "out_label \<Rightarrow> bool" where
  "closes l = (case l of OClose answer \<Rightarrow> True | _ \<Rightarrow> False)"

lemma written_simps [simp]:
  "written [] = []" "written (ls @ [l]) = written ls @ (case l of OWrite b \<Rightarrow> b | _ \<Rightarrow> [])"
  by (simp_all add: written_def)

lemma read_bytes_simps [simp]:
  "read_bytes [] = []" "read_bytes (rs @ [r]) = read_bytes rs @ (case r of Inr b \<Rightarrow> b | Inl e \<Rightarrow> [])"
  by (simp_all add: read_bytes_def)

lemma pipes_after:
  "sPipeWClosed (rxLoop_exit s)" "sPipeRClosed (rxLoop_exit s) = sPipeRClosed s" "sRxPipe (rxLoop_exit s) = sRxPipe s"
  "sPipeRClosed (Session_fail s e) = sPipeRClosed s"
  by (auto simp: rxLoop_exit_def rxPipeW_Close_def Session_fail_def Let_def ctx_cancel_def conn_Close_def
      sender_Close_def split: option.splits)

lemma pipe_after_Close: "\<not> sClosed s \<Longrightarrow> sPipeWClosed (Session_Close s answer) \<and> sPipeRClosed (Session_Close s answer)"
  by (simp add: Session_Close_def Let_def rxPipeW_Close_def rxPipeR_Close_def)

section \<open>The pipe implements the stream\<close>

text \<open>
  What was read and is being handed over are the stream, but for what a blocked \<open>Write\<close> gave
  up when the owner closed the session; all that was written is in the stream until then.
\<close>

definition out_inv :: "out_label list \<Rightarrow> out_state \<Rightarrow> bool" where
  "out_inv ls q \<longleftrightarrow>
     (\<exists>lost. sRxPipe (oSess q) = read_bytes (oReads q) @ handing_over q @ lost \<and> (lost \<noteq> [] \<longrightarrow> sPipeWClosed (oSess q) \<and> list_ex closes ls))
     \<and> (oBlocked q \<noteq> None \<longrightarrow> \<not> sPipeWClosed (oSess q))
     \<and> (sClosed (oSess q) \<longrightarrow> sPipeWClosed (oSess q))
     \<and> (sPipeRClosed (oSess q) \<longrightarrow> sPipeWClosed (oSess q) \<and> list_ex closes ls)
     \<and> (\<exists>more. written ls = sRxPipe (oSess q) @ more \<and> (more \<noteq> [] \<longrightarrow> sPipeWClosed (oSess q) \<and> list_ex closes ls))
     \<and> (sPipeWClosed (oSess q) \<longrightarrow> sDone (oSess q) \<or> list_ex closes ls)
     \<and> (\<forall>e. Inl e \<in> set (oReads q) \<longrightarrow> sPipeWClosed (oSess q))"

lemma out_inv_init:
  "sRxPipe s = [] \<Longrightarrow> \<not> sClosed s \<Longrightarrow> \<not> sPipeWClosed s \<Longrightarrow> \<not> sPipeRClosed s \<Longrightarrow> out_inv [] (out_init s)"
  by (simp add: out_inv_def out_init_def handing_over_def)

lemma out_inv_write:
  assumes "out_inv ls q" and "out_next q (OWrite b) = Some q'"
  shows "out_inv (ls @ [OWrite b]) q'"
proof (cases "sPipeWClosed (oSess q) \<or> sPipeRClosed (oSess q)")
  case True
  then have "q' = q" "\<not> sDone (oSess q)"
    using assms(2) by (auto simp: out_next_def Let_def split: if_splits)
  then show ?thesis using assms(1) True unfolding out_inv_def by (auto simp: closes_def)
next
  case False
  then have q': "q' = q\<lparr>oSess := rxPipeW_Write (oSess q) b, oBlocked := Some b\<rparr>" and "oBlocked q = None"
    using assms(2) by (auto simp: out_next_def Let_def split: if_splits)
  then show ?thesis using assms(1) False
    unfolding out_inv_def by (auto simp: rxPipeW_Write_def handing_over_def closes_def)
qed

lemma out_inv_read:
  assumes "out_inv ls q" and "out_next q (ORead n) = Some q'"
  shows "out_inv (ls @ [ORead n]) q'"
proof (cases "sPipeWClosed (oSess q) \<or> sPipeRClosed (oSess q)")
  case True
  then have "q' = q\<lparr>oReads := oReads q @ [Inl (readCloseError (oSess q))]\<rparr>"
    using assms(2) by (auto simp: out_next_def Let_def Session_Read_def)
  then show ?thesis using assms(1) True unfolding out_inv_def by (auto simp: closes_def handing_over_def)
next
  case False
  then obtain b where b: "oBlocked q = Some b"
    and q': "q' = q\<lparr>oBlocked := (if length b \<le> n then None else Some (drop n b)), oReads := oReads q @ [Inr (take n b)]\<rparr>"
    using assms(2) by (auto simp: out_next_def Let_def Session_Read_def split: option.splits)
  then have "handing_over q = take n b @ handing_over q'" by (simp add: handing_over_def)
  then show ?thesis using assms(1) b False unfolding out_inv_def q' by (auto simp: closes_def)
qed

lemma out_inv_fail:
  assumes "out_inv ls q" and "out_next q (OFail e) = Some q'"
  shows "out_inv (ls @ [OFail e]) q'"
proof -
  let ?s = "rxLoop_exit (Session_fail (oSess q) e)"
  have q': "q' = q\<lparr>oSess := ?s\<rparr>" and b: "oBlocked q = None"
    using assms(2) by (auto simp: out_next_def Let_def split: if_splits)
  have "sPipeWClosed ?s" "sRxPipe ?s = sRxPipe (oSess q)" "sPipeRClosed ?s = sPipeRClosed (oSess q)" "sDone ?s"
    by (simp_all add: pipes_after Session_fail_fields)
  then show ?thesis using assms(1) b
    unfolding out_inv_def q' by (simp add: handing_over_def closes_def) blast
qed

lemma out_inv_close:
  assumes "out_inv ls q" and "out_next q (OClose answer) = Some q'"
  shows "out_inv (ls @ [OClose answer]) q'"
proof -
  let ?s = "Session_Close (oSess q) answer"
  have w: "sPipeWClosed ?s"
    using assms(1) pipe_after_Close [of "oSess q" answer]
    by (cases "sClosed (oSess q)") (auto simp: out_inv_def Session_Close_def)
  then have q': "q' = q\<lparr>oSess := ?s, oBlocked := None\<rparr>"
    using assms(2) by (auto simp: out_next_def Let_def)
  obtain lost where "sRxPipe (oSess q) = read_bytes (oReads q) @ handing_over q @ lost"
    using assms(1) unfolding out_inv_def by blast
  then show ?thesis using assms(1) w
    unfolding out_inv_def q' by (auto simp: Session_Close_fields handing_over_def closes_def)
qed

lemma out_inv_run: "out_inv [] q0 \<Longrightarrow> out_run q0 ls = Some q \<Longrightarrow> out_inv ls q"
proof (induction ls arbitrary: q rule: rev_induct)
  case (snoc l ls)
  then obtain q1 where "out_inv ls q1" "out_next q1 l = Some q" by (auto simp: out_run_snoc split: option.splits)
  then show ?case by (cases l) (auto intro: out_inv_write out_inv_read out_inv_fail out_inv_close)
qed simp

section \<open>Properties\<close>

lemma copy_out_reads:
  "\<forall>e. Inl e \<notin> set rs \<Longrightarrow> copy_out (rs @ [Inl (PumpErr EOF)]) = (read_bytes rs, Some None)"
  by (induction rs) (auto simp: read_bytes_def split: sum.splits)

text \<open>
  C9.  What the reads of a session return is the terminal output in order: a first part of
  the bytes that the receive loop wrote into the pipe, all of them but those of the \<open>Write\<close> in
  progress as long as the owner does not close the session.  When the receive loop ends by
  itself, nothing is lost: the read that reports the end of the output comes after all of it,
  and it is the same end for whatever error the loop ended with.
\<close>

theorem terminal_output_delivered:
  assumes "out_run (out_init s) ls = Some q"
    and "sRxPipe s = []" and "\<not> sClosed s" and "\<not> sPipeWClosed s" and "\<not> sPipeRClosed s"
  shows "prefix (read_bytes (oReads q)) (written ls)
    \<and> (\<not> list_ex closes ls \<longrightarrow> written ls = read_bytes (oReads q) @ handing_over q)
    \<and> (\<not> list_ex closes ls \<and> out_next q (OFail e) = Some q' \<longrightarrow>
         read_bytes (oReads q') = written ls
         \<and> Session_Read (oSess q') (oBlocked q') n = Some (Inl (PumpErr EOF), None)
         \<and> copy_out (oReads q' @ [Inl (PumpErr EOF)]) = (written ls, Some None)
         \<and> pump_exit (PumpReturned None) = (0, []))"
proof -
  have inv: "out_inv ls q" by (rule out_inv_run [OF out_inv_init assms(1)]) (rule assms)+
  have all: "written ls = read_bytes (oReads q) @ handing_over q" if "\<not> list_ex closes ls"
    using inv that unfolding out_inv_def by auto
  moreover have "prefix (read_bytes (oReads q)) (written ls)"
    using inv unfolding out_inv_def by auto
  moreover have "read_bytes (oReads q') = written ls
       \<and> Session_Read (oSess q') (oBlocked q') n = Some (Inl (PumpErr EOF), None)
       \<and> copy_out (oReads q' @ [Inl (PumpErr EOF)]) = (written ls, Some None)
       \<and> pump_exit (PumpReturned None) = (0, [])"
    if "\<not> list_ex closes ls" and "out_next q (OFail e) = Some q'"
  proof -
    have q': "q' = q\<lparr>oSess := rxLoop_exit (Session_fail (oSess q) e)\<rparr>" and b: "oBlocked q = None" "\<not> sDone (oSess q)"
      using that(2) by (auto simp: out_next_def Let_def split: if_splits)
    then have "\<forall>e. Inl e \<notin> set (oReads q)" using inv that(1) unfolding out_inv_def by blast
    note copied = copy_out_reads [OF this]
    have "\<not> sPipeRClosed (oSess q)" using inv that(1) unfolding out_inv_def by blast
    then show ?thesis using all [OF that(1)] b
      by (simp add: q' handing_over_def Session_Read_def pipes_after readCloseError_def copied pump_exit_def)
  qed
  ultimately show ?thesis by blast
qed

theorem terminal_output_delivered_witness:
  "\<exists>q q'. out_run (out_init sample_session) [OWrite [104, 105, 33], ORead 2, ORead 80] = Some q
    \<and> out_next q (OFail (Some (Errno 100))) = Some q'
    \<and> copy_out (oReads q' @ [Inl (PumpErr EOF)]) = ([104, 105, 33], Some None)"
proof -
  have s: "sRxPipe sample_session = []" "\<not> sClosed sample_session" "\<not> sPipeWClosed sample_session"
      "\<not> sPipeRClosed sample_session" "\<not> sDone sample_session"
    by (simp_all add: sample_session_def new_session_def)
  let ?s = "sample_session\<lparr>sRxPipe := [104, 105, 33]\<rparr>" and ?ls = "[OWrite [104, 105, 33], ORead 2, ORead 80]"
  define q where "q = \<lparr>oSess = ?s, oBlocked = None, oReads = [Inr [104, 105], Inr [33]]\<rparr>"
  have run: "out_run (out_init sample_session) ?ls = Some q"
    using s by (simp add: q_def out_init_def out_next_def Session_Read_def rxPipeW_Write_def)
  obtain q' where q': "out_next q (OFail (Some (Errno 100))) = Some q'"
    using s by (simp add: q_def out_next_def)
  have "\<not> list_ex closes ?ls" by (simp add: closes_def)
  then have "copy_out (oReads q' @ [Inl (PumpErr EOF)]) = (written ?ls, Some None)"
    using terminal_output_delivered [OF run s(1-4)] q' by blast
  then show ?thesis using run q' by (intro exI [of _ q] exI [of _ q']) (simp add: written_def)
qed

end
