(* ===== verification/Terminal_Pump.thy ===== *)
theory Terminal_Pump
  imports Terminal_Input Terminal_Output
begin

text \<open>
  \<^verbatim>\<open>src/internal/sshserver/exec.go\<close>, the end of \<open>execMactelnet\<close>: the two copies of a session
  run side by side, and the command ends with the first of them that returns, or with its
  context.  What can make the command fail, and with which message.
\<close>

section \<open>The select\<close>

text \<open>
  The copies send what they return to a channel with room for both, so that the first one to
  return is the first received.  \<open>PumpOn\<close> says which case is taken; \<open>None\<close> is one that is not
  ready.
\<close>

datatype pump_case = OnContext | OnInput | OnOutput

definition pump_select ::
    "pump_case \<Rightarrow> bool \<Rightarrow> err option option \<Rightarrow> pump_error option option \<Rightarrow> pump_end option" where
  "pump_select c ctx_done in_res out_res =
    (case c of
       OnContext \<Rightarrow> (if ctx_done then Some PumpCtxDone else None)
     | OnInput \<Rightarrow> map_option (\<lambda>err. PumpReturned (map_option PumpErr err)) in_res
     | OnOutput \<Rightarrow> map_option PumpReturned out_res)"

section \<open>How the copies can end\<close>









section \<open>Properties\<close>



text \<open>
  C23.  The device's END, read while a write waits for its acknowledgement, ends the command
  in two ways.  It cancels the session's context and closes the pipe: the copy of the output
  returns nil, which is exit status 0, and the write returns \<^verbatim>\<open>context.Canceled\<close>, which is not
  among the quiet errors and is exit status 1 with the message \<^verbatim>\<open>mactelnet: context canceled\<close>;
  which of the copies returns first decides.
\<close>

theorem end_during_write:
  assumes "\<not> sClosed s" and "sCtxErr s = None" and "\<not> sPipeRClosed s"
    and "copied r = p # ps" and "p \<noteq> []" and "length p \<le> 1469"
    and "schedule_for cfg s = d # ds" and "now < start + d"
  shows "sCtxErr (Session_fail s (Some EOF)) = Some Canceled
    \<and> Session_Read (Session_fail s (Some EOF)) None n = Some (Inl (PumpErr EOF), None)
    \<and> (\<exists>s'. io_Copy cfg s r ((None, [(start, [(now, CtxDone Canceled)], a)]) # env) = Some (Some Canceled, s'))
    \<and> map_option pump_exit (pump_select OnInput False (Some (Some Canceled)) (snd (copy_out [Inl (PumpErr EOF)])))
        = Some (1, [LineErr ''mactelnet: '' Canceled])
    \<and> map_option pump_exit (pump_select OnOutput False (Some (Some Canceled)) (snd (copy_out [Inl (PumpErr EOF)])))
        = Some (0, [])"
proof (intro conjI)
  let ?atts = "[(start, [(now, CtxDone Canceled)], a)]"
  obtain e s1 where "sendDataAndWaitAck cfg s p None ?atts =
      (if None = (None :: errno option) then retransmit_loop s1 (data_datagram s p) (ctOut (sCounters s) + of_nat (length p))
         (schedule_for cfg s) ?atts else Some (map_option Errno None, s1))"
    using sendDataAndWaitAck_first [of s p None cfg ?atts] by metis
  then have "sendDataAndWaitAck cfg s p None ?atts = Some (Some Canceled, s1)"
    using assms(7,8) by (simp add: Let_def)
  then have "write_in cfg s p (None, ?atts) = Some (Inl Canceled, s1)"
    using Session_Write_sends [of s p] assms(1,5,6) by (simp add: write_in_def)
  then show "\<exists>s'. io_Copy cfg s r ((None, ?atts) # env) = Some (Some Canceled, s')"
    by (simp add: io_Copy_def copy_writes_def assms(4))
  show "sCtxErr (Session_fail s (Some EOF)) = Some Canceled"
    using assms(1,2) by (simp add: Session_fail_def Let_def ctx_cancel_def conn_Close_def sender_Close_def rxPipeW_Close_def
        split: option.splits)
  show "Session_Read (Session_fail s (Some EOF)) None n = Some (Inl (PumpErr EOF), None)"
    using assms(1,3) by (simp add: Session_fail_def Let_def ctx_cancel_def conn_Close_def sender_Close_def rxPipeW_Close_def
        Session_Read_def readCloseError_def split: option.splits)
qed (simp_all add: pump_select_def pump_exit_def)

theorem end_during_write_witness:
  "\<exists>s'. io_Copy sample_cfg sample_session (NewReader [Data [1, 2, 3]]) [(None, [(0, [(1, CtxDone Canceled)], None)])]
    = Some (Some Canceled, s')"
proof -
  have s: "\<not> sClosed sample_session" "sCtxErr sample_session = None" "\<not> sPipeRClosed sample_session"
    by (simp_all add: sample_session_def new_session_def)
  have c: "copied (NewReader [Data [1, 2, 3]]) = [[1, 2, 3]]" by (simp add: copied_def NewReader_def refills.simps)
  have d: "schedule_for sample_cfg sample_session = 15 * millisecond # tl upstreamRamp"
    by (simp add: sample_schedule upstreamRamp_def)
  have t: "1 < 0 + 15 * millisecond" by (simp add: millisecond_def)
  show ?thesis
    using end_during_write [OF s c _ _ d t] by auto
qed

end
