(* ===== verification/Ifaces.thy ===== *)
theory Ifaces
  imports Commands Paths
begin

text \<open>
  \<^verbatim>\<open>src/internal/sshserver/ifaces.go\<close>: the exec command \<^verbatim>\<open>ifaces\<close>.  What the kernel tells
  (\<^verbatim>\<open>net.Interfaces\<close>, the addresses of an interface, files and links under \<^verbatim>\<open>/sys\<close> and
  \<^verbatim>\<open>/proc\<close>) is an argument; reading, classifying, sorting and printing it is modelled.
\<close>

section \<open>What is asked of the kernel\<close>

record net_if =
  nfName :: string
  nfIndex :: int
  nfMTU :: int
  nfFlags :: u32
  nfHardwareAddr :: "byte list"
  nfAddrs :: "iface_addr list option"

record kernel =
  kReadFile :: "string \<Rightarrow> string option"
  kStat :: "string \<Rightarrow> bool"
  kReadlink :: "string \<Rightarrow> string option"
  kInterfaces :: "err + net_if list"

definition FlagLoopback :: u32 where "FlagLoopback = 4"
definition FlagPointToPoint :: u32 where "FlagPointToPoint = 8"

text \<open>\<^verbatim>\<open>net.Flags.String\<close>, \<^verbatim>\<open>net.HardwareAddr.String\<close> and \<^verbatim>\<open>net.IPNet.String\<close>.\<close>

definition Flags_String :: "u32 \<Rightarrow> string" where
  "Flags_String f =
    (let names = [''up'', ''broadcast'', ''loopback'', ''pointtopoint'', ''multicast'', ''running''];
         on = map snd (filter (\<lambda>(i, s). bit f i) (enumerate 0 names))
     in if on = [] then ''0'' else Join on ''|'')"

definition HardwareAddr_String :: "byte list \<Rightarrow> string" where
  "HardwareAddr_String a = Join (map hex2 a) '':''"

definition byte_bits :: "byte \<Rightarrow> bool list" where
  "byte_bits b = map (\<lambda>i. bit b (7 - i)) [0..<8]"

definition simpleMaskLength :: "byte list \<Rightarrow> nat option" where
  "simpleMaskLength m =
    (let bits = concat (map byte_bits m); n = length (takeWhile id bits)
     in if True \<in> set (drop n bits) then None else Some n)"

definition IPNet_String :: "ip \<Rightarrow> byte list \<Rightarrow> string" where
  "IPNet_String ip m =
    (let nn = (case To4 ip of Some ip4 \<Rightarrow> Some ip4 | None \<Rightarrow> if length ip = 16 then Some ip else None);
         mask = (case nn of
             None \<Rightarrow> None
           | Some n \<Rightarrow> if length m = length n then Some m
               else if length m = 16 \<and> length n = 4 then Some (drop 12 m) else None)
     in case (nn, mask) of
          (Some n, Some k) \<Rightarrow>
            ip_text n @ ''/'' @ (case simpleMaskLength k of
              Some l \<Rightarrow> decimal l | None \<Rightarrow> concat (map hex2 k))
        | _ \<Rightarrow> ''<nil>'')"

section \<open>One interface\<close>

record ifaceInfo =
  ifName :: string
  ifIndex :: int
  ifMAC :: string
  ifMTU :: int
  ifFlags :: string
  ifKind :: string
  ifParent :: string
  ifVID :: int
  ifMaster :: string
  ifOper :: string
  ifIPv4 :: "string list"
  ifIPv6 :: "string list"

definition sys_path :: "string \<Rightarrow> string \<Rightarrow> string" where
  "sys_path name file = Clean (''/sys/class/net'' @ ''/'' @ name @ ''/'' @ file)"

definition readSysNet :: "kernel \<Rightarrow> string \<Rightarrow> string \<Rightarrow> string" where
  "readSysNet k name file = (case kReadFile k (sys_path name file) of None \<Rightarrow> [] | Some b \<Rightarrow> TrimSpace b)"

fun first_devtype :: "string list \<Rightarrow> string option" where
  "first_devtype [] = None"
| "first_devtype (line # ls) =
    (case CutPrefix line ''DEVTYPE='' of Some v \<Rightarrow> Some v | None \<Rightarrow> first_devtype ls)"

definition readKind :: "kernel \<Rightarrow> net_if \<Rightarrow> string" where
  "readKind k i =
    (if nfFlags i AND FlagLoopback \<noteq> 0 then ''loopback''
     else case first_devtype (Split (readSysNet k (nfName i) ''uevent'') nl) of
       Some v \<Rightarrow> v
     | None \<Rightarrow>
         if kStat k (sys_path (nfName i) ''wireless'') then ''wireless''
         else if nfFlags i AND FlagPointToPoint \<noteq> 0 then ''ptp''
         else ''ether'')"

definition readMaster :: "kernel \<Rightarrow> string \<Rightarrow> string" where
  "readMaster k name =
    (case kReadlink k (sys_path name ''master'') of None \<Rightarrow> [] | Some target \<Rightarrow> path_Base target)"

text \<open>The fields of a line: the first number after a \<^verbatim>\<open>VID:\<close>, unless there is one already.\<close>

fun vlan_fields :: "string list \<Rightarrow> int \<Rightarrow> int" where
  "vlan_fields (f # g # rest) vid =
    vlan_fields (g # rest)
      (if f = ''VID:'' then (case Atoi g of Inr v \<Rightarrow> if vid = 0 then v else vid | Inl e \<Rightarrow> vid) else vid)"
| "vlan_fields _ vid = vid"

definition vlan_line :: "string \<Rightarrow> string \<times> int \<Rightarrow> string \<times> int" where
  "vlan_line line = (\<lambda>(parent, vid).
    (if HasPrefix (TrimSpace line) ''Device:'' then TrimSpace (TrimPrefix (TrimSpace line) ''Device:'') else parent,
     vlan_fields (Fields line) vid))"

definition readVLAN :: "kernel \<Rightarrow> string \<Rightarrow> string \<times> int" where
  "readVLAN k name =
    (case kReadFile k (path_join ''/proc/net/vlan'' name) of
       None \<Rightarrow> ([], 0)
     | Some b \<Rightarrow> fold vlan_line (Split b nl) ([], 0))"

definition readOper :: "kernel \<Rightarrow> string \<Rightarrow> string" where
  "readOper k name =
    (let op = readSysNet k name ''operstate''; carrier = readSysNet k name ''carrier''
     in if op = ''up'' \<and> carrier = ''0'' then ''no-carrier'' else op)"

definition add_addr :: "iface_addr \<Rightarrow> ifaceInfo \<Rightarrow> ifaceInfo" where
  "add_addr a info =
    (case a of
       OtherAddr \<Rightarrow> info
     | IPNet ip m \<Rightarrow>
         if To4 ip \<noteq> None then info\<lparr>ifIPv4 := ifIPv4 info @ [IPNet_String ip m]\<rparr>
         else info\<lparr>ifIPv6 := ifIPv6 info @ [IPNet_String ip m]\<rparr>)"

definition summarize :: "kernel \<Rightarrow> net_if \<Rightarrow> ifaceInfo" where
  "summarize k i =
    (let kind = readKind k i;
         (parent, vid) = (if kind = ''vlan'' then readVLAN k (nfName i) else ([], 0));
         info = \<lparr>ifName = nfName i, ifIndex = nfIndex i,
           ifMAC = (if length (nfHardwareAddr i) > 0 then HardwareAddr_String (nfHardwareAddr i) else []),
           ifMTU = nfMTU i, ifFlags = Flags_String (nfFlags i), ifKind = kind, ifParent = parent, ifVID = vid,
           ifMaster = readMaster k (nfName i), ifOper = readOper k (nfName i), ifIPv4 = [], ifIPv6 = []\<rparr>
     in case nfAddrs i of None \<Rightarrow> info | Some addrs \<Rightarrow> fold add_addr addrs info)"

section \<open>The table\<close>

definition metaLine :: "ifaceInfo \<Rightarrow> string" where
  "metaLine r =
    Join ((if ifKind r \<noteq> [] then [''kind='' @ ifKind r] else [])
      @ (if ifParent r \<noteq> [] then [''parent='' @ ifParent r] else [])
      @ (if ifVID r \<noteq> 0 then [''vid='' @ show_int (ifVID r)] else [])
      @ (if ifMaster r \<noteq> [] then [''master='' @ ifMaster r] else [])
      @ (if ifOper r \<noteq> [] then [''oper='' @ ifOper r] else [])) ''  ''"

definition widths :: "ifaceInfo list \<Rightarrow> nat \<times> nat \<times> nat" where
  "widths rows =
    (fold (\<lambda>r w. max w (length (ifName r))) rows (length ''NAME''),
     fold (\<lambda>r w. max w (length (ifMAC r))) rows (length ''MAC''),
     fold (\<lambda>r w. max w (length (show_int (ifMTU r)))) rows (length ''MTU''))"

definition iface_header :: "nat \<times> nat \<times> nat \<Rightarrow> string" where
  "iface_header = (\<lambda>(nameW, macW, mtuW).
    pad_right nameW ''NAME'' @ ''  '' @ pad_left 3 ''IDX'' @ ''  '' @ pad_right macW ''MAC'' @ ''  '' @
    pad_left mtuW ''MTU'' @ ''  '' @ ''FLAGS / ADDRS'')"

definition iface_line :: "nat \<times> nat \<times> nat \<Rightarrow> ifaceInfo \<Rightarrow> string" where
  "iface_line = (\<lambda>(nameW, macW, mtuW) r.
    pad_right nameW (ifName r) @ ''  '' @ pad_left 3 (show_int (ifIndex r)) @ ''  '' @
    pad_right macW (if ifMAC r = [] then ''-'' else ifMAC r) @ ''  '' @ pad_left mtuW (show_int (ifMTU r)) @ ''  '' @
    ifFlags r @ [nl])"

definition more_line :: "nat \<times> nat \<times> nat \<Rightarrow> string \<Rightarrow> string" where
  "more_line = (\<lambda>(nameW, macW, mtuW) text.
    pad_right nameW [] @ ''        '' @ pad_right macW [] @ ''  '' @ pad_left mtuW [] @ ''    '' @ text @ [nl])"

definition iface_rows :: "nat \<times> nat \<times> nat \<Rightarrow> ifaceInfo \<Rightarrow> string" where
  "iface_rows w r =
    iface_line w r @ (if metaLine r \<noteq> [] then more_line w (metaLine r) else [])
    @ concat (map (more_line w) (ifIPv4 r)) @ concat (map (more_line w) (ifIPv6 r))"

definition writeIfaceTable :: "ifaceInfo list \<Rightarrow> string" where
  "writeIfaceTable rows =
    (let w = widths rows; header = iface_header w
     in header @ [nl] @ replicate (length header) CHR ''-'' @ [nl] @ concat (map (iface_rows w) rows))"

definition iface_json :: "ifaceInfo \<Rightarrow> json" where
  "iface_json r = JObj
    ([(''name'', JStr (ifName r)), (''index'', JInt (ifIndex r))] @ omit_empty ''mac'' (ifMAC r)
     @ [(''mtu'', JInt (ifMTU r)), (''flags'', JStr (ifFlags r))] @ omit_empty ''kind'' (ifKind r)
     @ omit_empty ''parent'' (ifParent r) @ (if ifVID r = 0 then [] else [(''vid'', JInt (ifVID r))])
     @ omit_empty ''master'' (ifMaster r) @ omit_empty ''oper'' (ifOper r)
     @ (if ifIPv4 r = [] then [] else [(''ipv4'', JList (map JStr (ifIPv4 r)))])
     @ (if ifIPv6 r = [] then [] else [(''ipv6'', JList (map JStr (ifIPv6 r)))]))"

section \<open>The command\<close>

definition ifaces_flags :: flagset where
  "ifaces_flags = [''j'' \<mapsto> FBool False, ''i'' \<mapsto> FString []]"

definition ifaces_usage :: "diag list" where
  "ifaces_usage = [Line ''usage: ifaces [-j] [-i NAME]'', FlagDefaults ifaces_flags]"

text \<open>The interfaces asked for, by index; \<^verbatim>\<open>sort.Slice\<close> on the kernel's distinct indices.\<close>

definition ifaces_listed :: "kernel \<Rightarrow> string \<Rightarrow> net_if list \<Rightarrow> ifaceInfo list" where
  "ifaces_listed k only all_ifs =
    sort_key ifIndex (map (summarize k) (filter (\<lambda>i. only = [] \<or> nfName i = only) all_ifs))"

definition execIfaces :: "kernel \<Rightarrow> exec_env \<Rightarrow> string list \<Rightarrow> outcome" where
  "execIfaces k env args =
    (case flag_Parse (eParseDuration env) ifaces_flags args of
       Inl e \<Rightarrow> exit_with 2 (flag_diags ifaces_usage e)
     | Inr (fs, pos) \<Rightarrow>
         (case kInterfaces k of
            Inl e \<Rightarrow> exit_with 1 [LineErr ''ifaces: '' e]
          | Inr all_ifs \<Rightarrow>
              let only = get_string fs ''i''; out = ifaces_listed k only all_ifs
              in if only \<noteq> [] \<and> length out = 0 then
                   exit_with 1 [LineQuoted ''ifaces: interface '' only '' not found'']
                 else if get_bool fs ''j'' then
                   (case eEncode env of
                      Some e \<Rightarrow> exit_with 1 [LineErr ''ifaces: encode: '' e]
                    | None \<Rightarrow> (exit_with 0 [])\<lparr>xOut := [OJson (JList (map iface_json out))]\<rparr>)
                 else (exit_with 0 [])\<lparr>xOut := [OText (writeIfaceTable out)]\<rparr>))"

section \<open>VLAN files\<close>

lemma code_colon_letters: "code CHR ''V'' = 86" "code CHR ''I'' = 73" "code CHR ''D'' = 68" "code CHR '':'' = 58"
  by (simp_all add: code_def)

lemma word_VID: "word_text ''VID:''"
  by (simp add: word_text_def code_colon_letters IsSpace_def)

lemma word_decimal: "word_text (decimal n)"
proof -
  have "code c < 128 \<and> \<not> IsSpace (code c)" if "c \<in> set (decimal n)" for c
    using decimal_digits [of n] that by (fastforce simp: IsSpace_def)
  then show ?thesis by (simp add: word_text_def)
qed

lemma word_ascii: "word_text w \<Longrightarrow> ascii w"
  by (simp add: word_text_def ascii_def)

lemma spaces: "IsSpace 32" "IsSpace 9" by (simp_all add: IsSpace_def)

lemma vlan_fields_keep: "vid \<noteq> 0 \<Longrightarrow> vlan_fields fs vid = vid"
proof (induction fs vid rule: vlan_fields.induct)
  case (1 f g rest vid)
  let ?vid = "if f = ''VID:'' then (case Atoi g of Inr v \<Rightarrow> if vid = 0 then v else vid | Inl e \<Rightarrow> vid) else vid"
  have same: "?vid = vid" using 1(2) by (simp split: sum.split)
  have "vlan_fields (g # rest) ?vid = ?vid" by (rule 1(1)) (simp add: 1(2) split: sum.split)
  then show ?case by (simp only: vlan_fields.simps same)
qed simp_all

text \<open>The two lines of such a file that matter, as the kernel writes them.\<close>

definition vid_line :: "string \<Rightarrow> nat \<Rightarrow> string \<Rightarrow> string" where
  "vid_line name vid rest = name @ ''  VID: '' @ decimal vid @ CHR 0x09 # rest"

definition device_line :: "string \<Rightarrow> string" where
  "device_line parent = ''Device: '' @ parent"

lemma Fields_vlan_line:
  assumes "word_text name"
  shows "Fields (vid_line name vid rest) = name # ''VID:'' # decimal vid # Fields rest"
proof -
  have 3: "Fields (decimal vid @ CHR 0x09 # rest) = decimal vid # Fields rest"
    by (rule Fields_word) (simp_all add: word_decimal spaces)
  have 2: "Fields (''VID:'' @ CHR '' '' # s) = ''VID:'' # Fields s" for s
    by (rule Fields_word) (simp_all add: word_VID spaces)
  have 1: "Fields (CHR '' '' # s) = Fields s" for s
    by (rule Fields_space) (simp_all add: spaces)
  have 0: "Fields (name @ CHR '' '' # s) = name # Fields s" for s
    by (rule Fields_word) (simp_all add: assms spaces)
  have "vid_line name vid rest = name @ CHR '' '' # CHR '' '' # ''VID:'' @ CHR '' '' # decimal vid @ CHR 0x09 # rest"
    by (simp add: vid_line_def)
  then show ?thesis by (simp only: 0 1 2 3)
qed

lemma vlan_fields_first:
  assumes "0 < vid" and "vid < 2 ^ 63"
  shows "vlan_fields (name # ''VID:'' # decimal vid # others) 0 = int vid"
proof -
  have "Atoi ''VID:'' = Inl SyntaxError"
    by (simp add: Atoi_def ParseInt_def ParseUint_def digit_value_def is_digit_def lower_def code_colon_letters)
  moreover have "Atoi (decimal vid) = Inr (int vid)" using assms(2) by (rule Atoi_decimal)
  ultimately show ?thesis using assms(1) vlan_fields_keep [of "int vid"] by simp
qed

lemma vlan_lines_keep:
  "vid \<noteq> 0 \<Longrightarrow> \<forall>l \<in> set ls. \<not> HasPrefix (TrimSpace l) ''Device:'' \<Longrightarrow> fold vlan_line ls (parent, vid) = (parent, vid)"
  by (induction ls) (simp_all add: vlan_line_def vlan_fields_keep)

lemma vlan_lines_vid: "vid \<noteq> 0 \<Longrightarrow> snd (fold vlan_line ls (parent, vid)) = vid"
  by (induction ls arbitrary: parent) (simp_all add: vlan_line_def vlan_fields_keep)

lemma vlan_device:
  assumes "word_text parent"
  shows "vlan_line (device_line parent) (p, vid) = (parent, vlan_fields (Fields (device_line parent)) vid)"
proof -
  have ns: "\<not> IsSpace (code (hd parent))" "\<not> IsSpace (code (last parent))" "parent \<noteq> []" "ascii parent"
    using assms by (auto simp: word_text_def ascii_def)
  have dev: "device_line parent = ''Device:'' @ CHR '' '' # parent" by (simp add: device_line_def)
  have "hd (device_line parent) = CHR ''D''" "last (device_line parent) = last parent" "device_line parent \<noteq> []"
    using ns(3) by (simp_all add: device_line_def)
  moreover have "ascii (device_line parent)" using ns(4) by (simp add: device_line_def code_def)
  ultimately have line: "TrimSpace (device_line parent) = device_line parent"
    using ns(2) by (intro TrimSpace_word) (simp_all add: code_colon_letters IsSpace_def)
  have "TrimPrefix (device_line parent) ''Device:'' = CHR '' '' # parent"
    unfolding dev TrimPrefix_def CutPrefix_append by simp
  moreover have "TrimSpace (CHR '' '' # parent) = parent"
    using ns TrimSpace_space [of "CHR '' ''" parent] TrimSpace_word [of parent] by (simp add: spaces)
  moreover have "HasPrefix (device_line parent) ''Device:''" unfolding dev by (rule HasPrefix_append)
  ultimately show ?thesis by (simp add: vlan_line_def line)
qed

section \<open>Properties\<close>

text \<open>
  From a file as the kernel writes it (the name, \<^verbatim>\<open>VID:\<close> and the identifier on the first
  line, a later line with the device) \<open>readVLAN\<close> gets the parent device and the VLAN
  identifier, whatever the other lines are.
\<close>

theorem vlan_file_roundtrip:
  assumes "word_text name" and "word_text parent" and "0 < vid" and "vid < 4095"
    and "\<forall>l \<in> set (rest # mid @ tail). nl \<notin> set l"
    and "\<forall>l \<in> set tail. \<not> HasPrefix (TrimSpace l) ''Device:''"
    and "kReadFile k (path_join ''/proc/net/vlan'' name)
      = Some (Join ([vid_line name vid rest] @ mid @ [device_line parent] @ tail) [nl])"
  shows "readVLAN k name = (parent, int vid)"
proof -
  let ?first = "vid_line name vid rest"
  have "nl \<notin> set w" if "word_text w" for w
    using that by (auto simp: word_text_def IsSpace_def)
  then have "\<forall>l \<in> set ([?first] @ mid @ [device_line parent] @ tail). nl \<notin> set l"
    using assms(1,2,5) word_decimal [of vid] by (auto simp: vid_line_def device_line_def)
  then have "Split (Join ([?first] @ mid @ [device_line parent] @ tail) [nl]) nl
      = [?first] @ mid @ [device_line parent] @ tail"
    by (rule Split_Join) simp
  then have lines: "readVLAN k name = fold vlan_line ([?first] @ mid @ [device_line parent] @ tail) ([], 0)"
    by (simp add: readVLAN_def assms(7))
  have "snd (vlan_line ?first ([], 0)) = int vid"
    unfolding vlan_line_def prod.case snd_conv Fields_vlan_line [OF assms(1)]
    using assms(3,4) by (intro vlan_fields_first) simp_all
  then obtain p where first: "vlan_line ?first ([], 0) = (p, int vid)"
    by (cases "vlan_line ?first ([], 0)") simp
  obtain q where mid: "fold vlan_line mid (p, int vid) = (q, int vid)"
    using vlan_lines_vid [of "int vid" mid p] assms(3) by (cases "fold vlan_line mid (p, int vid)") auto
  have "vlan_line (device_line parent) (q, int vid) = (parent, int vid)"
    using vlan_device [OF assms(2)] assms(3) by (simp add: vlan_fields_keep)
  then show ?thesis
    using vlan_lines_keep [of "int vid" tail parent] assms(3,6) by (simp add: lines first mid)
qed

theorem vlan_file_roundtrip_witness:
  "readVLAN \<lparr>kReadFile = (\<lambda>p. Some (Join [vid_line ''eth0.10'' 10 '' REORDER_HDR: 1'', '' total frames'',
      device_line ''eth0'', ''INGRESS''] [nl])), kStat = (\<lambda>p. False), kReadlink = (\<lambda>p. None), kInterfaces = Inr []\<rparr> ''eth0.10''
   = (''eth0'', 10)"
proof -
  have words: "word_text ''eth0.10''" "word_text ''eth0''" by (simp_all add: word_text_def code_def IsSpace_def)
  have "TrimSpace ''INGRESS'' = ''INGRESS''" by (rule TrimSpace_word) (simp_all add: code_def IsSpace_def)
  then have tail: "\<not> HasPrefix (TrimSpace ''INGRESS'') ''Device:''" by (simp add: HasPrefix_def)
  show ?thesis
    using vlan_file_roundtrip [OF words, of 10 "'' REORDER_HDR: 1''" "['' total frames'']" "[''INGRESS'']"
        "\<lparr>kReadFile = (\<lambda>p. Some (Join [vid_line ''eth0.10'' 10 '' REORDER_HDR: 1'', '' total frames'',
           device_line ''eth0'', ''INGRESS''] [nl])), kStat = (\<lambda>p. False), kReadlink = (\<lambda>p. None), kInterfaces = Inr []\<rparr>"]
      tail by simp
qed

lemma fold_max_ge: "r \<in> set rows \<Longrightarrow> f r \<le> fold (\<lambda>r w. max w (f r)) rows (w :: nat)"
  and fold_max_start: "w \<le> fold (\<lambda>r w. max w (f r)) rows (w :: nat)"
proof -
  have start: "w \<le> fold (\<lambda>r w. max w (f r)) rows w" for w :: nat and rows
    by (induction rows arbitrary: w) (simp, metis fold_simps(2) max.bounded_iff)
  show "w \<le> fold (\<lambda>r w. max w (f r)) rows w" by (rule start)
  show "r \<in> set rows \<Longrightarrow> f r \<le> fold (\<lambda>r w. max w (f r)) rows w"
  proof (induction rows arbitrary: w)
    case (Cons q rows)
    then show ?case using start [of "max w (f r)" rows] by auto
  qed simp
qed

lemma show_index:
  assumes "0 \<le> i" and "i \<le> 999"
  shows "length (show_int i) \<le> 3" and "ascii (show_int i)"
proof -
  have 1: "length (decimal n) \<le> 1" if "n < 10" for n using that by (subst decimal_step) simp
  have 2: "length (decimal n) \<le> 2" if "n < 100" for n using 1 [of n] 1 [of "n div 10"] that by (subst decimal_step) auto
  have "length (decimal n) \<le> 3" if "n < 1000" for n using 2 [of n] 2 [of "n div 10"] that by (subst decimal_step) auto
  then show "length (show_int i) \<le> 3" "ascii (show_int i)" using assms by (simp_all add: show_int_def)
qed

text \<open>
  The table is aligned: in the line of every interface the name, the MAC address and the
  flags stand in the columns the widths give, as long as names are ASCII and indices have
  at most three digits.
\<close>

theorem iface_columns:
  assumes "r \<in> set rows" and "ascii (ifName r)" and "ascii (ifMAC r)" and "0 \<le> ifIndex r" and "ifIndex r \<le> 999"
    and "widths rows = (nameW, macW, mtuW)"
  shows "take nameW (iface_line (nameW, macW, mtuW) r) = pad_right nameW (ifName r)
    \<and> take macW (drop (nameW + 7) (iface_line (nameW, macW, mtuW) r))
      = pad_right macW (if ifMAC r = [] then ''-'' else ifMAC r)
    \<and> drop (nameW + 7 + macW + 2 + mtuW + 2) (iface_line (nameW, macW, mtuW) r) = ifFlags r @ [nl]"
proof -
  have w: "length (ifName r) \<le> nameW" "length (ifMAC r) \<le> macW" "length (show_int (ifMTU r)) \<le> mtuW"
    using assms(1,6) fold_max_ge [of r rows] by (auto simp: widths_def)
  have "length ''MAC'' \<le> macW"
    using assms(6) fold_max_start [of "length ''MAC''" "\<lambda>r. length (ifMAC r)" rows] unfolding widths_def prod.inject by metis
  then have w: "length (ifName r) \<le> nameW" "length (ifMAC r) \<le> macW" "length (show_int (ifMTU r)) \<le> mtuW" "3 \<le> macW"
    using w by simp_all
  have mtu: "ascii (show_int (ifMTU r))" by (simp add: show_int_def code_def)
  let ?mac = "if ifMAC r = [] then ''-'' else ifMAC r"
  have mac: "ascii ?mac" "length ?mac \<le> macW" using assms(3) w by (auto simp: code_def)
  have len: "length (pad_right nameW (ifName r)) = nameW" "length (pad_left 3 (show_int (ifIndex r))) = 3"
    "length (pad_right macW ?mac) = macW" "length (pad_left mtuW (show_int (ifMTU r))) = mtuW"
    using w mac mtu assms(2) show_index [OF assms(4,5)] by (simp_all add: max_def)
  define A B C D where "A = pad_right nameW (ifName r)" and "B = ''  '' @ pad_left 3 (show_int (ifIndex r)) @ ''  ''"
    and "C = pad_right macW ?mac" and "D = ''  '' @ pad_left mtuW (show_int (ifMTU r)) @ ''  ''"
  have abcd: "length A = nameW" "length B = 7" "length C = macW" "length D = mtuW + 4"
    using len by (simp_all add: A_def B_def C_def D_def)
  have line: "iface_line (nameW, macW, mtuW) r = A @ B @ C @ D @ ifFlags r @ [nl]"
    by (simp add: iface_line_def A_def B_def C_def D_def)
  have cut: "take nameW (A @ t) = A" "drop (nameW + 7) (A @ B @ t) = t" "take macW (C @ t) = C"
    "drop (nameW + 7 + macW + 2 + mtuW + 2) (A @ B @ C @ D @ t) = t" for t
    using abcd by simp_all
  show ?thesis unfolding line A_def [symmetric] C_def [symmetric] by (simp only: cut simp_thms)
qed

theorem iface_columns_witness:
  "take 17 (drop 11 (iface_line (4, 17, 4) \<lparr>ifName = ''eth0'', ifIndex = 2, ifMAC = ''aa:bb:cc:dd:ee:ff'', ifMTU = 1500,
     ifFlags = ''up'', ifKind = ''ether'', ifParent = [], ifVID = 0, ifMaster = [], ifOper = ''up'', ifIPv4 = [], ifIPv6 = []\<rparr>))
   = ''aa:bb:cc:dd:ee:ff''"
proof -
  let ?r = "\<lparr>ifName = ''eth0'', ifIndex = 2, ifMAC = ''aa:bb:cc:dd:ee:ff'', ifMTU = 1500,
     ifFlags = ''up'', ifKind = ''ether'', ifParent = [], ifVID = 0, ifMaster = [], ifOper = ''up'', ifIPv4 = [], ifIPv6 = []\<rparr>"
  have a: "ascii ''eth0''" "ascii ''aa:bb:cc:dd:ee:ff''" by (simp_all add: code_def)
  have "length (show_int 1500) = 4"
    by (simp add: show_int_def, subst decimal_step, subst decimal_step, subst decimal_step, subst decimal_step) simp
  then have "widths [?r] = (4, 17, 4)" by (simp add: widths_def)
  then show ?thesis using iface_columns [of ?r "[?r]" 4 17 4] a by (simp add: pad_right_def runes_ascii)
qed

text \<open>
  \<^verbatim>\<open>ifaces -i NAME\<close> prints the interfaces of that name in the order of their indices,
  and fails with code 1 exactly when there is none; without arguments all are printed.
\<close>

theorem ifaces_command:
  assumes "kInterfaces k = Inr all_ifs"
  shows "execIfaces k env [] = (exit_with 0 [])\<lparr>xOut := [OText (writeIfaceTable
      (sort_key ifIndex (map (summarize k) all_ifs)))]\<rparr>
    \<and> (name \<noteq> [] \<longrightarrow> execIfaces k env [''-i'', name] =
        (if name \<notin> nfName ` set all_ifs then exit_with 1 [LineQuoted ''ifaces: interface '' name '' not found'']
         else (exit_with 0 [])\<lparr>xOut := [OText (writeIfaceTable
           (sort_key ifIndex (map (summarize k) (filter (\<lambda>i. nfName i = name) all_ifs))))]\<rparr>))"
proof -
  have "flag_Parse (eParseDuration env) ifaces_flags [] = Inr (ifaces_flags, [])"
    by (rule flag_Parse_positional) simp
  moreover have "flag_Parse (eParseDuration env) ifaces_flags [''-i'', name]
      = Inr (ifaces_flags(''i'' \<mapsto> FString name), [])"
    using flag_Parse_options [of "eParseDuration env" ifaces_flags "[(''i'', name)]" "ifaces_flags(''i'' \<mapsto> FString name)" "[]"]
      flag_Parse_positional [of "[]"]
    by (simp add: option_args_def ifaces_flags_def plain_name_def)
  moreover have "filter (\<lambda>i. nfName i = name) all_ifs = [] \<longleftrightarrow> name \<notin> nfName ` set all_ifs"
    by (auto simp: filter_empty_conv)
  moreover have "sort_key ifIndex xs = [] \<longleftrightarrow> xs = []" for xs :: "ifaceInfo list" by (metis length_0_conv length_sort)
  ultimately show ?thesis
    by (simp add: execIfaces_def assms get_string_def get_bool_def ifaces_flags_def ifaces_listed_def Let_def)
qed

theorem ifaces_command_witness:
  "execIfaces \<lparr>kReadFile = (\<lambda>p. None), kStat = (\<lambda>p. False), kReadlink = (\<lambda>p. None), kInterfaces = Inr []\<rparr>
     \<lparr>eInput = [], ePromptAnswer = None, ePromptSel = SelResult, eOpen = (\<lambda>c. None), eWinch = [], ePump = PumpCtxDone,
      eListener = Inr (), eBcast = (\<lambda>i. Inl BcastNoIPv4), eStart = 0, eOrder = [], eTurns = [], eEncode = None,
      eParseDuration = (\<lambda>s. None)\<rparr> [''-i'', ''eth9'']
   = exit_with 1 [LineQuoted ''ifaces: interface '' ''eth9'' '' not found'']"
  using ifaces_command [of "\<lparr>kReadFile = (\<lambda>p. None), kStat = (\<lambda>p. False), kReadlink = (\<lambda>p. None), kInterfaces = Inr []\<rparr>"
      "[]" _ "''eth9''"]
  by simp

end
