(* ===== verification/Dispatch.thy ===== *)
theory Dispatch
  imports Exec_Line Ifaces
begin

text \<open>
  \<open>dispatchExec\<close> of \<^verbatim>\<open>src/internal/sshserver/exec.go\<close>, and what the exec commands do from
  the command line on.
\<close>

definition dispatchExec :: "Config \<Rightarrow> kernel \<Rightarrow> exec_env \<Rightarrow> string \<Rightarrow> u32 \<Rightarrow> u32 \<Rightarrow> outcome option" where
  "dispatchExec cfg k env cmdline cols rows =
    (case splitCmd cmdline of
       Inl UnclosedQuote \<Rightarrow> Some (exit_with 2 [Line ''mactelnet-proxy: bad command: unclosed quote''])
     | Inr [] \<Rightarrow> Some (exit_with 2 [Line ''mactelnet-proxy: empty command''])
     | Inr (cmd # args) \<Rightarrow>
         if cmd = ''mactelnet'' then execMactelnet cfg env args cols rows
         else if cmd = ''mndp'' then execMndp cfg env args
         else if cmd = ''ifaces'' then Some (execIfaces k env args)
         else Some (exit_with 127 [LineQuoted ''mactelnet-proxy: unknown command '' cmd []]))"

section \<open>Exit codes and effects\<close>

lemma exit_with_simps [simp]:
  "xCode (exit_with rc errs) = rc" "xOut (exit_with rc errs) = []" "xErr (exit_with rc errs) = errs"
  "xOpen (exit_with rc errs) = None" "xInput (exit_with rc errs) = None" "xResized (exit_with rc errs) = []"
  "xClosed (exit_with rc errs) = 0" "xSent (exit_with rc errs) = []"
  by (simp_all add: exit_with_def)

lemma mactelnet_request_ok:
  assumes "mactelnet_request cfg pd args = Inr q"
  shows "mqUser q \<noteq> [] \<and> mqIface q \<noteq> [] \<and> mqVlan q \<le> 4094"
  using assms by (auto simp: mactelnet_request_def split: sum.splits prod.splits if_splits)

text \<open>An open call that may be made: a user and an interface are named, the VLAN ID is in range.\<close>

definition proper_call :: "open_call \<Rightarrow> bool" where
  "proper_call c \<longleftrightarrow> ocUser c \<noteq> [] \<and> ocIface c \<noteq> [] \<and> unat (ocVlanID c) \<le> 4094"

lemma proper_open:
  assumes "mactelnet_request cfg pd args = Inr q"
  shows "proper_call (mactelnet_open q password cols rows)"
proof -
  have v: "mqVlan q \<le> 4094" using mactelnet_request_ok [OF assms] by simp
  then have "unat (of_nat (mqVlan q) :: u16) = mqVlan q" by (simp add: unat_of_nat)
  then show ?thesis using mactelnet_request_ok [OF assms] v by (simp add: proper_call_def mactelnet_open_def)
qed

lemma pump_exit_codes: "pump_exit p = (rc, errs) \<Longrightarrow> rc = 0 \<or> rc = 1"
  by (auto simp: pump_exit_def split: pump_end.splits option.splits if_splits)

definition quiet_outcome :: "outcome \<Rightarrow> bool" where
  "quiet_outcome oc \<longleftrightarrow> xOut oc = [] \<and> xOpen oc = None \<and> xInput oc = None \<and> xSent oc = []"

text \<open>A session that was opened is closed once; window changes only go to such a session.\<close>

definition session_closed :: "exec_env \<Rightarrow> outcome \<Rightarrow> bool" where
  "session_closed env oc \<longleftrightarrow>
    (case xOpen oc of
       Some call \<Rightarrow> xClosed oc = (if eOpen env call = None then 1 else 0) \<and> (eOpen env call \<noteq> None \<longrightarrow> xResized oc = [])
     | None \<Rightarrow> xClosed oc = 0 \<and> xResized oc = [])"

definition ok_outcome :: "exec_env \<Rightarrow> outcome \<Rightarrow> bool" where
  "ok_outcome env oc \<longleftrightarrow> session_closed env oc \<and> xCode oc \<in> {0, 1, 2, 127} \<and> (xCode oc \<in> {2, 127} \<longrightarrow> quiet_outcome oc)
    \<and> (\<forall>call. xOpen oc = Some call \<longrightarrow> proper_call call)"

lemma exit_ok: "rc \<in> {0, 1, 2, 127} \<Longrightarrow> ok_outcome env (exit_with rc errs)"
  by (simp add: ok_outcome_def quiet_outcome_def session_closed_def)

lemma execMactelnet_ok:
  assumes "execMactelnet cfg env args cols rows = Some oc"
  shows "ok_outcome env oc"
proof (cases "mactelnet_request cfg (eParseDuration env) args")
  case (Inl errs)
  then show ?thesis using assms exit_ok [of 2] by (auto simp: execMactelnet_def)
next
  case (Inr q)
  obtain w res where pw: "mactelnet_password env q (NewReader (eInput env)) = (w, Some res)"
    using assms Inr by (auto simp: execMactelnet_def split: option.splits prod.splits)
  show ?thesis
  proof (cases res)
    case (Inl e)
    then show ?thesis using assms Inr pw by (auto simp: execMactelnet_def ok_outcome_def session_closed_def)
  next
    case res: (Inr r)
    obtain password reader where r: "r = (password, reader)" by (cases r)
    have proper: "proper_call (mactelnet_open q password cols rows)" by (rule proper_open [OF Inr])
    obtain rc errs where pump: "pump_exit (ePump env) = (rc, errs)" by (cases "pump_exit (ePump env)")
    show ?thesis
      using assms Inr pw res r pump pump_exit_codes [OF pump] proper
      by (auto simp: execMactelnet_def ok_outcome_def session_closed_def Let_def split: option.splits)
  qed
qed

lemma execMndp_ok:
  assumes "execMndp cfg env args = Some oc"
  shows "ok_outcome env oc"
  using assms
  by (auto simp: execMndp_def ok_outcome_def quiet_outcome_def session_closed_def Let_def split: sum.splits prod.splits if_splits option.splits)

lemma execIfaces_ok: "ok_outcome env (execIfaces k env args)"
  by (auto simp: execIfaces_def ok_outcome_def quiet_outcome_def session_closed_def Let_def split: sum.splits prod.splits option.splits)

lemma dispatchExec_ok:
  assumes "dispatchExec cfg k env cmdline cols rows = Some oc"
  shows "ok_outcome env oc"
  using assms execMactelnet_ok execMndp_ok execIfaces_ok exit_ok
  by (auto simp: dispatchExec_def split: sum.splits split_error.splits list.splits if_splits)

section \<open>From the command line to the session\<close>

lemma quotable_ascii: "ascii s \<Longrightarrow> CHR 0x22 \<notin> set s \<Longrightarrow> quotable s"
  by (simp add: quotable_def valid_utf8_ascii)

lemma quotable_words: "quotable ''mactelnet''" "quotable ''-u''" "quotable ''-p''" "quotable ''-i''" "quotable ''-vlan''"
  by (rule quotable_ascii; simp add: code_def)+

lemma quotable_decimal: "quotable (decimal v)"
  using decimal_digits [of v] by (intro quotable_ascii) (auto simp: dquote_def)

lemma dispatch_mactelnet:
  assumes "\<forall>a \<in> set args. quotable a"
  shows "dispatchExec cfg k env (Join (map quote_arg (''mactelnet'' # args)) '' '') cols rows
    = execMactelnet cfg env args cols rows"
proof -
  have "splitCmd (Join (map quote_arg (''mactelnet'' # args)) '' '') = Inr (''mactelnet'' # args)"
    using assms by (intro split_line_args) (simp add: quotable_words)
  then show ?thesis by (simp add: dispatchExec_def)
qed

lemma positional_last: "positional mac \<Longrightarrow> flag_Parse pd fs [mac] = Inr (fs, [mac])"
  by (rule flag_Parse_positional) simp

lemma mactelnet_request_full:
  assumes "user \<noteq> []" and "iface \<noteq> []" and "v \<le> 4094" and "positional mac"
  shows "mactelnet_request cfg pd
      (option_args [(''u'', user), (''p'', pass), (''i'', iface), (''vlan'', decimal v)] @ [mac])
    = Inr \<lparr>mqUser = user, mqPass = pass, mqIface = iface, mqVlan = v, mqMac = mac\<rparr>"
proof -
  let ?opts = "[(''u'', user), (''p'', pass), (''i'', iface), (''vlan'', decimal v)]"
  let ?fs = "(mactelnet_flags cfg)(''u'' \<mapsto> FString user, ''p'' \<mapsto> FString pass, ''i'' \<mapsto> FString iface,
    ''vlan'' \<mapsto> FUint v)"
  have v: "ParseUint (decimal v) 0 64 = Inr v" using assms(3) by (intro ParseUint_decimal) auto
  have "set_flags pd (mactelnet_flags cfg) ?opts = Some ?fs"
    by (simp add: mactelnet_flags_def plain_name_def v)
  then have "flag_Parse pd (mactelnet_flags cfg) (option_args ?opts @ [mac]) = Inr (?fs, [mac])"
    using positional_last [OF assms(4)] by (rule trans [OF flag_Parse_options])
  then show ?thesis using assms by (simp add: mactelnet_request_def get_string_def get_uint_def)
qed

lemma mactelnet_request_prompted:
  assumes "user \<noteq> []" and "cfIface cfg \<noteq> []" and "unat (cfVlanID cfg) \<le> 4094" and "positional mac"
  shows "mactelnet_request cfg pd (option_args [(''u'', user)] @ [mac])
    = Inr \<lparr>mqUser = user, mqPass = [], mqIface = cfIface cfg, mqVlan = unat (cfVlanID cfg), mqMac = mac\<rparr>"
proof -
  let ?fs = "(mactelnet_flags cfg)(''u'' \<mapsto> FString user)"
  have "set_flags pd (mactelnet_flags cfg) [(''u'', user)] = Some ?fs"
    by (simp add: mactelnet_flags_def plain_name_def)
  then have "flag_Parse pd (mactelnet_flags cfg) (option_args [(''u'', user)] @ [mac]) = Inr (?fs, [mac])"
    using positional_last [OF assms(4)] by (rule trans [OF flag_Parse_options])
  then show ?thesis
    using assms by (simp add: mactelnet_request_def get_string_def get_uint_def mactelnet_flags_def)
qed

text \<open>A configuration and surroundings for the examples.\<close>

definition sample_config :: Config where
  "sample_config = \<lparr>cfListenAddr = ''0.0.0.0:22'', cfHostKeyPath = ''/k/h'', cfAuthorizedKeys = ''/k/a'',
     cfIface = ''eth0'', cfVlanID = 0\<rparr>"

definition sample_kernel :: kernel where
  "sample_kernel = \<lparr>kReadFile = (\<lambda>p. None), kStat = (\<lambda>p. False), kReadlink = (\<lambda>p. None), kInterfaces = Inr []\<rparr>"

definition sample_env :: exec_env where
  "sample_env = \<lparr>eInput = [Data [0x61, 13], Data [0x62, 0x63]], ePromptAnswer = None, ePromptSel = SelResult,
     eOpen = (\<lambda>c. None), eWinch = [], ePump = PumpReturned None, eListener = Inr (), eBcast = (\<lambda>i. Inl BcastNoIPv4), eStart = 0,
     eOrder = [], eTurns = [], eEncode = None, eParseDuration = (\<lambda>s. None)\<rparr>"

section \<open>Properties\<close>

text \<open>
  C21.  The exit code of an exec command is 0, 1, 2 or 127.  With 2 (a command line that does
  not parse, a missing or invalid argument) and 127 (an unknown command) nothing was done:
  nothing is written to the channel, nothing read, no session opened, no datagram sent.  A
  session is only ever opened with a user, an interface and a VLAN ID of at most 4094, which
  the conversion to 16 bits does not change; it is closed exactly once when it opened, and
  window changes reach no other.
\<close>

theorem exec_outcomes:
  assumes "dispatchExec cfg k env cmdline cols rows = Some oc"
  shows "xCode oc \<in> {0, 1, 2, 127}
    \<and> (xCode oc \<in> {2, 127} \<longrightarrow> xOut oc = [] \<and> xOpen oc = None \<and> xInput oc = None \<and> xSent oc = [])
    \<and> (xOpen oc = Some call \<longrightarrow> ocUser call \<noteq> [] \<and> ocIface call \<noteq> [] \<and> unat (ocVlanID call) \<le> 4094
      \<and> (eOpen env call = None \<longrightarrow> xClosed oc = 1) \<and> (eOpen env call \<noteq> None \<longrightarrow> xClosed oc = 0 \<and> xResized oc = []))
    \<and> (xOpen oc = None \<longrightarrow> xClosed oc = 0 \<and> xResized oc = [])"
proof -
  have "ok_outcome env oc" by (rule dispatchExec_ok [OF assms])
  then show ?thesis by (auto simp: ok_outcome_def quiet_outcome_def session_closed_def proper_call_def)
qed

theorem exec_outcomes_witness:
  "\<exists>oc. dispatchExec sample_config sample_kernel sample_env ''reboot'' 80 24 = Some oc \<and> xCode oc = 127 \<and> xOpen oc = None"
proof -
  have "splitCmd ''reboot'' = Inr [''reboot'']"
    using segments_ascii [of "''reboot''" "[]"]
    by (simp add: splitCmd_def runes_def split_init_def split_step_def code_def IsSpace_def dquote_def squote_def
        encode_rune_def byte_char_def char_of_def bit_0)
  then have "dispatchExec sample_config sample_kernel sample_env ''reboot'' 80 24
      = Some (exit_with 127 [LineQuoted ''mactelnet-proxy: unknown command '' ''reboot'' []])"
    by (simp add: dispatchExec_def)
  from exec_outcomes [OF this] this show ?thesis by simp
qed

text \<open>
  A client that quotes its arguments gets the session it asked for: \<^verbatim>\<open>mactelnet\<close> with a
  user, a password, an interface, a VLAN ID and an address, whatever characters these have
  (not both quotes in one), opens exactly that, with the terminal size cut to 16 bits, and
  the whole input of the channel is left for the session.
\<close>

theorem exec_opens_as_asked:
  assumes "quotable user" and "quotable pass" and "quotable iface" and "quotable mac"
    and "user \<noteq> []" and "pass \<noteq> []" and "iface \<noteq> []" and "v \<le> 4094" and "positional mac"
  shows "\<exists>oc. dispatchExec cfg k env (Join (map quote_arg (''mactelnet'' #
        option_args [(''u'', user), (''p'', pass), (''i'', iface), (''vlan'', decimal v)] @ [mac])) '' '') cols rows = Some oc
    \<and> xOpen oc = Some \<lparr>ocIface = iface, ocMac = mac, ocUser = user, ocPassword = pass,
        ocCols = ucast cols, ocRows = ucast rows, ocVlanID = of_nat v\<rparr>
    \<and> (case eOpen env (the (xOpen oc)) of
         None \<Rightarrow> xInput oc = Some (NewReader (eInput env)) \<and> xCode oc = fst (pump_exit (ePump env))
       | Some e \<Rightarrow> xInput oc = None \<and> xCode oc = 1 \<and> xErr oc = [LineErr ''mactelnet: '' e])"
proof -
  have "\<forall>a \<in> set (option_args [(''u'', user), (''p'', pass), (''i'', iface), (''vlan'', decimal v)] @ [mac]). quotable a"
    using assms(1-4) quotable_decimal quotable_words by (simp add: option_args_def)
  note d = dispatch_mactelnet [OF this, of cfg k env cols rows]
  let ?call = "\<lparr>ocIface = iface, ocMac = mac, ocUser = user, ocPassword = pass,
    ocCols = ucast cols, ocRows = ucast rows, ocVlanID = of_nat v\<rparr>"
  show ?thesis unfolding d using mactelnet_request_full [OF assms(5,7-9)] assms(6)
    by (cases "eOpen env ?call"; cases "pump_exit (ePump env)")
      (simp_all add: execMactelnet_def mactelnet_password_def mactelnet_open_def Let_def)
qed

text \<open>
  Without \<^verbatim>\<open>-p\<close> the password is the line typed at the prompt and the interface and the
  VLAN ID are the server's; the session then gets every byte typed after that line, in order,
  however the channel cuts the input into reads.
\<close>

theorem exec_prompted_session:
  assumes "quotable user" and "quotable mac" and "user \<noteq> []" and "positional mac"
    and "cfIface cfg \<noteq> []" and "unat (cfVlanID cfg) \<le> 4094"
    and "ePromptAnswer env = None" and "ePromptSel env = SelResult"
    and "pending (eInput env) = xs @ t # keys" and "line_bytes xs" and "line_edit xs [] = Some pw" and "t = CR \<or> t = LF"
  shows "\<exists>oc. dispatchExec cfg k env (Join (map quote_arg (''mactelnet'' # option_args [(''u'', user)] @ [mac])) '' '') cols rows
        = Some oc
    \<and> xOut oc = [OText (''Password: '' @ [CHR 0x0D, CHR 0x0A])]
    \<and> xOpen oc = Some \<lparr>ocIface = cfIface cfg, ocMac = mac, ocUser = user, ocPassword = string_of_bytes pw,
        ocCols = ucast cols, ocRows = ucast rows, ocVlanID = cfVlanID cfg\<rparr>
    \<and> (eOpen env (the (xOpen oc)) = None \<longrightarrow>
        (\<exists>r. xInput oc = Some r \<and> xClosed oc = 1 \<and> (concat (copied r) = keys \<or> t = CR \<and> keys = LF # concat (copied r))))"
proof -
  have "\<forall>a \<in> set (option_args [(''u'', user)] @ [mac]). quotable a"
    using assms(1,2) quotable_words by (simp add: option_args_def)
  note d = dispatch_mactelnet [OF this, of cfg k env cols rows]
  have "line_read (upcoming (NewReader (eInput env))) [] = Some (Inr pw, t, keys)"
    using line_read_edit [OF assms(10-12)] assms(9) by (simp add: NewReader_def upcoming_def)
  then obtain r where r: "prompt_loop (NewReader (eInput env)) [] = Some (Inr (string_of_bytes pw), r)"
    "upcoming r = keys \<or> t = CR \<and> keys = LF # upcoming r"
    using prompt_loop_line [of "NewReader (eInput env)" "[]"] by auto
  let ?call = "\<lparr>ocIface = cfIface cfg, ocMac = mac, ocUser = user, ocPassword = string_of_bytes pw,
    ocCols = ucast cols, ocRows = ucast rows, ocVlanID = cfVlanID cfg\<rparr>"
  show ?thesis unfolding d using mactelnet_request_prompted [OF assms(3,5,6,4)] r assms(7,8)
    by (cases "eOpen env ?call"; cases "pump_exit (ePump env)")
      (simp_all add: execMactelnet_def mactelnet_password_def mactelnet_open_def readPasswordPrompt_def
        readPasswordPromptWithTimeout_def out_text_def concat_copied Let_def)
qed

theorem exec_opens_as_asked_witness:
  "\<exists>oc. dispatchExec sample_config sample_kernel sample_env
       (Join (map quote_arg [''mactelnet'', ''-u'', ''admin'', ''-p'', ''a b'', ''-i'', ''eth1'', ''-vlan'', decimal 10,
          ''00:11:22:33:44:55'']) '' '') 80 24 = Some oc
     \<and> xOpen oc = Some \<lparr>ocIface = ''eth1'', ocMac = ''00:11:22:33:44:55'', ocUser = ''admin'', ocPassword = ''a b'',
         ocCols = 80, ocRows = 24, ocVlanID = 10\<rparr>"
proof -
  have "quotable ''admin''" "quotable ''a b''" "quotable ''eth1''" "quotable ''00:11:22:33:44:55''"
    by (rule quotable_ascii; simp add: code_def)+
  from exec_opens_as_asked [OF this, of 10 sample_config sample_kernel sample_env 80 24]
  show ?thesis by (auto simp: option_args_def positional_def)
qed

theorem exec_prompted_session_witness:
  "\<exists>oc r. dispatchExec sample_config sample_kernel sample_env
       (Join (map quote_arg [''mactelnet'', ''-u'', ''admin'', ''00:11:22:33:44:55'']) '' '') 80 24 = Some oc
     \<and> xOpen oc = Some \<lparr>ocIface = ''eth0'', ocMac = ''00:11:22:33:44:55'', ocUser = ''admin'', ocPassword = ''a'',
         ocCols = 80, ocRows = 24, ocVlanID = 0\<rparr>
     \<and> xInput oc = Some r \<and> concat (copied r) = [0x62, 0x63]"
proof -
  have q: "quotable ''admin''" "quotable ''00:11:22:33:44:55''"
    by (rule quotable_ascii; simp add: code_def)+
  have "line_bytes [0x61]" "line_edit [0x61] [] = Some [0x61]" "string_of_bytes [0x61] = ''a''"
    by (simp_all add: line_bytes_def CR_def LF_def prompt_edit_def passwordMaxLen_def string_of_bytes_def char_of_def bit_0)
  then show ?thesis
    using exec_prompted_session [OF q, of sample_config sample_env "[0x61]" CR "[0x62, 0x63]" "[0x61]" sample_kernel 80 24]
    by (auto simp: option_args_def positional_def sample_config_def sample_env_def CR_def LF_def)
qed

text \<open>
  The discovery window is the seconds asked for as long as their nanoseconds fit 64 bits
  (up to 9223372036 s); from there to twice that the product wraps to a negative duration,
  and the discovery ends before its first read, with an empty table and exit code 0.
\<close>

theorem mndp_window_wraps:
  assumes "eListener env = Inr ()" and "eTurns env = turn # turns" and "eStart env \<le> mtTop turn"
    and "eBcast env (cfIface cfg) = Inl berr" and "map_order Map.empty (eOrder env)"
    and "9223372036 < n" and "n \<le> 18446744073" and "0 < t" and "t \<le> 9223372036"
  shows "mndp_window t = t * 1000000000
    \<and> execMndp cfg env [''-t'', decimal n] = Some ((exit_with 0
        [Line ''Searching for MAC-Telnet devices... Abort with CTRL+C.''])\<lparr>xOut := [OText (mndp_table [])]\<rparr>)"
proof -
  have small: "mndp_window t = t * 1000000000" using assms(8,9) by (simp add: mndp_window_def wrap64_id)
  let ?x = "int n * 1000000000 + 2 ^ 63"
  have "?x mod 2 ^ 64 = (?x - 2 ^ 64) mod 2 ^ 64" by (rule minus_mod_self2 [symmetric])
  also have "\<dots> = ?x - 2 ^ 64" using assms(6,7) by (intro mod_pos_pos_trivial) simp_all
  finally have neg: "mndp_window (int n) < 0" using assms(6,7) by (simp add: mndp_window_def wrap64_def)
  have order: "eOrder env = []" using assms(5) by (simp add: map_order_def)
  let ?fs = "(mndp_flags (cfIface cfg))(''t'' \<mapsto> FInt (int n))"
  have "ParseInt (decimal n) 0 64 = Inr (int n)" using assms(7) by (intro ParseInt_decimal) simp_all
  then have "set_flags (eParseDuration env) (mndp_flags (cfIface cfg)) [(''t'', decimal n)] = Some ?fs"
    by (simp add: mndp_flags_def plain_name_def)
  from flag_Parse_options [OF this, of "[]"]
  have "flag_Parse (eParseDuration env) (mndp_flags (cfIface cfg)) [''-t'', decimal n] = Inr (?fs, [])"
    using flag_Parse_positional [of "[]"] by (simp add: option_args_def)
  moreover have "\<not> mtTop turn < eStart env + mndp_window (int n)" using neg assms(3) by simp
  ultimately show ?thesis using assms(1,2,4,6) order small
    by (simp add: execMndp_def get_int_def get_bool_def get_string_def mndp_flags_def Discover_def
        collectNeighbors_def Let_def)
qed

theorem mndp_window_wraps_witness:
  "execMndp sample_config (sample_env\<lparr>eTurns := [\<lparr>mtTop = 0, mtCtxDone = False, mtNow = 0, mtRead = MndpDeadline, mtSeen = 0\<rparr>]\<rparr>)
     [''-t'', decimal 9223372037]
   = Some ((exit_with 0 [Line ''Searching for MAC-Telnet devices... Abort with CTRL+C.''])\<lparr>xOut := [OText (mndp_table [])]\<rparr>)"
  using mndp_window_wraps [of "sample_env\<lparr>eTurns := [\<lparr>mtTop = 0, mtCtxDone = False, mtNow = 0, mtRead = MndpDeadline, mtSeen = 0\<rparr>]\<rparr>"
      _ "[]" sample_config BcastNoIPv4 9223372037 1]
  by (simp add: sample_env_def map_order_def)

end
