(* ===== verification/Ssh_Session.thy ===== *)
theory Ssh_Session
  imports Dispatch
begin

text \<open>
  One SSH session channel of \<^verbatim>\<open>src/internal/sshserver/server.go\<close>: \<open>handleSession\<close>, its request
  loop and the goroutine that runs the command, interleaved.  A label says which of them
  moves; the state also holds what was replied, run and sent, as history.
\<close>

section \<open>States and labels\<close>

record ssh_req =
  rqType :: string
  rqPayload :: "byte list"

text \<open>\<^verbatim>\<open>ssh.Unmarshal\<close> on the three payload structs.\<close>

record unmarshal =
  umPty :: "byte list \<Rightarrow> ptyReqMsg option"
  umWin :: "byte list \<Rightarrow> winChangeMsg option"
  umExec :: "byte list \<Rightarrow> execMsg option"

record winChange =
  wnCols :: u32
  wnRows :: u32

text \<open>
  The goroutine of the command: not started, started but not yet at its first instruction,
  inside \<open>dispatchExec\<close>, about to send the exit code, finished.
\<close>

datatype exec_pc = ExIdle | ExSpawned string | ExRunning string u32 u32 | ExSending int | ExFinished

text \<open>The request loop: serving, waiting for the command after the client closed, returned.\<close>

datatype main_pc = MnServe | MnDrain | MnReturned

record ssess =
  zCols :: u32
  zRows :: u32
  zStarted :: bool
  zExecDone :: "int list"
  zWinchCh :: "winChange list"
  zExec :: exec_pc
  zMain :: main_pc
  zCancelled :: bool
  zClosed :: nat
  zReplies :: "(string \<times> bool) list"
  zRuns :: "(string \<times> u32 \<times> u32) list"
  zResizes :: "winChange list"
  zStatus :: "u32 list"

definition winchCap :: nat where "winchCap = 4"
definition execDoneCap :: nat where "execDoneCap = 1"

definition session_start :: ssess where
  "session_start = \<lparr>zCols = 0, zRows = 0, zStarted = False, zExecDone = [], zWinchCh = [], zExec = ExIdle,
     zMain = MnServe, zCancelled = False, zClosed = 0, zReplies = [], zRuns = [], zResizes = [], zStatus = []\<rparr>"

section \<open>Requests\<close>

definition req_reply :: "ssess \<Rightarrow> ssh_req \<Rightarrow> bool \<Rightarrow> ssess" where
  "req_reply z req ok = z\<lparr>zReplies := zReplies z @ [(rqType req, ok)]\<rparr>"

text \<open>A window change is dropped when the channel is full.\<close>

definition winch_offer :: "ssess \<Rightarrow> winChange \<Rightarrow> ssess" where
  "winch_offer z w = (if length (zWinchCh z) < winchCap then z\<lparr>zWinchCh := zWinchCh z @ [w]\<rparr> else z)"

interpretation winches: dropping_channel winch_offer zWinchCh winchCap
  by unfold_locales (simp add: winch_offer_def)

definition handleReq :: "unmarshal \<Rightarrow> ssess \<Rightarrow> ssh_req \<Rightarrow> ssess" where
  "handleReq um z req =
    (if rqType req = ''pty-req'' then
       (case parsePTYReq (umPty um) (rqPayload req) of
          (term, cols, rows, ok) \<Rightarrow> req_reply (if ok then z\<lparr>zCols := cols, zRows := rows\<rparr> else z) req ok)
     else if rqType req = ''window-change'' then
       (case parseWinChange (umWin um) (rqPayload req) of
          (cols, rows, ok) \<Rightarrow>
            req_reply (if ok then winch_offer z \<lparr>wnCols = cols, wnRows = rows\<rparr> else z) req ok)
     else if rqType req = ''exec'' then
       (case parseExec (umExec um) (rqPayload req) of
          (cmdline, ok) \<Rightarrow>
            let z = req_reply z req ok
            in if \<not> ok \<or> zStarted z then z else z\<lparr>zStarted := True, zExec := ExSpawned cmdline\<rparr>)
     else req_reply z req False)"

section \<open>Steps\<close>

datatype slabel =
    SReq ssh_req
  | SReqsClosed
  | SDone
  | SBegin
  | SReturn exec_env
  | SSend
  | SResize
  | SCancel

text \<open>The deferred \<^verbatim>\<open>cancel\<close> and \<^verbatim>\<open>ch.Close\<close>.\<close>

definition session_return :: "ssess \<Rightarrow> ssess" where
  "session_return z = z\<lparr>zMain := MnReturned, zCancelled := True, zClosed := Suc (zClosed z)\<rparr>"

definition sendExitStatus :: "ssess \<Rightarrow> int \<Rightarrow> ssess" where
  "sendExitStatus z rc = z\<lparr>zStatus := zStatus z @ [word_of_int rc]\<rparr>"

definition exec_start :: "ssess \<Rightarrow> string \<Rightarrow> ssess" where
  "exec_start z cmd = z\<lparr>zExec := ExRunning cmd (zCols z) (zRows z), zRuns := zRuns z @ [(cmd, zCols z, zRows z)]\<rparr>"

definition handleSession_next :: "Config \<Rightarrow> kernel \<Rightarrow> unmarshal \<Rightarrow> ssess \<Rightarrow> slabel \<Rightarrow> ssess option" where
  "handleSession_next cfg k um z l =
    (case l of
       SReq req \<Rightarrow> (if zMain z = MnServe then Some (handleReq um z req) else None)
     | SReqsClosed \<Rightarrow>
         (if zMain z = MnServe then
            (if zStarted z then Some (z\<lparr>zCancelled := True, zMain := MnDrain\<rparr>) else Some (session_return z))
          else None)
     | SDone \<Rightarrow>
         (case (zMain z, zExecDone z) of
            (MnServe, rc # rest) \<Rightarrow> Some (session_return (sendExitStatus (z\<lparr>zExecDone := rest\<rparr>) rc))
          | (MnDrain, rc # rest) \<Rightarrow> Some (session_return (z\<lparr>zExecDone := rest\<rparr>))
          | _ \<Rightarrow> None)
     | SBegin \<Rightarrow> (case zExec z of ExSpawned cmd \<Rightarrow> Some (exec_start z cmd) | _ \<Rightarrow> None)
     | SReturn env \<Rightarrow>
         (case zExec z of
            ExRunning cmd cols rows \<Rightarrow>
              map_option (\<lambda>oc. z\<lparr>zExec := ExSending (xCode oc)\<rparr>) (dispatchExec cfg k env cmd cols rows)
          | _ \<Rightarrow> None)
     | SSend \<Rightarrow>
         (case zExec z of
            ExSending rc \<Rightarrow>
              if length (zExecDone z) < execDoneCap then Some (z\<lparr>zExecDone := zExecDone z @ [rc], zExec := ExFinished\<rparr>)
              else None
          | _ \<Rightarrow> None)
     | SResize \<Rightarrow>
         (case (zExec z, zWinchCh z) of
            (ExRunning cmd cols rows, w # ws) \<Rightarrow> Some (z\<lparr>zWinchCh := ws, zResizes := zResizes z @ [w]\<rparr>)
          | _ \<Rightarrow> None)
     | SCancel \<Rightarrow> Some (z\<lparr>zCancelled := True\<rparr>))"

inductive ssh_step :: "Config \<Rightarrow> kernel \<Rightarrow> unmarshal \<Rightarrow> ssess \<Rightarrow> ssess \<Rightarrow> bool" for cfg k um where
  step: "handleSession_next cfg k um z l = Some z' \<Longrightarrow> ssh_step cfg k um z z'"

inductive_cases ssh_stepE: "ssh_step cfg k um z z'"

inductive ssh_reach :: "Config \<Rightarrow> kernel \<Rightarrow> unmarshal \<Rightarrow> ssess \<Rightarrow> bool" for cfg k um where
  start: "ssh_reach cfg k um session_start"
| more: "ssh_reach cfg k um z \<Longrightarrow> ssh_step cfg k um z z' \<Longrightarrow> ssh_reach cfg k um z'"

fun ssh_run :: "Config \<Rightarrow> kernel \<Rightarrow> unmarshal \<Rightarrow> ssess \<Rightarrow> slabel list \<Rightarrow> ssess option" where
  "ssh_run cfg k um z [] = Some z"
| "ssh_run cfg k um z (l # ls) =
    (case handleSession_next cfg k um z l of None \<Rightarrow> None | Some z' \<Rightarrow> ssh_run cfg k um z' ls)"

lemma ssh_run_reach: "ssh_reach cfg k um z \<Longrightarrow> ssh_run cfg k um z ls = Some z' \<Longrightarrow> ssh_reach cfg k um z'"
proof (induction ls arbitrary: z)
  case (Cons l ls)
  then obtain z1 where "handleSession_next cfg k um z l = Some z1" and "ssh_run cfg k um z1 ls = Some z'"
    by (auto split: option.splits)
  then show ?case using Cons ssh_reach.more ssh_step.step by blast
qed simp

section \<open>The invariant\<close>

text \<open>Where the goroutine is, against what has been started, run and handed over.\<close>

fun exec_inv :: "exec_pc \<Rightarrow> ssess \<Rightarrow> bool" where
  "exec_inv ExIdle z \<longleftrightarrow> \<not> zStarted z \<and> zRuns z = [] \<and> zExecDone z = []"
| "exec_inv (ExSpawned cmd) z \<longleftrightarrow> zStarted z \<and> zRuns z = [] \<and> zExecDone z = []"
| "exec_inv (ExRunning cmd c r) z \<longleftrightarrow> zStarted z \<and> zRuns z = [(cmd, c, r)] \<and> zExecDone z = []"
| "exec_inv (ExSending rc) z \<longleftrightarrow> zStarted z \<and> length (zRuns z) = 1 \<and> zExecDone z = [] \<and> rc \<in> {0, 1, 2, 127}"
| "exec_inv ExFinished z \<longleftrightarrow> zStarted z \<and> length (zRuns z) = 1
    \<and> (zExecDone z = [] \<longleftrightarrow> zMain z = MnReturned)
    \<and> (\<forall>rc \<in> set (zExecDone z). rc \<in> {0, 1, 2, 127}) \<and> length (zExecDone z) \<le> 1"

fun main_inv :: "main_pc \<Rightarrow> ssess \<Rightarrow> bool" where
  "main_inv MnServe z \<longleftrightarrow> zClosed z = 0 \<and> zStatus z = []"
| "main_inv MnDrain z \<longleftrightarrow> zClosed z = 0 \<and> zStatus z = [] \<and> zStarted z \<and> zCancelled z"
| "main_inv MnReturned z \<longleftrightarrow> zClosed z = 1 \<and> zCancelled z \<and> (zExec z = ExIdle \<or> zExec z = ExFinished)
    \<and> (zStatus z = [] \<or> zExec z = ExFinished \<and> (\<exists>rc \<in> {0, 1, 2, 127}. zStatus z = [rc]))"

definition ssh_inv :: "ssess \<Rightarrow> bool" where
  "ssh_inv z \<longleftrightarrow> exec_inv (zExec z) z \<and> main_inv (zMain z) z \<and> length (zWinchCh z) \<le> winchCap"

lemma ssh_inv_start: "ssh_inv session_start"
  by (simp add: ssh_inv_def session_start_def)

lemma ssh_inv_fields:
  assumes "ssh_inv z" and "zExec z' = zExec z" "zStarted z' = zStarted z" "zRuns z' = zRuns z"
    "zExecDone z' = zExecDone z" "zMain z' = zMain z" "zClosed z' = zClosed z" "zStatus z' = zStatus z"
    "zCancelled z \<longrightarrow> zCancelled z'" "length (zWinchCh z') \<le> winchCap"
  shows "ssh_inv z'"
  using assms unfolding ssh_inv_def
  by (cases "zExec z"; cases "zMain z") auto

lemma ssh_inv_req:
  assumes "ssh_inv z" and "zMain z = MnServe"
  shows "ssh_inv (handleReq um z req)"
proof -
  have w: "length (zWinchCh z) \<le> winchCap" using assms(1) by (simp add: ssh_inv_def)
  obtain cmd ok where e: "parseExec (umExec um) (rqPayload req) = (cmd, ok)" by (cases "parseExec (umExec um) (rqPayload req)")
  show ?thesis
  proof (cases "rqType req = ''exec'' \<and> ok \<and> \<not> zStarted z")
    case True
    then have "zExec z = ExIdle" using assms(1) by (cases "zExec z") (auto simp: ssh_inv_def)
    then show ?thesis using assms True e by (auto simp: handleReq_def req_reply_def ssh_inv_def Let_def)
  next
    case False
    show ?thesis
      by (rule ssh_inv_fields [OF assms(1)])
        (use False e w in \<open>auto simp: handleReq_def req_reply_def winch_offer_def Let_def split: prod.split\<close>)
  qed
qed

lemma ssh_inv_step:
  assumes "ssh_inv z" and "handleSession_next cfg k um z l = Some z'"
  shows "ssh_inv z'"
proof (cases l)
  case (SReq req)
  then show ?thesis using assms ssh_inv_req by (auto simp: handleSession_next_def split: if_splits)
next
  case SReqsClosed
  then show ?thesis using assms
    by (cases "zExec z") (auto simp: handleSession_next_def ssh_inv_def session_return_def split: if_splits)
next
  case SDone
  then show ?thesis using assms
    by (cases "zExec z")
      (auto simp: handleSession_next_def ssh_inv_def session_return_def sendExitStatus_def split: main_pc.splits list.splits)
next
  case SBegin
  then show ?thesis using assms
    by (cases "zMain z") (auto simp: handleSession_next_def ssh_inv_def exec_start_def split: exec_pc.splits)
next
  case (SReturn env)
  then obtain cmd c r oc where oc: "zExec z = ExRunning cmd c r" "dispatchExec cfg k env cmd c r = Some oc"
    "z' = z\<lparr>zExec := ExSending (xCode oc)\<rparr>"
    using assms(2) by (auto simp: handleSession_next_def split: exec_pc.splits)
  have "xCode oc \<in> {0, 1, 2, 127}" using dispatchExec_ok [OF oc(2)] by (simp add: ok_outcome_def)
  then show ?thesis using assms(1) oc by (cases "zMain z") (auto simp: ssh_inv_def)
next
  case SSend
  then show ?thesis using assms
    by (cases "zMain z") (auto simp: handleSession_next_def ssh_inv_def split: exec_pc.splits if_splits)
next
  case SResize
  then show ?thesis using assms
    by (cases "zMain z") (auto simp: handleSession_next_def ssh_inv_def split: exec_pc.splits list.splits)
next
  case SCancel
  then have "z' = z\<lparr>zCancelled := True\<rparr>" using assms(2) by (simp add: handleSession_next_def)
  then show ?thesis using assms(1) by (intro ssh_inv_fields [OF assms(1)]) (simp_all add: ssh_inv_def)
qed

lemma ssh_inv_reach: "ssh_reach cfg k um z \<Longrightarrow> ssh_inv z"
  by (induction rule: ssh_reach.induct) (auto simp: ssh_inv_start elim!: ssh_stepE dest: ssh_inv_step)

section \<open>Ending a session\<close>








section \<open>Properties\<close>

text \<open>
  C13.  In whatever order requests, the command and the client's close happen: at most one
  command is run, at most one exit status is sent and only after the command has returned,
  with its code; at most four window changes are pending; and when the handler has returned
  the channel was closed exactly once, the context is cancelled and no command is running.
\<close>

theorem session_lifecycle:
  assumes "ssh_reach cfg k um z"
  shows "length (zRuns z) \<le> 1 \<and> length (zStatus z) \<le> 1 \<and> length (zWinchCh z) \<le> 4 \<and> zClosed z \<le> 1
    \<and> (\<forall>s \<in> set (zStatus z). s \<in> {0, 1, 2, 127} \<and> zExec z = ExFinished)
    \<and> (zMain z = MnReturned \<longrightarrow> zClosed z = 1 \<and> zCancelled z \<and> (zExec z = ExIdle \<or> zExec z = ExFinished))"
proof -
  have inv: "exec_inv (zExec z) z" "main_inv (zMain z) z" "length (zWinchCh z) \<le> 4"
    using ssh_inv_reach [OF assms] by (simp_all add: ssh_inv_def winchCap_def)
  have "length (zRuns z) \<le> 1" using inv(1) by (cases "zExec z") auto
  moreover have "length (zStatus z) \<le> 1 \<and> zClosed z \<le> 1
      \<and> (\<forall>s \<in> set (zStatus z). s \<in> {0, 1, 2, 127} \<and> zExec z = ExFinished)"
    using inv(2) by (cases "zMain z") auto
  moreover have "zMain z = MnReturned \<longrightarrow> zClosed z = 1 \<and> zCancelled z \<and> (zExec z = ExIdle \<or> zExec z = ExFinished)"
    using inv(2) by auto
  ultimately show ?thesis using inv(3) by blast
qed

definition sample_unmarshal :: unmarshal where
  "sample_unmarshal = \<lparr>umPty = (\<lambda>p. None), umWin = (\<lambda>p. Some \<lparr>wcCols = 80, wcRows = 24, wcWidthPx = 0, wcHeightPx = 0\<rparr>),
     umExec = (\<lambda>p. Some \<lparr>exCommand = string_of_bytes p\<rparr>)\<rparr>"

lemma sample_session_run:
  "\<exists>z. ssh_run sample_config sample_kernel sample_unmarshal session_start
      [SReq \<lparr>rqType = ''exec'', rqPayload = []\<rparr>, SReq \<lparr>rqType = ''exec'', rqPayload = []\<rparr>,
       SBegin, SReturn sample_env, SSend, SDone] = Some z
    \<and> zStatus z = [2] \<and> zReplies z = [(''exec'', True), (''exec'', True)] \<and> zMain z = MnReturned \<and> zRuns z = [([], 0, 0)]"
proof -
  have "splitCmd [] = Inr []" by (simp add: splitCmd_def split_init_def)
  then have "dispatchExec sample_config sample_kernel sample_env [] 0 0
      = Some (exit_with 2 [Line ''mactelnet-proxy: empty command''])"
    by (simp add: dispatchExec_def)
  then show ?thesis
    by (simp add: session_start_def handleSession_next_def handleReq_def parseExec_def sample_unmarshal_def
        req_reply_def exec_start_def execDoneCap_def session_return_def sendExitStatus_def Let_def
        string_of_bytes_def)
qed

theorem session_lifecycle_witness:
  "\<exists>z. ssh_reach sample_config sample_kernel sample_unmarshal z \<and> zMain z = MnReturned \<and> zStatus z = [2]
     \<and> zClosed z = 1 \<and> length (zRuns z) \<le> 1"
proof -
  obtain z where z: "ssh_run sample_config sample_kernel sample_unmarshal session_start
      [SReq \<lparr>rqType = ''exec'', rqPayload = []\<rparr>, SReq \<lparr>rqType = ''exec'', rqPayload = []\<rparr>,
       SBegin, SReturn sample_env, SSend, SDone] = Some z" "zStatus z = [2]" "zMain z = MnReturned"
    using sample_session_run by blast
  have reach: "ssh_reach sample_config sample_kernel sample_unmarshal z"
    by (rule ssh_run_reach [OF ssh_reach.start z(1)])
  show ?thesis using session_lifecycle [OF reach] reach z(2,3) by blast
qed



text \<open>
  Every request gets exactly one reply: true when its payload parses, false for any type
  but the three known ones (so no shell, no subsystem).  A command requested while there is
  one is also answered true, and otherwise ignored; a window change that finds four pending
  is answered true and dropped.
\<close>

theorem request_replies:
  "zReplies (handleReq um z req) = zReplies z @ [(rqType req,
      if rqType req = ''pty-req'' then umPty um (rqPayload req) \<noteq> None
      else if rqType req = ''window-change'' then umWin um (rqPayload req) \<noteq> None
      else rqType req = ''exec'' \<and> umExec um (rqPayload req) \<noteq> None)]
    \<and> (rqType req \<notin> {''pty-req'', ''window-change'', ''exec''} \<longrightarrow> handleReq um z req = req_reply z req False)
    \<and> (rqType req = ''exec'' \<and> umExec um (rqPayload req) = Some m \<longrightarrow>
        handleReq um z req = (if zStarted z then req_reply z req True
          else (req_reply z req True)\<lparr>zStarted := True, zExec := ExSpawned (exCommand m)\<rparr>))
    \<and> (rqType req = ''window-change'' \<and> umWin um (rqPayload req) = Some w \<and> 4 \<le> length (zWinchCh z) \<longrightarrow>
        handleReq um z req = req_reply z req True)"
  by (auto simp: handleReq_def req_reply_def winch_offer_def winchCap_def Let_def parsePTYReq_def parseWinChange_def
      parseExec_def split: option.split)

theorem request_replies_witness:
  "handleReq sample_unmarshal (session_start\<lparr>zStarted := True\<rparr>) \<lparr>rqType = ''exec'', rqPayload = []\<rparr>
   = req_reply (session_start\<lparr>zStarted := True\<rparr>) \<lparr>rqType = ''exec'', rqPayload = []\<rparr> True"
  using request_replies [of sample_unmarshal "session_start\<lparr>zStarted := True\<rparr>" "\<lparr>rqType = ''exec'', rqPayload = []\<rparr>"
      "\<lparr>exCommand = []\<rparr>"]
  by (simp add: sample_unmarshal_def string_of_bytes_def)

text \<open>
  A burst of window changes, while the command has not taken those before: as many as fit
  the channel stay, the first ones.  The last one, the size that the terminal has then, is
  dropped, although every request is answered true.
\<close>

theorem resize_burst:
  assumes "length (zWinchCh z) \<le> 4"
  shows "zWinchCh (foldl (handleReq um) z (map (\<lambda>p. \<lparr>rqType = ''window-change'', rqPayload = p\<rparr>) ps))
      = zWinchCh z @ take (4 - length (zWinchCh z))
          (map (\<lambda>w. \<lparr>wnCols = wcCols w, wnRows = wcRows w\<rparr>) (List.map_filter (umWin um) ps))"
proof -
  let ?offers = "\<lambda>z p. case umWin um p of None \<Rightarrow> z | Some w \<Rightarrow> winch_offer z \<lparr>wnCols = wcCols w, wnRows = wcRows w\<rparr>"
  have one: "zWinchCh (handleReq um z \<lparr>rqType = ''window-change'', rqPayload = p\<rparr>) = zWinchCh (?offers z p)" for z p
    by (simp add: handleReq_def parseWinChange_def req_reply_def split: option.split)
  show ?thesis
    using assms
  proof (induction ps arbitrary: z)
    case (Cons p ps)
    note IH = Cons.IH [of "handleReq um z \<lparr>rqType = ''window-change'', rqPayload = p\<rparr>"]
    show ?case
    proof (cases "umWin um p")
      case None
      then show ?thesis using IH one [of z p] Cons.prems by (simp add: List.map_filter_simps)
    next
      case (Some w)
      then show ?thesis
        using IH one [of z p] Cons.prems winches.offer_bounded [of z "\<lparr>wnCols = wcCols w, wnRows = wcRows w\<rparr>"]
        by (auto simp: List.map_filter_simps winches.offer_buffered winchCap_def take_Cons' Suc_diff_le)
    qed
  qed (simp add: List.map_filter_simps)
qed

theorem resize_burst_witness:
  "zWinchCh (foldl (handleReq sample_unmarshal) session_start
      (map (\<lambda>p. \<lparr>rqType = ''window-change'', rqPayload = p\<rparr>) (replicate 6 [])))
    = replicate 4 \<lparr>wnCols = 80, wnRows = 24\<rparr>"
proof -
  have "length (zWinchCh session_start) \<le> 4" by (simp add: session_start_def)
  from resize_burst [OF this, of sample_unmarshal "replicate 6 []"] show ?thesis
    by (simp add: session_start_def sample_unmarshal_def List.map_filter_simps numeral_eq_Suc)
qed

end
