(* ===== verification/Ssh_Lifecycle.thy ===== *)
theory Ssh_Lifecycle
  imports Ssh_Session
begin

text \<open>
  What an SSH session channel promises its client, as an automaton of five states, and that
  the request loop, the goroutine of the command and their channels implement it.
\<close>

section \<open>The specification\<close>

text \<open>
  A channel takes one command, runs it once, and is gone either with the exit status of that
  command or, when the client left before the status was sent, without.
\<close>

datatype chan =
    ChFresh
  | ChAsked string
  | ChRunning string
  | ChExited u32
  | ChGone "u32 option"

inductive chan_step :: "chan \<Rightarrow> chan \<Rightarrow> bool" where
  ask: "chan_step ChFresh (ChAsked cmd)"
| starts: "chan_step (ChAsked cmd) (ChRunning cmd)"
| exits: "rc \<in> {0, 1, 2, 127} \<Longrightarrow> chan_step (ChRunning cmd) (ChExited rc)"
| report: "chan_step (ChExited rc) (ChGone (Some rc))"
| unused: "chan_step ChFresh (ChGone None)"
| unreported: "chan_step (ChExited rc) (ChGone None)"

inductive chan_reach :: "chan \<Rightarrow> bool" where
  fresh: "chan_reach ChFresh"
| move: "chan_reach c \<Longrightarrow> chan_step c c' \<Longrightarrow> chan_reach c'"

inductive_simps chan_step_simps: "chan_step c (ChAsked cmd)" "chan_step c (ChRunning cmd)" "chan_step c (ChExited rc)"
  "chan_step c (ChGone st)"

section \<open>The abstraction\<close>

definition exec_chan :: "ssess \<Rightarrow> chan" where
  "exec_chan z =
    (case zExec z of
       ExIdle \<Rightarrow> ChFresh
     | ExSpawned cmd \<Rightarrow> ChAsked cmd
     | ExRunning cmd cols rows \<Rightarrow> ChRunning cmd
     | ExSending rc \<Rightarrow> ChExited (word_of_int rc)
     | ExFinished \<Rightarrow> ChExited (word_of_int (hd (zExecDone z))))"

definition chan_of :: "ssess \<Rightarrow> chan" where
  "chan_of z =
    (if zMain z = MnReturned then ChGone (case zStatus z of [] \<Rightarrow> None | rc # rcs \<Rightarrow> Some rc)
     else exec_chan z)"

lemma chan_of_start: "chan_of session_start = ChFresh"
  by (simp add: chan_of_def exec_chan_def session_start_def)

lemma chan_same:
  "zMain z' = zMain z \<Longrightarrow> zExec z' = zExec z \<Longrightarrow> zExecDone z' = zExecDone z \<Longrightarrow> zStatus z' = zStatus z \<Longrightarrow>
   chan_of z' = chan_of z"
  by (simp add: chan_of_def exec_chan_def split: exec_pc.split)

section \<open>Every step of the channel\<close>

definition follows :: "ssess \<Rightarrow> ssess \<Rightarrow> bool" where
  "follows z z' \<longleftrightarrow> chan_of z' = chan_of z \<or> chan_step (chan_of z) (chan_of z')"

lemma follows_req:
  assumes "ssh_inv z" and "zMain z = MnServe"
  shows "follows z (handleReq um z req)"
proof -
  obtain cmd ok where e: "parseExec (umExec um) (rqPayload req) = (cmd, ok)" by fastforce
  show ?thesis
  proof (cases "rqType req = ''exec'' \<and> ok \<and> \<not> zStarted z")
    case True
    then have "zExec z = ExIdle" using assms(1) by (cases "zExec z") (auto simp: ssh_inv_def)
    then show ?thesis using assms(2) True e
      by (simp add: follows_def chan_of_def exec_chan_def handleReq_def req_reply_def Let_def chan_step_simps)
  next
    case False
    have "chan_of (handleReq um z req) = chan_of z"
      by (rule chan_same) (use False e in \<open>auto simp: handleReq_def req_reply_def winch_offer_def Let_def split: prod.split\<close>)
    then show ?thesis by (simp add: follows_def)
  qed
qed

lemma follows_done:
  assumes "ssh_inv z" and "handleSession_next cfg k um z SDone = Some z'"
  shows "follows z z'"
proof -
  obtain rc rest where d: "zExecDone z = rc # rest" and m: "zMain z \<noteq> MnReturned"
    using assms(2) by (auto simp: handleSession_next_def split: main_pc.splits list.splits)
  have x: "zExec z = ExFinished" and s: "zStatus z = []"
    using assms(1) d m by (cases "zExec z"; cases "zMain z"; simp add: ssh_inv_def)+
  show ?thesis
    using assms(2) d m x s
    by (cases "zMain z") (auto simp: handleSession_next_def follows_def chan_of_def exec_chan_def session_return_def
        sendExitStatus_def chan_step_simps)
qed

lemma follows_step:
  assumes inv: "ssh_inv z" and step: "handleSession_next cfg k um z l = Some z'"
  shows "follows z z'"
proof (cases l)
  case (SReq req)
  then show ?thesis using step follows_req [OF inv] by (auto simp: handleSession_next_def split: if_splits)
next
  case SReqsClosed
  then show ?thesis using inv step
    by (cases "zExec z") (auto simp: handleSession_next_def ssh_inv_def session_return_def follows_def chan_of_def
        exec_chan_def chan_step_simps split: if_splits)
next
  case SDone
  then show ?thesis using follows_done [OF inv] step by simp
next
  case SBegin
  then show ?thesis using inv step
    by (cases "zMain z") (auto simp: handleSession_next_def ssh_inv_def exec_start_def follows_def chan_of_def
        exec_chan_def chan_step_simps split: exec_pc.splits)
next
  case (SReturn env)
  then obtain cmd c r oc where oc: "zExec z = ExRunning cmd c r" "dispatchExec cfg k env cmd c r = Some oc"
    "z' = z\<lparr>zExec := ExSending (xCode oc)\<rparr>"
    using step by (auto simp: handleSession_next_def split: exec_pc.splits)
  have "xCode oc \<in> {0, 1, 2, 127}" using dispatchExec_ok [OF oc(2)] by (simp add: ok_outcome_def)
  then show ?thesis using inv oc by (cases "zMain z") (auto simp: follows_def chan_of_def exec_chan_def chan_step_simps ssh_inv_def)
next
  case SSend
  then show ?thesis using inv step
    by (cases "zMain z") (auto simp: handleSession_next_def ssh_inv_def follows_def chan_of_def exec_chan_def
        split: exec_pc.splits if_splits)
next
  case SResize
  then show ?thesis using step
    by (auto simp: handleSession_next_def follows_def chan_of_def exec_chan_def split: exec_pc.splits list.splits)
next
  case SCancel
  then have "z' = z\<lparr>zCancelled := True\<rparr>" using step by (simp add: handleSession_next_def)
  then show ?thesis using chan_same [of z' z] by (simp add: follows_def)
qed

section \<open>Properties\<close>

text \<open>
  C12.  A session channel implements the automaton: it starts fresh, every step of its
  goroutines is one of the automaton's steps or none, under every interleaving, so that the
  states of the channel are those of one command asked for, run once, and reported once or
  not at all.
\<close>

theorem ssh_session_refines:
  assumes "ssh_reach cfg k um z"
  shows "chan_reach (chan_of z)
    \<and> (handleSession_next cfg k um z l = Some z' \<longrightarrow> chan_of z' = chan_of z \<or> chan_step (chan_of z) (chan_of z'))"
proof -
  have "chan_of z' = chan_of z \<or> chan_step (chan_of z) (chan_of z')" if "handleSession_next cfg k um z l = Some z'"
    using follows_step [OF ssh_inv_reach [OF assms] that] by (simp add: follows_def)
  moreover have "chan_reach (chan_of z)"
    using assms
  proof (induction rule: ssh_reach.induct)
    case start
    show ?case by (simp add: chan_of_start chan_reach.fresh)
  next
    case (more z z')
    then obtain l where "handleSession_next cfg k um z l = Some z'" by (blast elim: ssh_stepE)
    from follows_step [OF ssh_inv_reach [OF more(1)] this] more.IH show ?case
      by (auto simp: follows_def intro: chan_reach.move)
  qed
  ultimately show ?thesis by blast
qed

theorem ssh_session_refines_witness:
  "\<exists>z. ssh_reach sample_config sample_kernel sample_unmarshal z \<and> chan_of z = ChGone (Some 2) \<and> chan_reach (chan_of z)"
proof -
  obtain z where z: "ssh_run sample_config sample_kernel sample_unmarshal session_start
      [SReq \<lparr>rqType = ''exec'', rqPayload = []\<rparr>, SReq \<lparr>rqType = ''exec'', rqPayload = []\<rparr>,
       SBegin, SReturn sample_env, SSend, SDone] = Some z" "zStatus z = [2]" "zMain z = MnReturned"
    using sample_session_run by blast
  have reach: "ssh_reach sample_config sample_kernel sample_unmarshal z" by (rule ssh_run_reach [OF ssh_reach.start z(1)])
  then show ?thesis using ssh_session_refines [OF reach] z by (intro exI [of _ z]) (simp add: chan_of_def)
qed

end
