(* ===== verification/Ssh_Server.thy ===== *)
theory Ssh_Server
  imports Ssh_Session
begin

text \<open>
  The SSH server of \<^verbatim>\<open>src/internal/sshserver/server.go\<close> and its key files,
  \<^verbatim>\<open>src/internal/sshserver/keys.go\<close>: creation, reloading, authentication, the accept loop and
  one connection.  The functions of \<^verbatim>\<open>golang.org/x/crypto/ssh\<close> and of the key generator are
  the record \<open>ssh_lib\<close>; what the file system answers is an argument, and what is done to it
  is a list of effects.
\<close>

section \<open>Libraries and files\<close>

record ('k, 'p, 's) ssh_lib =
  slParseAuthorizedKey :: "byte list \<Rightarrow> 'k option"
  slMarshal :: "'k \<Rightarrow> byte list"
  slFingerprint :: "'k \<Rightarrow> string"
  slParsePrivateKey :: "byte list \<Rightarrow> err + 's"
  slGenerateKey :: "err + 'p"
  slMarshalPrivateKey :: "'p \<Rightarrow> err + byte list"
  slNewSigner :: "'p \<Rightarrow> err + 's"

datatype file_read = FNotExist | FError err | FData "byte list"

datatype file_effect = MkdirAll string nat | WriteFile string "byte list" nat

text \<open>A file operation in order: what reading, creating the directory and writing answer.\<close>

record file_answers =
  faRead :: file_read
  faMkdir :: "err option"
  faWrite :: "err option"

section \<open>Key files\<close>

definition authorized_stub :: "byte list" where
  "authorized_stub = bytes_of_string (''# mactelnet-proxy authorized_keys'' @ [nl] @
     ''# Append OpenSSH public keys (one per line) to grant access.'' @ [nl])"

text \<open>A line of the file: blank ones and comments are skipped, and so are those that do not parse.\<close>

definition authorized_line :: "('k, 'p, 's) ssh_lib \<Rightarrow> string \<Rightarrow> 'k option" where
  "authorized_line lib line =
    (let trimmed = TrimSpace line
     in if trimmed = [] \<or> HasPrefix trimmed ''#'' then None else slParseAuthorizedKey lib (bytes_of_string line))"

fun somes :: "'a option list \<Rightarrow> 'a list" where
  "somes [] = []"
| "somes (None # xs) = somes xs"
| "somes (Some x # xs) = x # somes xs"

lemma set_somes: "x \<in> set (somes xs) \<longleftrightarrow> Some x \<in> set xs"
  by (induction xs rule: somes.induct) auto

definition loadAuthorizedKeys ::
    "('k, 'p, 's) ssh_lib \<Rightarrow> string \<Rightarrow> file_answers \<Rightarrow> (err + 'k list) \<times> file_effect list"
where
  "loadAuthorizedKeys lib path fa =
    (case faRead fa of
       FNotExist \<Rightarrow>
         (case faMkdir fa of
            Some e \<Rightarrow> (Inl (Wrapf (''mkdir '' @ quoted (path_Dir path) @ '': '') e []), [MkdirAll (path_Dir path) 448])
          | None \<Rightarrow>
              (case faWrite fa of
                 Some e \<Rightarrow> (Inl (Wrapf (''create authorized_keys '' @ quoted path @ '': '') e []),
                   [MkdirAll (path_Dir path) 448, WriteFile path authorized_stub 384])
               | None \<Rightarrow> (Inr [], [MkdirAll (path_Dir path) 448, WriteFile path authorized_stub 384])))
     | FError e \<Rightarrow> (Inl (Wrapf (''read authorized_keys '' @ quoted path @ '': '') e []), [])
     | FData data \<Rightarrow> (Inr (somes (map (authorized_line lib) (Split (string_of_bytes data) nl))), []))"

fun keyMatch :: "('k, 'p, 's) ssh_lib \<Rightarrow> 'k \<Rightarrow> 'k list \<Rightarrow> bool" where
  "keyMatch lib offered [] = False"
| "keyMatch lib offered (k # ks) = (slMarshal lib k = slMarshal lib offered \<or> keyMatch lib offered ks)"

definition generateHostKey ::
    "('k, 'p, 's) ssh_lib \<Rightarrow> string \<Rightarrow> file_answers \<Rightarrow> (err + 's) \<times> file_effect list"
where
  "generateHostKey lib path fa =
    (case slGenerateKey lib of
       Inl e \<Rightarrow> (Inl (Wrapf ''generate ed25519: '' e []), [])
     | Inr priv \<Rightarrow>
         (case slMarshalPrivateKey lib priv of
            Inl e \<Rightarrow> (Inl (Wrapf ''marshal private key: '' e []), [])
          | Inr pemBytes \<Rightarrow>
              (case faMkdir fa of
                 Some e \<Rightarrow> (Inl (Wrapf (''mkdir '' @ quoted (path_Dir path) @ '': '') e []), [MkdirAll (path_Dir path) 448])
               | None \<Rightarrow>
                   let effects = [MkdirAll (path_Dir path) 448, WriteFile path pemBytes 384] in
                   (case faWrite fa of
                      Some e \<Rightarrow> (Inl (Wrapf (''write host key '' @ quoted path @ '': '') e []), effects)
                    | None \<Rightarrow>
                        (case slNewSigner lib priv of
                           Inl e \<Rightarrow> (Inl (Wrapf ''new signer: '' e []), effects)
                         | Inr signer \<Rightarrow> (Inr signer, effects))))))"

definition loadOrCreateHostKey ::
    "('k, 'p, 's) ssh_lib \<Rightarrow> string \<Rightarrow> file_answers \<Rightarrow> (err + 's) \<times> file_effect list"
where
  "loadOrCreateHostKey lib path fa =
    (case faRead fa of
       FNotExist \<Rightarrow> generateHostKey lib path fa
     | FError e \<Rightarrow> (Inl (Wrapf (''read host key '' @ quoted path @ '': '') e []), [])
     | FData data \<Rightarrow>
         (case slParsePrivateKey lib data of
            Inl e \<Rightarrow> (Inl (Wrapf (''parse host key '' @ quoted path @ '': '') e []), [])
          | Inr signer \<Rightarrow> (Inr signer, [])))"

section \<open>The server\<close>

record ('k, 's) Server =
  svCfg :: Config
  svSigner :: "'s option"
  svKeys :: "'k list"

definition reload ::
    "('k, 'p, 's) ssh_lib \<Rightarrow> file_answers \<Rightarrow> ('k, 's) Server \<Rightarrow> err option \<times> ('k, 's) Server \<times> file_effect list"
where
  "reload lib fa s =
    (case loadAuthorizedKeys lib (cfAuthorizedKeys (svCfg s)) fa of
       (Inl e, effects) \<Rightarrow> (Some e, s, effects)
     | (Inr ks, effects) \<Rightarrow> (None, s\<lparr>svKeys := ks\<rparr>, effects))"

definition New ::
    "('k, 'p, 's) ssh_lib \<Rightarrow> Config \<Rightarrow> file_answers \<Rightarrow> file_answers \<Rightarrow> (err + ('k, 's) Server) \<times> file_effect list"
where
  "New lib cfg hostFile keysFile =
    (let s = \<lparr>svCfg = cfg, svSigner = None, svKeys = []\<rparr>
     in case loadOrCreateHostKey lib (cfHostKeyPath cfg) hostFile of
          (Inl e, effects) \<Rightarrow> (Inl e, effects)
        | (Inr signer, effects) \<Rightarrow>
            (case reload lib keysFile s of
               (Some e, s', effects') \<Rightarrow> (Inl (Wrapf ''authorized_keys: '' e []), effects @ effects')
             | (None, s', effects') \<Rightarrow> (Inr (s'\<lparr>svSigner := Some signer\<rparr>), effects @ effects')))"

definition ReloadAuthorizedKeys ::
    "('k, 'p, 's) ssh_lib \<Rightarrow> file_answers \<Rightarrow> ('k, 's) Server \<Rightarrow> err option \<times> ('k, 's) Server \<times> file_effect list"
where
  "ReloadAuthorizedKeys lib fa s = reload lib fa s"

text \<open>The public key callback: an error, or the fingerprint that goes into the permissions.\<close>

definition authPublicKey :: "('k, 'p, 's) ssh_lib \<Rightarrow> ('k, 's) Server \<Rightarrow> string \<Rightarrow> 'k \<Rightarrow> err + string" where
  "authPublicKey lib s user key =
    (if \<not> keyMatch lib key (svKeys s) then Inl (Errorf (''ssh: unauthorized key for user '' @ quoted user))
     else Inr (slFingerprint lib key))"

section \<open>Connections\<close>

definition handshakeTimeout :: int where "handshakeTimeout = 30 * 1000000000"

datatype conn_effect =
    SetDeadline int | ClearDeadline
  | RejectChannel string | AcceptFailed | ServeSession
  | CloseConn | CloseRaw

text \<open>A new channel: its type and whether accepting it fails.\<close>

definition handle_channel :: "string \<times> err option \<Rightarrow> conn_effect" where
  "handle_channel c =
    (if fst c \<noteq> ''session'' then RejectChannel ''only session channels accepted''
     else case snd c of Some e \<Rightarrow> AcceptFailed | None \<Rightarrow> ServeSession)"

definition handleConn :: "err option \<Rightarrow> (string \<times> err option) list \<Rightarrow> conn_effect list" where
  "handleConn handshake chans =
    [SetDeadline handshakeTimeout] @
    (case handshake of
       Some e \<Rightarrow> [CloseRaw]
     | None \<Rightarrow> [ClearDeadline] @ map handle_channel chans @ [CloseConn, CloseRaw])"

text \<open>
  \<open>Serve\<close>: the connections given to a goroutine, and the result once the listener is closed;
  \<open>None\<close> while it is still accepting.
\<close>

datatype 'c accept = Accepted 'c | AcceptErr err

fun accept_loop :: "'c accept list \<Rightarrow> 'c list \<times> err option option" where
  "accept_loop [] = ([], None)"
| "accept_loop (Accepted c # rest) = (case accept_loop rest of (cs, r) \<Rightarrow> (c # cs, r))"
| "accept_loop (AcceptErr e # rest) = (if errors_Is e ErrClosed then ([], Some None) else accept_loop rest)"

definition Serve :: "Config \<Rightarrow> err option \<Rightarrow> 'c accept list \<Rightarrow> 'c list \<times> err option option" where
  "Serve cfg listen accepts =
    (case listen of
       Some e \<Rightarrow> ([], Some (Some (Wrapf (''listen '' @ cfListenAddr cfg @ '': '') e [])))
     | None \<Rightarrow> accept_loop accepts)"

definition Run ::
    "('k, 'p, 's) ssh_lib \<Rightarrow> Config \<Rightarrow> file_answers \<Rightarrow> file_answers \<Rightarrow> err option \<Rightarrow> 'c accept list \<Rightarrow> 'c list \<times> err option option"
where
  "Run lib cfg hostFile keysFile listen accepts =
    (case New lib cfg hostFile keysFile of
       (Inl e, effects) \<Rightarrow> ([], Some (Some e))
     | (Inr s, effects) \<Rightarrow> Serve (svCfg s) listen accepts)"

section \<open>Properties\<close>

lemma keyMatch_iff: "keyMatch lib key ks \<longleftrightarrow> (\<exists>k \<in> set ks. slMarshal lib k = slMarshal lib key)"
  by (induction ks) auto

lemma stub_lines:
  "Split (string_of_bytes authorized_stub) nl
    = [''# mactelnet-proxy authorized_keys'', ''# Append OpenSSH public keys (one per line) to grant access.'', []]"
  by (simp add: authorized_stub_def)

lemma comment_line: "ascii line \<Longrightarrow> hd line = CHR ''#'' \<Longrightarrow> line \<noteq> [] \<Longrightarrow> \<not> IsSpace (code (last line)) \<Longrightarrow>
  authorized_line lib line = None"
  using TrimSpace_word [of line] by (cases line) (auto simp: authorized_line_def HasPrefix_def code_def IsSpace_def)

lemma stub_no_keys: "loadAuthorizedKeys lib path \<lparr>faRead = FData authorized_stub, faMkdir = m, faWrite = w\<rparr> = (Inr [], [])"
proof -
  have "authorized_line lib ''# mactelnet-proxy authorized_keys'' = None"
    "authorized_line lib ''# Append OpenSSH public keys (one per line) to grant access.'' = None"
    by (rule comment_line; simp add: code_def IsSpace_def)+
  moreover have "authorized_line lib [] = None" by (simp add: authorized_line_def TrimSpace_def)
  ultimately show ?thesis by (simp add: loadAuthorizedKeys_def stub_lines)
qed

text \<open>
  C15.  After a load of the authorized keys a key is let in exactly when some line of the file
  that is neither blank nor a comment parses to a key with the same wire form.  A load that
  fails leaves the keys as they were; a missing file is created with a text that authorizes
  nobody, and from then on nobody is let in.
\<close>

theorem authorized_exactly:
  assumes "reload lib fa s = (r, s', effects)"
  shows "case faRead fa of
      FData data \<Rightarrow> r = None \<and> ((\<exists>fp. authPublicKey lib s' user key = Inr fp) \<longleftrightarrow>
        (\<exists>line \<in> set (Split (string_of_bytes data) nl). TrimSpace line \<noteq> [] \<and> \<not> HasPrefix (TrimSpace line) ''#''
          \<and> (\<exists>k. slParseAuthorizedKey lib (bytes_of_string line) = Some k \<and> slMarshal lib k = slMarshal lib key)))
    | FError e \<Rightarrow> r \<noteq> None \<and> s' = s
    | FNotExist \<Rightarrow> if r = None
        then authPublicKey lib s' user key = Inl (Errorf (''ssh: unauthorized key for user '' @ quoted user))
          \<and> effects = [MkdirAll (path_Dir (cfAuthorizedKeys (svCfg s))) 448, WriteFile (cfAuthorizedKeys (svCfg s)) authorized_stub 384]
          \<and> loadAuthorizedKeys lib (cfAuthorizedKeys (svCfg s)) (fa\<lparr>faRead := FData authorized_stub\<rparr>) = (Inr [], [])
        else s' = s"
proof (cases "faRead fa")
  case FNotExist
  have "loadAuthorizedKeys lib (cfAuthorizedKeys (svCfg s)) (fa\<lparr>faRead := FData authorized_stub\<rparr>) = (Inr [], [])"
    using stub_no_keys [of lib _ "faMkdir fa" "faWrite fa"] by (cases fa) simp
  then show ?thesis using assms FNotExist
    by (auto simp: reload_def loadAuthorizedKeys_def authPublicKey_def split: option.splits)
next
  case (FError e)
  then show ?thesis using assms by (auto simp: reload_def loadAuthorizedKeys_def)
next
  case (FData data)
  then have s': "r = None" "s' = s\<lparr>svKeys := somes (map (authorized_line lib) (Split (string_of_bytes data) nl))\<rparr>"
    using assms by (auto simp: reload_def loadAuthorizedKeys_def)
  have "(\<exists>fp. authPublicKey lib s' user key = Inr fp) \<longleftrightarrow>
      (\<exists>line \<in> set (Split (string_of_bytes data) nl). \<exists>k. authorized_line lib line = Some k \<and> slMarshal lib k = slMarshal lib key)"
    unfolding s'(2) authPublicKey_def keyMatch_iff set_somes Bex_def by (auto simp: set_somes image_iff) (metis set_somes)+
  then show ?thesis using s'(1) FData by (auto simp: authorized_line_def Let_def split: if_splits)
qed

definition sample_lib :: "(nat, nat, nat) ssh_lib" where
  "sample_lib = \<lparr>slParseAuthorizedKey = (\<lambda>b. if b = bytes_of_string ''key 7'' then Some 7 else None),
     slMarshal = (\<lambda>k. [of_nat k]), slFingerprint = (\<lambda>k. decimal k), slParsePrivateKey = (\<lambda>b. Inr (length b)),
     slGenerateKey = Inr 3, slMarshalPrivateKey = (\<lambda>p. Inr (replicate p 0)), slNewSigner = (\<lambda>p. Inr p)\<rparr>"

definition sample_server :: "(nat, nat) Server" where
  "sample_server = \<lparr>svCfg = sample_config, svSigner = Some 3, svKeys = []\<rparr>"

definition sample_keys :: file_answers where
  "sample_keys = \<lparr>faRead = FData (bytes_of_string (''# me'' @ [nl] @ ''key 7'')), faMkdir = None, faWrite = None\<rparr>"

theorem authorized_exactly_witness:
  "\<exists>s' effects. reload sample_lib sample_keys sample_server = (None, s', effects)
     \<and> (\<exists>fp. authPublicKey sample_lib s' ''root'' 7 = Inr fp)"
proof -
  obtain r s' effects where run: "reload sample_lib sample_keys sample_server = (r, s', effects)"
    by (cases "reload sample_lib sample_keys sample_server") auto
  have "ascii ''key 7''" by (simp add: code_def)
  then have "TrimSpace ''key 7'' = ''key 7''" by (intro TrimSpace_word) (simp_all add: code_def IsSpace_def)
  moreover have "Split (string_of_bytes (bytes_of_string (''# me'' @ [nl] @ ''key 7''))) nl = [''# me'', ''key 7'']" by simp
  ultimately show ?thesis using authorized_exactly [OF run, of "''root''" 7] run
    by (simp add: sample_keys_def sample_lib_def HasPrefix_def)
qed

text \<open>
  The host key outlives a restart: when the file is missing a key is generated and
  written, readable by its owner only, and the next start reads the same signer back and
  writes nothing.  The hypothesis is what the library documents of the two formats.
\<close>

theorem host_key_stable:
  assumes "\<And>priv pem. slMarshalPrivateKey lib priv = Inr pem \<Longrightarrow> slParsePrivateKey lib pem = slNewSigner lib priv"
    and "faRead fa = FNotExist" and "loadOrCreateHostKey lib path fa = (Inr signer, effects)"
  shows "\<exists>pem. effects = [MkdirAll (path_Dir path) 448, WriteFile path pem 384]
    \<and> loadOrCreateHostKey lib path (fa'\<lparr>faRead := FData pem\<rparr>) = (Inr signer, [])"
proof -
  have gen: "generateHostKey lib path fa = (Inr signer, effects)"
    using assms(2,3) by (simp add: loadOrCreateHostKey_def)
  obtain priv where priv: "slGenerateKey lib = Inr priv"
    using gen by (cases "slGenerateKey lib") (auto simp: generateHostKey_def)
  obtain pem where pem: "slMarshalPrivateKey lib priv = Inr pem"
    using gen priv by (cases "slMarshalPrivateKey lib priv") (auto simp: generateHostKey_def)
  have "slNewSigner lib priv = Inr signer" "effects = [MkdirAll (path_Dir path) 448, WriteFile path pem 384]"
    using gen priv pem by (auto simp: generateHostKey_def Let_def split: option.splits sum.splits)
  then show ?thesis using assms(1) [OF pem] by (intro exI [of _ pem]) (simp add: loadOrCreateHostKey_def)
qed

theorem host_key_stable_witness:
  "loadOrCreateHostKey sample_lib ''/k/h'' (sample_keys\<lparr>faRead := FData [0, 0, 0]\<rparr>) = (Inr 3, [])"
proof -
  have law: "slParsePrivateKey sample_lib pem = slNewSigner sample_lib priv"
    if "slMarshalPrivateKey sample_lib priv = Inr pem" for priv pem
    using that by (auto simp: sample_lib_def)
  have "loadOrCreateHostKey sample_lib ''/k/h'' (sample_keys\<lparr>faRead := FNotExist\<rparr>)
      = (Inr 3, [MkdirAll (path_Dir ''/k/h'') 448, WriteFile ''/k/h'' [0, 0, 0] 384])"
    by (simp add: loadOrCreateHostKey_def generateHostKey_def sample_lib_def sample_keys_def numeral_3_eq_3)
  from host_key_stable [OF law _ this, of "sample_keys"] show ?thesis by simp
qed

text \<open>
  A connection serves sessions only after its handshake has succeeded, and only on
  channels of type session: every other channel is rejected.  The deadline is set before the
  handshake and lifted before the first channel, and the connection is closed last.
\<close>

theorem connection_gate:
  "count_list (handleConn handshake chans) ServeSession
     = (if handshake = None then length (filter (\<lambda>c. c = (''session'', None)) chans) else 0)
   \<and> count_list (handleConn handshake chans) (RejectChannel ''only session channels accepted'')
     = (if handshake = None then length (filter (\<lambda>c. fst c \<noteq> ''session'') chans) else 0)
   \<and> hd (handleConn handshake chans) = SetDeadline (30 * 1000000000)
   \<and> last (handleConn handshake chans) = CloseRaw"
proof -
  have s: "count_list (map handle_channel chans) ServeSession = length (filter (\<lambda>c. c = (''session'', None)) chans)"
    by (induction chans) (auto simp: handle_channel_def split: option.split)
  have r: "count_list (map handle_channel chans) (RejectChannel ''only session channels accepted'')
      = length (filter (\<lambda>c. fst c \<noteq> ''session'') chans)"
    by (induction chans) (auto simp: handle_channel_def split: option.split)
  show ?thesis using s r
    by (cases handshake) (simp_all add: handleConn_def handshakeTimeout_def count_list_append)
qed

end
