(* ===== verification/Command_Line.thy ===== *)
theory Command_Line
  imports Ssh_Server
begin

text \<open>
  The binary, \<^verbatim>\<open>src/cmd/mactelnet-proxy\<close>: the choice of the subcommand, \<^verbatim>\<open>serve\<close> with its flags
  and environment variables, and the one-shot commands \<^verbatim>\<open>mactelnet\<close> and \<^verbatim>\<open>mndp\<close>.  The
  environment is a function from names to values, empty when unset.
\<close>

section \<open>Environment variables\<close>

type_synonym getenv = "string \<Rightarrow> string"

definition envOr :: "getenv \<Rightarrow> string \<Rightarrow> string \<Rightarrow> string" where
  "envOr env name fallback = (if env name \<noteq> [] then env name else fallback)"

text \<open>The value and the warning, if any: which variable was ignored.\<close>

definition envDurationOr :: "getenv \<Rightarrow> (string \<Rightarrow> int option) \<Rightarrow> string \<Rightarrow> int \<Rightarrow> int \<times> diag list" where
  "envDurationOr env pd name fallback =
    (if env name = [] then (fallback, [])
     else case pd (env name) of
       None \<Rightarrow> (fallback, [LineQuoted (''mactelnet-proxy: ignoring invalid duration in '' @ name @ ''='') (env name) []])
     | Some d \<Rightarrow> (d, []))"

definition envUintOr :: "getenv \<Rightarrow> string \<Rightarrow> nat \<Rightarrow> nat \<times> diag list" where
  "envUintOr env name fallback =
    (if env name = [] then (fallback, [])
     else case ParseUint (env name) 10 32 of
       Inl e \<Rightarrow> (fallback, [LineQuoted (''mactelnet-proxy: ignoring invalid uint in '' @ name @ ''='') (env name) []])
     | Inr n \<Rightarrow> (n, []))"

definition envBoolOr :: "getenv \<Rightarrow> string \<Rightarrow> bool \<Rightarrow> bool" where
  "envBoolOr env name fallback =
    (if env name = [] then fallback else ToLower (env name) \<notin> {''0'', ''false'', ''no'', ''off''})"

section \<open>serve\<close>

definition defaultKeysDir :: string where "defaultKeysDir = ''/etc/mactelnet-proxy''"
definition defaultHostKeyName :: string where "defaultHostKeyName = ''mactel_ed25519_key''"
definition defaultAuthorizedKeysName :: string where "defaultAuthorizedKeysName = ''authorized_keys''"

definition serve_flags :: "getenv \<Rightarrow> (string \<Rightarrow> int option) \<Rightarrow> flagset \<times> diag list" where
  "serve_flags env pd =
    (let (vlan, w1) = envUintOr env ''MACTELNET_PROXY_VLAN'' 0;
         (auth, w2) = envDurationOr env pd ''MACTELNET_PROXY_AUTH_TIMEOUT'' (10 * second);
         (data, w3) = envDurationOr env pd ''MACTELNET_PROXY_DATA_TIMEOUT'' 0
     in ([''listen'' \<mapsto> FString (envOr env ''MACTELNET_PROXY_LISTEN'' ''0.0.0.0:22''),
          ''keys-dir'' \<mapsto> FString (envOr env ''MACTELNET_PROXY_KEYS_DIR'' defaultKeysDir),
          ''authorized-keys'' \<mapsto> FString (envOr env ''MACTELNET_PROXY_AUTHORIZED_KEYS'' []),
          ''host-key'' \<mapsto> FString (envOr env ''MACTELNET_PROXY_HOST_KEY'' []),
          ''interface'' \<mapsto> FString (envOr env ''MACTELNET_PROXY_INTERFACE'' []),
          ''vlan'' \<mapsto> FUint vlan, ''auth-timeout'' \<mapsto> FDuration auth, ''data-timeout'' \<mapsto> FDuration data,
          ''debug'' \<mapsto> FBool (envBoolOr env ''MACTELNET_PROXY_DEBUG'' False), ''version'' \<mapsto> FBool False],
         w1 @ w2 @ w3))"

record serve_plan =
  spConfig :: Config
  spAuthTimeout :: int
  spDataTimeout :: int
  spDebug :: bool

definition or_in_dir :: "string \<Rightarrow> string \<Rightarrow> string \<Rightarrow> string" where
  "or_in_dir path dir name = (if path = [] then path_join dir name else path)"

text \<open>
  \<open>runServe\<close> up to the start of the server: an exit code with what is printed, or the plan;
  before either, the warnings about environment variables.
\<close>

definition serve_setup ::
    "getenv \<Rightarrow> (string \<Rightarrow> int option) \<Rightarrow> string \<Rightarrow> string list \<Rightarrow> diag list \<times> (int \<times> written list + serve_plan)"
where
  "serve_setup env pd version args =
    (case serve_flags env pd of
       (fs0, warnings) \<Rightarrow>
         (case flag_Parse pd fs0 args of
            Inl e \<Rightarrow> (warnings @ flag_diags [Line ''Usage of serve:'', FlagDefaults fs0] e, Inl (2, []))
          | Inr (fs, pos) \<Rightarrow>
              if get_bool fs ''version'' then (warnings, Inl (0, [OText (''mactelnet-proxy '' @ version @ [nl])]))
              else if get_uint fs ''vlan'' > 4094 then
                (warnings @ [Line (''mactelnet-proxy: invalid -vlan '' @ decimal (get_uint fs ''vlan'') @ '' (must be 0''
                   @ [CHR 0xE2, CHR 0x80, CHR 0x93] @ ''4094)'')], Inl (2, []))
              else (warnings, Inr
                \<lparr>spConfig = \<lparr>cfListenAddr = get_string fs ''listen'',
                   cfHostKeyPath = or_in_dir (get_string fs ''host-key'') (get_string fs ''keys-dir'') defaultHostKeyName,
                   cfAuthorizedKeys = or_in_dir (get_string fs ''authorized-keys'') (get_string fs ''keys-dir'')
                     defaultAuthorizedKeysName,
                   cfIface = get_string fs ''interface'', cfVlanID = of_nat (get_uint fs ''vlan'')\<rparr>,
                 spAuthTimeout = get_duration fs ''auth-timeout'', spDataTimeout = get_duration fs ''data-timeout'',
                 spDebug = get_bool fs ''debug''\<rparr>)))"

text \<open>The goroutine that reloads the keys on SIGHUP: the server afterwards and the errors logged.\<close>

fun hup_loop ::
    "('k, 'p, 's) ssh_lib \<Rightarrow> ('k, 's) Server \<Rightarrow> file_answers list \<Rightarrow> ('k, 's) Server \<times> err list"
where
  "hup_loop lib s [] = (s, [])"
| "hup_loop lib s (fa # fas) =
    (case ReloadAuthorizedKeys lib fa s of
       (r, s', effects) \<Rightarrow> (case hup_loop lib s' fas of
         (s2, errs) \<Rightarrow> (s2, (case r of None \<Rightarrow> errs | Some e \<Rightarrow> e # errs))))"

text \<open>
  \<open>runServe\<close>: the schedules it configures (\<open>None\<close> inside is a hang in \<open>Configure\<close>), the
  server, and the exit code once it has returned.
\<close>

datatype ('k, 's, 'c) serve_end =
    ServeExit int "written list"
  | ServeHang
  | ServeUp schedules "('k, 's) Server" "'c list" "int option"

definition runServe ::
    "('k, 'p, 's) ssh_lib \<Rightarrow> getenv \<Rightarrow> (string \<Rightarrow> int option) \<Rightarrow> string \<Rightarrow> string list \<Rightarrow> file_answers \<Rightarrow>
     file_answers \<Rightarrow> file_answers list \<Rightarrow> err option \<Rightarrow> 'c accept list \<Rightarrow> diag list \<times> ('k, 's, 'c) serve_end"
where
  "runServe lib env pd version args hostFile keysFile hups listen accepts =
    (case serve_setup env pd version args of
       (warnings, Inl (rc, out)) \<Rightarrow> (warnings, ServeExit rc out)
     | (warnings, Inr plan) \<Rightarrow>
         (warnings,
          case Configure (spAuthTimeout plan) (spDataTimeout plan) of
            None \<Rightarrow> ServeHang
          | Some sched \<Rightarrow>
              (case New lib (spConfig plan) hostFile keysFile of
                 (Inl e, effects) \<Rightarrow> ServeExit 1 []
               | (Inr server, effects) \<Rightarrow>
                   (case Serve (spConfig plan) listen accepts of
                      (conns, r) \<Rightarrow> ServeUp sched (fst (hup_loop lib server hups)) conns
                        (map_option (\<lambda>e. if e = None then 0 else 1) r)))))"

section \<open>mactelnet\<close>

text \<open>\<open>getTermSize\<close>: \<open>ioctl\<close> is what the system call answers, rows first.\<close>

definition getTermSize :: "(u16 \<times> u16) option \<Rightarrow> u16 \<times> u16" where
  "getTermSize ioctl = (case ioctl of None \<Rightarrow> (0, 0) | Some (row, col) \<Rightarrow> (col, row))"

definition cli_mactelnet_flags :: flagset where
  "cli_mactelnet_flags = [''u'' \<mapsto> FString [], ''i'' \<mapsto> FString [], ''p'' \<mapsto> FString [], ''vlan'' \<mapsto> FUint 0]"

definition cli_mactelnet_usage :: "diag list" where
  "cli_mactelnet_usage =
    [Line ''usage: mactelnet-proxy mactelnet -u USER -i IFACE [-p PASS] MAC'', Line [], FlagDefaults cli_mactelnet_flags,
     Line [], Line ''If -p is omitted, the MACTELNET_PASSWORD environment variable is used.'',
     Line ''MAC is the colon-separated EUI-48 address of the target MikroTik.'',
     Line ''Note: stdin is line-buffered (no raw TTY support yet).'']"

definition cli_open :: "getenv \<Rightarrow> (string \<Rightarrow> int option) \<Rightarrow> (u16 \<times> u16) option \<Rightarrow> string list \<Rightarrow> diag list + open_call" where
  "cli_open env pd ioctl args =
    (case flag_Parse pd cli_mactelnet_flags args of
       Inl e \<Rightarrow> Inl (flag_diags cli_mactelnet_usage e)
     | Inr (fs, pos) \<Rightarrow>
         if get_string fs ''u'' = [] \<or> get_string fs ''i'' = [] \<or> length pos \<noteq> 1 then Inl cli_mactelnet_usage
         else if get_uint fs ''vlan'' > 4094 then
           Inl [Line ''mactelnet-proxy: -vlan must be in 1..4094 (or 0 for untagged)'']
         else
           let pass = get_string fs ''p''; password = (if pass = [] then env ''MACTELNET_PASSWORD'' else pass)
           in if password = [] then Inl [Line ''mactelnet-proxy: password required (use -p or MACTELNET_PASSWORD)'']
              else case getTermSize ioctl of (cols, rows) \<Rightarrow>
                Inr \<lparr>ocIface = get_string fs ''i'', ocMac = hd pos, ocUser = get_string fs ''u'', ocPassword = password,
                  ocCols = cols, ocRows = rows, ocVlanID = of_nat (get_uint fs ''vlan'')\<rparr>)"

text \<open>
  The whole subcommand.  \<open>winch\<close> is what the system call answers at each window-change
  signal; a session that opened is closed by the deferred call.
\<close>

definition runMactelnet ::
    "getenv \<Rightarrow> (string \<Rightarrow> int option) \<Rightarrow> (u16 \<times> u16) option \<Rightarrow> (open_call \<Rightarrow> err option) \<Rightarrow>
     (u16 \<times> u16) option list \<Rightarrow> pump_end \<Rightarrow> string list \<Rightarrow> outcome"
where
  "runMactelnet env pd ioctl opn winch pump args =
    (case cli_open env pd ioctl args of
       Inl errs \<Rightarrow> exit_with 2 errs
     | Inr call \<Rightarrow>
         (case opn call of
            Some e \<Rightarrow> (exit_with 1 [LineErr ''mactelnet-proxy: open: '' e])\<lparr>xOpen := Some call\<rparr>
          | None \<Rightarrow>
              (case (case pump of
                   PumpCtxDone \<Rightarrow> (0, [])
                 | PumpReturned None \<Rightarrow> (0, [Line ''Connection closed.''])
                 | PumpReturned (Some e) \<Rightarrow>
                     if quiet_end e then (0, [Line ''Connection closed.''])
                     else (1, [LineErr ''mactelnet-proxy: '' (case e of PumpErr e \<Rightarrow> e | PumpClosedPipe \<Rightarrow> ErrClosed)]))
               of (rc, errs) \<Rightarrow>
                 (exit_with rc errs)\<lparr>xOpen := Some call, xResized := map getTermSize winch, xClosed := 1\<rparr>)))"

section \<open>mndp\<close>

definition cli_mndp_usage :: "diag list" where
  "cli_mndp_usage =
    [Line ''usage: mactelnet-proxy mndp [-t SECONDS] [-i IFACE] [-j]'', Line [], FlagDefaults (mndp_flags []), Line [],
     Line ''Listens on UDP/5678 and prompts nearby MikroTiks to announce.'']"

definition printTable :: "Neighbor list \<Rightarrow> string" where
  "printTable ns = [nl, CHR 0x1B] @ ''[1m'' @ mndp_header @ [CHR 0x1B] @ ''[m'' @ [nl] @ concat (map mndp_row ns)"

definition runMndp :: "exec_env \<Rightarrow> string list \<Rightarrow> outcome option" where
  "runMndp env args =
    (case flag_Parse (eParseDuration env) (mndp_flags []) args of
       Inl e \<Rightarrow> Some (exit_with 2 (flag_diags cli_mndp_usage e))
     | Inr (fs, pos) \<Rightarrow>
         if get_int fs ''t'' \<le> 0 then Some (exit_with 2 [Line ''mactelnet-proxy: -t must be positive''])
         else
           let prelude = (if \<not> get_bool fs ''j'' then [Line ''Searching for MAC-Telnet devices... Abort with CTRL+C.''] else [])
           in (case Discover (eListener env) (eBcast env (get_string fs ''i'')) (eStart env)
                (mndp_window (get_int fs ''t'')) (eOrder env) (eTurns env) of
              None \<Rightarrow> None
            | Some (sent, Some e, ns) \<Rightarrow>
                Some ((exit_with 1 (prelude @ [LineDiscover ''mactelnet-proxy: '' e]))\<lparr>xSent := sent\<rparr>)
            | Some (sent, None, ns) \<Rightarrow>
                if get_bool fs ''j'' then
                  (case eEncode env of
                     Some e \<Rightarrow> Some ((exit_with 1 (prelude @ [LineErr ''mactelnet-proxy: encode: '' e]))\<lparr>xSent := sent\<rparr>)
                   | None \<Rightarrow> Some ((exit_with 0 prelude)\<lparr>xOut := [OJson (JList (map neighbor_json ns))], xSent := sent\<rparr>))
                else Some ((exit_with 0 prelude)\<lparr>xOut := [OText (printTable ns)], xSent := sent\<rparr>)))"

section \<open>main\<close>

datatype subcommand =
    CmdServe "string list" | CmdMactelnet "string list" | CmdMndp "string list"
  | CmdVersion | CmdHelp | CmdUnknown string

definition main_command :: "string list \<Rightarrow> subcommand" where
  "main_command args0 =
    (let (sub, args) = (if args0 \<noteq> [] \<and> \<not> HasPrefix (hd args0) ''-'' then (hd args0, tl args0) else ([], args0))
     in if sub = [] \<or> sub = ''serve'' then CmdServe args
        else if sub = ''mactelnet'' then CmdMactelnet args
        else if sub = ''mndp'' then CmdMndp args
        else if sub = ''version'' then CmdVersion
        else if sub = ''help'' \<or> sub = ''-h'' \<or> sub = ''--help'' then CmdHelp
        else CmdUnknown sub)"

definition printRootUsage :: "string list" where
  "printRootUsage =
    [''usage: mactelnet-proxy [serve|mactelnet|mndp|version|help] [flags]'', [],
     ''  serve      run the embedded SSH server (default)'',
     ''  mactelnet  open one MAC-Telnet session and pipe stdio'',
     ''  mndp       run MNDP discovery and print neighbors'',
     ''  version    print version and exit'', [],
     ''Run `mactelnet-proxy <subcommand> -h` for subcommand-specific flags.'']"

text \<open>What the three subcommands without work of their own do.\<close>

definition main_simple :: "string \<Rightarrow> subcommand \<Rightarrow> outcome option" where
  "main_simple version c =
    (case c of
       CmdVersion \<Rightarrow> Some ((exit_with 0 [])\<lparr>xOut := [OText (''mactelnet-proxy '' @ version @ [nl])]\<rparr>)
     | CmdHelp \<Rightarrow> Some ((exit_with 0 [])\<lparr>xOut := map (\<lambda>l. OText (l @ [nl])) printRootUsage\<rparr>)
     | CmdUnknown sub \<Rightarrow>
         Some (exit_with 2 ([LineQuoted ''mactelnet-proxy: unknown subcommand '' sub [], Line []] @ map Line printRootUsage))
     | _ \<Rightarrow> None)"

section \<open>What the flags choose\<close>

text \<open>String flags given on the command line: the last value of each, else what was there.\<close>

definition chosen :: "(string \<times> string) list \<Rightarrow> string \<Rightarrow> string \<Rightarrow> string" where
  "chosen opts name fallback = (case map_of (rev opts) name of Some x \<Rightarrow> x | None \<Rightarrow> fallback)"

lemma set_flags_strings:
  assumes "\<forall>(name, x) \<in> set opts. plain_name name \<and> (\<exists>s. fs name = Some (FString s))"
  shows "set_flags pd fs opts = Some (fs ++ map_of (rev (map (\<lambda>(name, x). (name, FString x)) opts)))"
  using assms
proof (induction opts arbitrary: fs)
  case (Cons opt opts)
  obtain name x where opt: "opt = (name, x)" by (cases opt)
  obtain s where s: "plain_name name" "fs name = Some (FString s)" using Cons.prems by (auto simp: opt)
  have "set_flags pd (fs(name \<mapsto> FString x)) opts
      = Some (fs(name \<mapsto> FString x) ++ map_of (rev (map (\<lambda>(name, x). (name, FString x)) opts)))"
    using Cons.prems by (intro Cons.IH) (auto simp: opt)
  then show ?case using s by (simp add: opt)
qed simp

lemma map_of_strings: "map_of (rev (map (\<lambda>(name, x). (name, FString x)) opts)) name
    = map_option FString (map_of (rev opts) name)"
proof -
  have "map_of (map (\<lambda>(name, x). (name, FString x)) l) name = map_option FString (map_of l name)" for l
    by (induction l) auto
  then show ?thesis by (simp add: rev_map)
qed

definition serve_strings :: "string set" where
  "serve_strings = {''listen'', ''keys-dir'', ''authorized-keys'', ''host-key'', ''interface''}"

lemma serve_flags_strings:
  "name \<in> serve_strings \<Longrightarrow> plain_name name \<and> (\<exists>s. fst (serve_flags env pd) name = Some (FString s))"
  by (auto simp: serve_strings_def serve_flags_def plain_name_def split: prod.split)

lemma serve_parse:
  assumes "\<forall>(name, x) \<in> set opts. name \<in> serve_strings"
  shows "flag_Parse pd (fst (serve_flags env pd)) (option_args opts)
    = Inr (fst (serve_flags env pd) ++ map_of (rev (map (\<lambda>(name, x). (name, FString x)) opts)), [])"
proof -
  have "set_flags pd (fst (serve_flags env pd)) opts
      = Some (fst (serve_flags env pd) ++ map_of (rev (map (\<lambda>(name, x). (name, FString x)) opts)))"
    using assms serve_flags_strings by (intro set_flags_strings) fastforce
  from flag_Parse_options [OF this, of "[]"] show ?thesis by (simp add: flag_Parse_positional)
qed

lemma get_string_over:
  "get_string (fs ++ map_of (rev (map (\<lambda>(name, x). (name, FString x)) opts))) name
    = chosen opts name (get_string fs name)"
  by (auto simp: get_string_def chosen_def map_add_def map_of_strings split: option.split)

lemma not_chosen:
  assumes "\<forall>(name, x) \<in> set opts. name \<in> serve_strings" and "name \<notin> serve_strings"
  shows "(fs ++ map_of (rev (map (\<lambda>(name, x). (name, FString x)) opts))) name = fs name"
proof -
  have "map_of (rev opts) name = None" using assms by (force simp: map_of_eq_None_iff)
  then show ?thesis by (simp add: map_add_def map_of_strings)
qed





text \<open>The keys that a load gives, if it succeeds.\<close>

definition load_result :: "('k, 'p, 's) ssh_lib \<Rightarrow> Config \<Rightarrow> file_answers \<Rightarrow> 'k list option" where
  "load_result lib cfg fa =
    (case fst (loadAuthorizedKeys lib (cfAuthorizedKeys cfg) fa) of Inl e \<Rightarrow> None | Inr ks \<Rightarrow> Some ks)"

section \<open>Properties\<close>

text \<open>
  The server's configuration: of the command line, the environment and the built-in
  default the first that says something decides, the last of repeated flags winning, and the
  two key files lie in the keys directory unless they are named themselves.
\<close>

theorem serve_precedence:
  assumes "\<forall>(name, x) \<in> set opts. name \<in> serve_strings"
    and "env ''MACTELNET_PROXY_VLAN'' = []" and "env ''MACTELNET_PROXY_AUTH_TIMEOUT'' = []"
    and "env ''MACTELNET_PROXY_DATA_TIMEOUT'' = []"
  shows "\<exists>plan. serve_setup env pd version (option_args opts) = ([], Inr plan)
    \<and> cfListenAddr (spConfig plan) = chosen opts ''listen'' (envOr env ''MACTELNET_PROXY_LISTEN'' ''0.0.0.0:22'')
    \<and> cfIface (spConfig plan) = chosen opts ''interface'' (envOr env ''MACTELNET_PROXY_INTERFACE'' [])
    \<and> (let dir = chosen opts ''keys-dir'' (envOr env ''MACTELNET_PROXY_KEYS_DIR'' ''/etc/mactelnet-proxy'');
           host = chosen opts ''host-key'' (envOr env ''MACTELNET_PROXY_HOST_KEY'' []);
           auth = chosen opts ''authorized-keys'' (envOr env ''MACTELNET_PROXY_AUTHORIZED_KEYS'' [])
       in cfHostKeyPath (spConfig plan) = (if host = [] then path_join dir ''mactel_ed25519_key'' else host)
        \<and> cfAuthorizedKeys (spConfig plan) = (if auth = [] then path_join dir ''authorized_keys'' else auth))
    \<and> cfVlanID (spConfig plan) = 0 \<and> spAuthTimeout plan = 10 * second \<and> spDataTimeout plan = 0"
proof -
  let ?base = "fst (serve_flags env pd)"
  let ?all = "?base ++ map_of (rev (map (\<lambda>(name, x). (name, FString x)) opts))"
  have w: "serve_flags env pd = (?base, [])"
    using assms(2-4) by (simp add: serve_flags_def envUintOr_def envDurationOr_def)
  have other: "?all ''vlan'' = ?base ''vlan''" "?all ''version'' = ?base ''version''"
    "?all ''auth-timeout'' = ?base ''auth-timeout''" "?all ''data-timeout'' = ?base ''data-timeout''"
    by (rule not_chosen [OF assms(1)], simp add: serve_strings_def)+
  have get: "get_bool ?all ''version'' = False" "get_uint ?all ''vlan'' = 0"
    "get_duration ?all ''auth-timeout'' = 10 * second" "get_duration ?all ''data-timeout'' = 0"
    unfolding get_bool_def get_uint_def get_duration_def other
    using assms(2-4) by (simp_all add: serve_flags_def envUintOr_def envDurationOr_def)
  have strings: "get_string ?base ''listen'' = envOr env ''MACTELNET_PROXY_LISTEN'' ''0.0.0.0:22''"
    "get_string ?base ''keys-dir'' = envOr env ''MACTELNET_PROXY_KEYS_DIR'' defaultKeysDir"
    "get_string ?base ''authorized-keys'' = envOr env ''MACTELNET_PROXY_AUTHORIZED_KEYS'' []"
    "get_string ?base ''host-key'' = envOr env ''MACTELNET_PROXY_HOST_KEY'' []"
    "get_string ?base ''interface'' = envOr env ''MACTELNET_PROXY_INTERFACE'' []"
    by (simp_all add: get_string_def serve_flags_def split: prod.split)
  have "flag_Parse pd ?base (option_args opts) = Inr (?all, [])" by (rule serve_parse [OF assms(1)])
  then show ?thesis
    by (subst serve_setup_def, subst w)
      (simp add: get get_string_over strings or_in_dir_def defaultKeysDir_def defaultHostKeyName_def
        defaultAuthorizedKeysName_def Let_def)
qed

theorem serve_precedence_witness:
  "\<exists>plan. serve_setup (\<lambda>n. if n = ''MACTELNET_PROXY_KEYS_DIR'' then ''/keys'' else []) (\<lambda>s. None) ''dev''
       [''-listen'', '':2222'', ''-listen'', '':22''] = ([], Inr plan)
     \<and> cfListenAddr (spConfig plan) = '':22'' \<and> cfHostKeyPath (spConfig plan) = ''/keys/mactel_ed25519_key''"
proof -
  have "plain_part ''keys''" "plain_part ''mactel_ed25519_key''" by (simp_all add: plain_part_def)
  then have "path_join ''/keys'' ''mactel_ed25519_key'' = ''/keys/mactel_ed25519_key''"
    using path_join_plain [of "[''keys'']" "''mactel_ed25519_key''"] by simp
  then show ?thesis
    using serve_precedence [of "[(''listen'', '':2222''), (''listen'', '':22'')]"
        "\<lambda>n. if n = ''MACTELNET_PROXY_KEYS_DIR'' then ''/keys'' else []" "\<lambda>s. None" "''dev''"]
    by (auto simp: serve_strings_def option_args_def chosen_def envOr_def Let_def)
qed

text \<open>
  The first argument chooses the subcommand unless it begins with a dash; without one it
  is \<^verbatim>\<open>serve\<close>.  So \<^verbatim>\<open>-h\<close> and \<^verbatim>\<open>--help\<close> alone never print the root usage, which they are
  listed for: they reach \<^verbatim>\<open>serve\<close>, which prints its own flags and exits with 2.
\<close>

theorem main_chooses:
  "main_command [] = CmdServe []
    \<and> (HasPrefix a ''-'' \<longrightarrow> main_command (a # args) = CmdServe (a # args))
    \<and> main_command (''serve'' # args) = CmdServe args
    \<and> main_command (''mactelnet'' # args) = CmdMactelnet args
    \<and> main_command (''mndp'' # args) = CmdMndp args
    \<and> main_command (''help'' # args) = CmdHelp
    \<and> (main_command (sub # args) = CmdUnknown u \<longrightarrow> u = sub
        \<and> sub \<notin> {[], ''serve'', ''mactelnet'', ''mndp'', ''version'', ''help''}
        \<and> (\<exists>oc. main_simple version (CmdUnknown u) = Some oc \<and> xCode oc = 2))
    \<and> (flag \<in> {''-h'', ''--help'', ''-help''} \<longrightarrow> main_command [flag] = CmdServe [flag]
        \<and> snd (serve_setup env pd version [flag]) = Inl (2, []))"
proof -
  have "snd (serve_setup env pd version [flag]) = Inl (2, [])" if "flag \<in> {''-h'', ''--help'', ''-help''}"
  proof -
    obtain fs0 ws where f: "serve_flags env pd = (fs0, ws)" by (cases "serve_flags env pd")
    have "fs0 ''h'' = None" "fs0 ''help'' = None"
      using f by (auto simp: serve_flags_def split: prod.splits)
    then have "flag_Parse pd fs0 [flag] = Inl HelpRequested"
      using that by (subst flag_Parse.simps) (auto simp: parseOne_def cut_equals_def)
    then show ?thesis by (simp add: serve_setup_def f)
  qed
  then show ?thesis
    by (auto simp: main_command_def HasPrefix_def main_simple_def Let_def split: if_splits)
qed

theorem main_chooses_witness:
  "main_command [''-h''] = CmdServe [''-h''] \<and> snd (serve_setup (\<lambda>n. []) (\<lambda>s. None) ''dev'' [''-h'']) = Inl (2, [])"
  using main_chooses [where flag = "''-h''" and env = "\<lambda>n. []" and pd = "\<lambda>s. None" and version = "''dev''"] by simp

text \<open>
  However often the keys are reloaded, the server uses those of the last load that
  succeeded (at the start, those it was created with), and nothing else of it changes; every
  failed load is logged.
\<close>

theorem reloads_keep_last_good:
  "svKeys (fst (hup_loop lib s fas)) = last (svKeys s # somes (map (load_result lib (svCfg s)) fas))
    \<and> svCfg (fst (hup_loop lib s fas)) = svCfg s \<and> svSigner (fst (hup_loop lib s fas)) = svSigner s
    \<and> length (snd (hup_loop lib s fas)) + length (somes (map (load_result lib (svCfg s)) fas)) = length fas"
proof (induction fas arbitrary: s)
  case (Cons fa fas)
  show ?case
  proof (cases "fst (loadAuthorizedKeys lib (cfAuthorizedKeys (svCfg s)) fa)")
    case (Inl e)
    then show ?thesis using Cons.IH [of s]
      by (cases "loadAuthorizedKeys lib (cfAuthorizedKeys (svCfg s)) fa")
        (simp add: ReloadAuthorizedKeys_def reload_def load_result_def case_prod_beta)
  next
    case (Inr ks)
    then show ?thesis using Cons.IH [of "s\<lparr>svKeys := ks\<rparr>"]
      by (cases "loadAuthorizedKeys lib (cfAuthorizedKeys (svCfg s)) fa")
        (simp add: ReloadAuthorizedKeys_def reload_def load_result_def case_prod_beta)
  qed
qed simp

text \<open>
  The one-shot \<^verbatim>\<open>mactelnet\<close> opens a session only with a user, an interface, a VLAN ID of
  at most 4094 and a password that is not empty: the flag's, else the environment variable's.
\<close>

theorem cli_open_checked:
  assumes "cli_open env pd ioctl args = Inr call"
  shows "ocUser call \<noteq> [] \<and> ocIface call \<noteq> [] \<and> unat (ocVlanID call) \<le> 4094 \<and> ocPassword call \<noteq> []
    \<and> (\<exists>fs. flag_Parse pd cli_mactelnet_flags args = Inr (fs, [ocMac call])
        \<and> ocPassword call = (if get_string fs ''p'' = [] then env ''MACTELNET_PASSWORD'' else get_string fs ''p''))"
proof -
  obtain fs pos where p: "flag_Parse pd cli_mactelnet_flags args = Inr (fs, pos)"
    using assms by (auto simp: cli_open_def split: sum.splits)
  have c: "get_string fs ''u'' \<noteq> []" "get_string fs ''i'' \<noteq> []" "length pos = 1" "get_uint fs ''vlan'' \<le> 4094"
    "call = \<lparr>ocIface = get_string fs ''i'', ocMac = hd pos, ocUser = get_string fs ''u'',
       ocPassword = (if get_string fs ''p'' = [] then env ''MACTELNET_PASSWORD'' else get_string fs ''p''),
       ocCols = fst (getTermSize ioctl), ocRows = snd (getTermSize ioctl), ocVlanID = of_nat (get_uint fs ''vlan'')\<rparr>"
    "(if get_string fs ''p'' = [] then env ''MACTELNET_PASSWORD'' else get_string fs ''p'') \<noteq> []"
    using assms p by (auto simp: cli_open_def Let_def split: if_splits prod.splits)
  have "pos = [hd pos]" using c(3) by (cases pos) auto
  moreover have "unat (of_nat (get_uint fs ''vlan'') :: u16) = get_uint fs ''vlan''"
    using c(4) by (simp add: unat_of_nat)
  ultimately show ?thesis using p c by auto
qed

theorem cli_open_checked_witness:
  "\<exists>call. cli_open (\<lambda>n. ''secret'') (\<lambda>s. None) None [''-u'', ''admin'', ''-i'', ''eth0'', ''00:11:22:33:44:55''] = Inr call
     \<and> ocPassword call \<noteq> [] \<and> ocMac call = ''00:11:22:33:44:55''"
proof -
  let ?args = "[''-u'', ''admin'', ''-i'', ''eth0'', ''00:11:22:33:44:55'']"
  have "flag_Parse (\<lambda>s. None) cli_mactelnet_flags (option_args [(''u'', ''admin''), (''i'', ''eth0'')] @ [''00:11:22:33:44:55''])
      = Inr (cli_mactelnet_flags(''u'' \<mapsto> FString ''admin'', ''i'' \<mapsto> FString ''eth0''), [''00:11:22:33:44:55''])"
    by (rule trans [OF flag_Parse_options positional_last])
      (simp_all add: cli_mactelnet_flags_def plain_name_def positional_def)
  then have p: "flag_Parse (\<lambda>s. None) cli_mactelnet_flags ?args
      = Inr (cli_mactelnet_flags(''u'' \<mapsto> FString ''admin'', ''i'' \<mapsto> FString ''eth0''), [''00:11:22:33:44:55''])"
    by (simp add: option_args_def)
  then obtain call where call: "cli_open (\<lambda>n. ''secret'') (\<lambda>s. None) None ?args = Inr call"
    by (simp add: cli_open_def cli_mactelnet_flags_def get_string_def get_uint_def getTermSize_def)
  show ?thesis using cli_open_checked [OF call] call p by auto
qed


end
