(* ===== verification/Spec2Isabelle.thy ===== *)
theory Spec2Isabelle
  imports Prelude Protocol Sequencing Frame Link Session Session_Facts Session_Properties Hash Auth
    Mtwei Mtwei_Facts Mtwei_Properties Mtwei_Sample Mac_Text Mndp_Parser Mndp_Discover Mndp_Window Handshake System
    System_Sequential System_Facts System_Wire System_Properties Sockets Descriptors Peer System_Peer Mac_Order
    Text Flags Exec_Line Prompt Terminal_Input Paths Commands Terminal_Output Terminal_Pump Ifaces Dispatch Ssh_Session Ssh_Lifecycle Ssh_Server Command_Line
begin

text \<open>
  mactelnet-proxy gives shell access to MikroTik devices that can only be reached on layer 2.
  An SSH client runs \<^verbatim>\<open>mactelnet -u USER MAC\<close> as an exec command; the proxy opens a MAC-Telnet
  session, a stop-and-wait protocol in broadcast UDP datagrams on a raw socket, logs in with
  MD5 or EC-SRP, and copies bytes between the SSH channel and the session.  \<^verbatim>\<open>mndp\<close> discovers
  devices, \<^verbatim>\<open>ifaces\<close> lists the interfaces of the host.  The same engines are subcommands of
  the binary.

  \<^bold>\<open>Parts and theories.\<close>

  \<^item> \<^verbatim>\<open>internal/mactelnet/protocol.go\<close> and \<^verbatim>\<open>seq.go\<close>: theories \<open>Protocol\<close> (headers, control
    records) and \<open>Sequencing\<close> (byte counters, retransmit schedules).
  \<^item> \<^verbatim>\<open>internal/mactelnet/conn.go\<close>: \<open>Frame\<close> (\<open>buildFrame\<close>, the receiver's filter), \<open>Link\<close> (facts
    about both), \<open>Sockets\<close> (opening, options, binding, timeouts and closing as lists of system
    calls), \<open>Descriptors\<close> (the sockets of a session and of the discovery over their life),
    \<open>Mac_Text\<close> (\<open>parseMAC\<close>), \<open>Mac_Order\<close> (addresses in the order of their texts).
  \<^item> \<^verbatim>\<open>auth.go\<close>, \<^verbatim>\<open>mtwei.go\<close>: \<open>Hash\<close> (SHA-256 and MD5 of the standard library), \<open>Auth\<close>, \<open>Mtwei\<close>,
    \<open>Mtwei_Facts\<close>, \<open>Mtwei_Properties\<close>, \<open>Mtwei_Sample\<close> (a computed client key).
  \<^item> \<^verbatim>\<open>session.go\<close>, \<^verbatim>\<open>loop.go\<close>: \<open>Session\<close> (the record of a session and each operation as a
    function), \<open>Session_Facts\<close>, \<open>Session_Properties\<close>; \<open>Handshake\<close> (the handshake as tasks with
    their continuations), \<open>System\<close> (all goroutines of a session, interleaved step by step),
    \<open>System_Facts\<close>, \<open>System_Wire\<close>, \<open>System_Properties\<close>, \<open>System_Sequential\<close> (the functions of
    \<open>Session\<close> are runs of the system); \<open>Peer\<close> and \<open>System_Peer\<close> (a device that takes DATA by
    its counter, and what it reads of the frames of a session).
  \<^item> \<^verbatim>\<open>internal/mndp\<close>: \<open>Mndp_Parser\<close>, \<open>Mndp_Discover\<close>, \<open>Mndp_Window\<close> (the
    discovery ends).
  \<^item> \<^verbatim>\<open>internal/sshserver/exec.go\<close>: \<open>Exec_Line\<close> (payloads, \<open>splitCmd\<close>), \<open>Prompt\<close> (the password
    prompt over \<^verbatim>\<open>bufio\<close>, and the \<^verbatim>\<open>io.Copy\<close> that takes over), \<open>Terminal_Input\<close> (from that copy to
    the device), \<open>Commands\<close> (\<open>execMactelnet\<close>, \<open>execMndp\<close>), \<open>Terminal_Output\<close> (\<open>Session.Read\<close> over
    \<^verbatim>\<open>io.Pipe\<close> and the copy back to the client), \<open>Terminal_Pump\<close> (how the two copies
    end a command), \<open>Dispatch\<close> (\<open>dispatchExec\<close>).
  \<^item> \<^verbatim>\<open>internal/sshserver/ifaces.go\<close>: \<open>Ifaces\<close>; \<^verbatim>\<open>server.go\<close> and \<^verbatim>\<open>keys.go\<close>:
    \<open>Ssh_Session\<close> (a session channel with its exec goroutine as a transition system),
    \<open>Ssh_Lifecycle\<close> (the automaton that it implements) and \<open>Ssh_Server\<close> (creation,
    authentication, connections, the key files).
  \<^item> \<^verbatim>\<open>cmd/mactelnet-proxy\<close>: \<open>Command_Line\<close> (flags, environment, \<open>main\<close> and its subcommands).
  \<^item> The standard library, as far as the program's behaviour rests on it: \<open>Text\<close> (UTF-8,
    \<^verbatim>\<open>unicode.IsSpace\<close>, \<^verbatim>\<open>strings\<close>, padding of \<^verbatim>\<open>fmt\<close>), \<open>Flags\<close> (\<^verbatim>\<open>strconv\<close>, \<^verbatim>\<open>flag\<close>,
    \<^verbatim>\<open>time.ParseDuration\<close>), \<open>Paths\<close> (\<^verbatim>\<open>filepath\<close>), \<open>Hash\<close>.
  \<^item> \<open>Prelude\<close> holds the shared types and lemmas; this theory the properties that span
    the discovery, the exec command line and the session.

  \<^bold>\<open>How the code is read.\<close>  A Go \<^verbatim>\<open>string\<close> is an Isabelle string whose characters are its
  bytes, a \<^verbatim>\<open>[]byte\<close> a list of bytes, a sized integer a word, a \<^verbatim>\<open>time.Duration\<close> an \<open>int\<close> of
  nanoseconds with the 64-bit wrap-around written out, an \<^verbatim>\<open>int\<close> that cannot overflow an
  \<open>int\<close>.  A struct is a record with the field names prefixed.  Errors are the datatype
  \<open>err\<close>, whose wrapping keeps the sentinel that \<^verbatim>\<open>errors.Is\<close> looks for; a result that can
  fail is a sum.  A run-time panic is the outcome \<open>Panic\<close>.  State is passed explicitly.  What
  comes from outside (system calls, the clock, random bytes, the network, the file system,
  the order of a map iteration) is an argument, usually a list of answers in order.

  Concurrency is modelled at the granularity of channel operations, packet sends and the
  blocking points: \<open>System.sys_next\<close> for the goroutines of a session and
  \<open>Ssh_Session.handleSession_next\<close> for those of an SSH channel take the label of the goroutine
  that moves; the inductive relations over them give the reachable states.

  \<^bold>\<open>Groups of properties.\<close>  Session: the order of the handshake, its refinement of an abstract
  protocol, the log of everything sent and what a peer makes of it when frames are lost,
  success only on the matching ACK, the descriptors from \<open>Open\<close> to the teardown, reliable
  sending and exactly-once receiving, the bytes from the keyboard to the device and from the
  pipe to the client, the operations computed at one go as runs of the interleaved system.
  Discovery: its result, and that it ends.  Wire formats: round trips of headers, records, frames, announcements,
  authentication packets, MAC texts.  Curve: the points stay on the curve, every outcome of
  the client step.  SSH side: the shell quoting
  of the command line against a reference tokenizer, the prompt against a line editor, exit
  codes and the errors behind them, the life cycle of an exec, who is let in, the host key, the
  precedence of flags.

  \<^bold>\<open>Bounds.\<close>  Loops are structural recursions over what they consume or functions with a
  measure.  \<open>buildRetransmitSchedule\<close> may diverge on the largest budgets and is a partial
  function into \<open>option\<close>; \<open>schedule_meets_budget\<close> shows that it returns for all sane ones.
  \<open>tangle_loop\<close> is bounded by the 2^32 seeds.  \<open>None\<close> as the result of a command, of
  \<open>discover_loop\<close> or of the prompt means that it still waits for input that the given list
  does not hold; \<open>discover_returns\<close> bounds the reads of a discovery, and
  \<open>session_can_end\<close> and \<open>failed_open_releases\<close> state that the way to the end stays open.

  \<^bold>\<open>Not modelled.\<close>  Logging.  The SSH transport and the key formats of
  \<^verbatim>\<open>golang.org/x/crypto/ssh\<close> are parameters (the records \<open>unmarshal\<close> and \<open>ssh_lib\<close>), since that
  package is not part of the repository.  The text of a JSON document and the \<^verbatim>\<open>%q\<close> escapes are left at the level of the value that is printed, and
  the rounding of fractions in \<^verbatim>\<open>time.ParseDuration\<close> is an argument.  An argument of \<open>runServe\<close>
  and of the commands stands for \<^verbatim>\<open>ParseDuration\<close>, so that their properties hold for any.
  What a data race could do (the window size is read by the exec goroutine without
  synchronisation, the outgoing counter by the keepalive loop) is outside the model: the
  value is read at some step of its own.  A descriptor is a number whose later owner is not
  followed; that a goroutine may still send on one that is closed is shown in \<open>Descriptors\<close>.
  The waits of the handshake have no clock of their own: a timeout is a label that may fire
  whenever the goroutine waits.

  \<^bold>\<open>Interfaces.\<close>  What several components rely on is stated as locales: \<open>framing\<close>, \<open>rx_conn\<close>,
  \<open>session_conn\<close>, \<open>curve\<close>, \<open>byte_sink\<close> (what the copy loop needs of its writer) and
  \<open>dropping_channel\<close> (a send that does not wait), each interpreted on the definitions of the
  code.
\<close>

section \<open>From discovery to a session\<close>

lemma hex_digit_ascii: "n < 16 \<Longrightarrow> code (hex_digit n) < 128"
  by (auto simp: hex_digit_def)

lemma ascii_hex2: "ascii (hex2 b)"
proof -
  have "unat b div 16 < 16" using unat_byte_lt [of b] by (simp add: less_mult_imp_div_less)
  then show ?thesis by (simp add: hex2_def hex_digit_ascii)
qed

lemma ascii_formatMAC: "ascii (formatMAC m)"
  by (cases m) (simp add: formatMAC_def ascii_hex2 code_def)

lemma length_decimal_byte: "length (decimal (unat (b :: byte))) \<le> 3"
proof -
  have "length (decimal n) \<le> 3" if "n < 1000" for n
    using that by (subst decimal_step, subst decimal_step, subst decimal_step) (simp add: less_mult_imp_div_less)
  then show ?thesis using unat_byte_lt [of b] by simp
qed

lemma length_ip4_text: "length (ip4_text b) \<le> 15"
  using length_decimal_byte [of "b ! 0"] length_decimal_byte [of "b ! 1"] length_decimal_byte [of "b ! 2"]
    length_decimal_byte [of "b ! 3"] by (simp add: ip4_text_def)

lemma To4_length: "To4 ip = Some ip4 \<Longrightarrow> length ip4 = 4"
  by (auto simp: To4_def split: if_splits)

lemma ip_text_4: "length b = 4 \<Longrightarrow> ip_text b = ip4_text b"
  by (simp add: ip_text_def To4_def)

lemma ascii_ip4_text: "ascii (ip4_text b)"
  by (simp add: ip4_text_def code_def)

lemma address_column:
  "length (nIPv4 (packetToNeighbor pkt src now)) \<le> 15 \<and> ascii (nIPv4 (packetToNeighbor pkt src now))"
  using length_ip4_text ascii_ip4_text
  by (auto simp: packetToNeighbor_def Let_def ip_text_4 dest: To4_length split: option.splits)

lemma pad_formatMAC: "pad_right 17 (formatMAC m) = formatMAC m"
  by (simp add: pad_right_def runes_ascii ascii_formatMAC)

lemma mac_column:
  assumes "nMAC n = formatMAC m" and "length (nIPv4 n) \<le> 15" and "ascii (nIPv4 n)"
  shows "take 17 (drop 16 (mndp_row n)) = formatMAC m"
  using assms ascii_formatMAC [of m] pad_formatMAC [of m] by (simp add: mndp_row_def max_def)

lemma heard_column:
  assumes "(m, n) \<in> set (heard t)"
  shows "take 17 (drop 16 (mndp_row n)) = formatMAC m \<and> nMAC n = formatMAC m \<and> m \<noteq> zero_mac"
proof -
  have "length (nIPv4 n) \<le> 15 \<and> ascii (nIPv4 n)"
    using assms address_column by (auto simp: heard_def split: mndp_read.splits sum.splits if_splits)
  then show ?thesis using mac_column heard_keyed [OF assms] by simp
qed

lemma formatMAC_argument: "quotable (formatMAC m) \<and> positional (formatMAC m)"
proof -
  have "code CHR 0x22 = 34" "code CHR ''-'' = 45" by (simp_all add: code_def)
  moreover have "code (hex_digit n) \<noteq> 34 \<and> code (hex_digit n) \<noteq> 45" if "n < 16" for n
    using that by (auto simp: hex_digit_def)
  ultimately have d: "hex_digit n \<noteq> CHR 0x22 \<and> hex_digit n \<noteq> CHR ''-''" if "n < 16" for n using that by metis
  have h: "unat b div 16 < 16" for b :: byte using unat_byte_lt [of b] by (simp add: less_mult_imp_div_less)
  have "CHR 0x22 \<notin> set (hex2 b) \<and> hd (hex2 b) \<noteq> CHR ''-''" for b
    using d [of "unat b div 16"] d [of "unat b mod 16"] h [of b] by (auto simp: hex2_def)
  then have "CHR 0x22 \<notin> set (formatMAC m) \<and> hd (formatMAC m) \<noteq> CHR ''-'' \<and> formatMAC m \<noteq> []"
    by (cases m) (simp add: formatMAC_def hex2_def)
  then show ?thesis using quotable_ascii [OF ascii_formatMAC] by (simp add: positional_def)
qed

text \<open>
  C11.  A row of the \<^verbatim>\<open>mndp\<close> table can be dialled: whatever was announced in it, columns 17 to
  33 of a row are the address of a device that was heard, and the exec command \<^verbatim>\<open>mactelnet\<close>
  with this text opens a session to exactly that device.
\<close>

theorem discovered_dialable:
  assumes "Discover (Inr ()) bcast start timeout order turns = Some (sent, e, ns)"
    and "map_order (map_of (rev (heard_all (start + timeout) turns))) order" and "n \<in> set ns"
    and "quotable user" and "quotable pass" and "quotable iface" and "user \<noteq> []" and "pass \<noteq> []" and "iface \<noteq> []" and "v \<le> 4094"
  shows "\<exists>m t oc call. t \<in> set turns \<and> (m, n) \<in> set (heard t) \<and> m \<noteq> zero_mac
    \<and> dispatchExec cfg k env (Join (map quote_arg (''mactelnet'' #
        option_args [(''u'', user), (''p'', pass), (''i'', iface), (''vlan'', decimal v)]
        @ [take 17 (drop 16 (mndp_row n))])) '' '') cols rows = Some oc
    \<and> xOpen oc = Some call \<and> parseMAC (ocMac call) = Inr m \<and> ocIface call = iface \<and> unat (ocVlanID call) = v"
proof -
  let ?heard = "heard_all (start + timeout) turns"
  obtain seen dl e0 where "discover_loop (start + timeout) Map.empty [] turns = Some (seen, e0, dl)"
    and ns: "ns = collectNeighbors order seen"
    using assms(1) by (auto simp: Discover_def Let_def split: option.splits)
  then have "seen = map_of (rev ?heard)" using discover_loop_spec by fastforce
  then have "n \<in> ran (map_of (rev ?heard))" using collect_spec(2) [OF keyed_heard assms(2)] assms(3) ns by simp
  then obtain m where "(m, n) \<in> set ?heard" by (auto simp: ran_def dest: map_of_SomeD)
  then obtain t where t: "t \<in> set turns" "(m, n) \<in> set (heard t)"
    by (auto simp: heard_all_def dest: set_takeWhileD)
  have col: "take 17 (drop 16 (mndp_row n)) = formatMAC m" "m \<noteq> zero_mac" using heard_column [OF t(2)] by simp_all
  have v: "unat (of_nat v :: u16) = v" using assms(10) by (simp add: unat_of_nat)
  show ?thesis
    using exec_opens_as_asked [OF assms(4-6) _ assms(7-10), of "formatMAC m" cfg k env cols rows]
      formatMAC_argument [of m] t col v unfolding col(1) by (fastforce simp: parse_format)
qed

theorem discovered_dialable_witness:
  "\<exists>m oc call. dispatchExec sample_config sample_kernel sample_env (Join (map quote_arg (''mactelnet'' #
        option_args [(''u'', ''admin''), (''p'', ''a b''), (''i'', ''eth1''), (''vlan'', decimal 10)]
        @ [take 17 (drop 16 (mndp_row (packetToNeighbor sample_packet (Some (Some [192, 168, 88, 1])) 1)))])) '' '') 80 24 = Some oc
     \<and> xOpen oc = Some call \<and> parseMAC (ocMac call) = Inr m \<and> m \<noteq> zero_mac \<and> ocIface call = ''eth1''"
proof -
  let ?ts = "[sample_turn 1, sample_turn second]"
  let ?n = "packetToNeighbor sample_packet (Some (Some [192, 168, 88, 1])) 1"
  have act: "active second (sample_turn 1)" "\<not> active second (sample_turn second)"
    by (simp_all add: active_def sample_turn_def second_def)
  have h: "heard_all (0 + second) ?ts = [(Mac 2 0 0 0 0 9, ?n)]"
    by (simp add: heard_all_def act sample_heard)
  have o: "map_order (map_of (rev (heard_all (0 + second) ?ts))) [Mac 2 0 0 0 0 9]"
    unfolding h by (simp add: map_order_def)
  have "discover_loop (0 + second) Map.empty [] ?ts = Some (map_of (rev (heard_all (0 + second) ?ts)), None, [min (1 + 500 * millisecond) second])"
    unfolding h
    by (simp add: sample_turn_def sample_parse sample_mac zero_mac_def second_def millisecond_def mndp_read_deadline_def)
  then obtain ns where d: "Discover (Inr ()) (Inl BcastNoIPv4) 0 second [Mac 2 0 0 0 0 9] ?ts = Some ([], None, ns)"
    and ns: "ns = collectNeighbors [Mac 2 0 0 0 0 9] (map_of (rev (heard_all (0 + second) ?ts)))"
    by (simp add: Discover_def)
  have n: "?n \<in> set ns" unfolding ns h by (simp add: collectNeighbors_def)
  have q: "quotable ''admin''" "quotable ''a b''" "quotable ''eth1''" by (rule quotable_ascii; simp add: code_def)+
  from discovered_dialable [OF d o n q, of 10 sample_config sample_kernel sample_env 80 24]
  show ?thesis by auto
qed

section \<open>From the command line to the device\<close>

text \<open>
  C14.  An exec command without \<^verbatim>\<open>-p\<close>, from the request to the wire: the session is opened to
  the device that was named, with the line typed at the prompt as the password; and when the
  copy from the channel ends, the device has read every byte that was typed after that line,
  in order and once, whatever the reads of the channel, the acknowledgements and the
  retransmissions were.  The one byte that may differ is a line feed behind the carriage
  return that ended the line.
\<close>

theorem typed_keys_reach_device:
  assumes "quotable user" and "quotable mac" and "user \<noteq> []" and "positional mac"
    and "cfIface cfg \<noteq> []" and "unat (cfVlanID cfg) \<le> 4094"
    and "ePromptAnswer env = None" and "ePromptSel env = SelResult"
    and "Prompt.pending (eInput env) = xs @ t # keys" and "line_bytes xs" and "line_edit xs [] = Some pw" and "t = CR \<or> t = LF"
    and "call = \<lparr>ocIface = cfIface cfg, ocMac = mac, ocUser = user, ocPassword = string_of_bytes pw,
        ocCols = ucast cols, ocRows = ucast rows, ocVlanID = cfVlanID cfg\<rparr>"
    and "eOpen env call = None"
  shows "\<exists>oc r. dispatchExec cfg k env (Join (map quote_arg (''mactelnet'' # option_args [(''u'', user)] @ [mac])) '' '') cols rows
        = Some oc
    \<and> xOpen oc = Some call \<and> xClosed oc = 1 \<and> xInput oc = Some r
    \<and> (io_Copy scfg s r atts = Some (None, s') \<longrightarrow>
        (let got = fst (peer_at (length (sSent s)) (ctOut (sCounters s)) s')
         in got = keys \<or> t = CR \<and> keys = LF # got))"
proof -
  obtain oc where oc: "dispatchExec cfg k env (Join (map quote_arg (''mactelnet'' # option_args [(''u'', user)] @ [mac])) '' '') cols rows
        = Some oc" "xOpen oc = Some call"
    and input: "eOpen env (the (xOpen oc)) = None \<longrightarrow>
        (\<exists>r. xInput oc = Some r \<and> xClosed oc = 1 \<and> (concat (copied r) = keys \<or> t = CR \<and> keys = LF # concat (copied r)))"
    by (rule exE [OF exec_prompted_session [OF assms(1-12), of k cols rows, folded assms(13)]], elim conjE, rule that)
  then obtain r where r: "xInput oc = Some r" "xClosed oc = 1" "upcoming r = keys \<or> t = CR \<and> keys = LF # upcoming r"
    using assms(14) by (auto simp: concat_copied)
  then show ?thesis using oc io_Copy_reaches_peer [of scfg s r atts s']
    by (intro exI [of _ oc] exI [of _ r]) (simp add: Let_def)
qed


theorem typed_keys_reach_device_witness:
  "\<exists>oc s'. dispatchExec sample_config sample_kernel (sample_env\<lparr>eInput := [Data [0x61, 13], Data [1, 2, 3], ReadFail EOF]\<rparr>)
       (Join (map quote_arg [''mactelnet'', ''-u'', ''admin'', ''00:11:22:33:44:55'']) '' '') 80 24 = Some oc
     \<and> io_Copy sample_cfg sample_session (the (xInput oc)) [(None, [(0, [(1, GotAck 3)], None)])] = Some (None, s')
     \<and> fst (peer_at 0 0 s') = [1, 2, 3]"
proof -
  let ?src = "[Data [1, 2, 3], ReadFail EOF]" and ?acks = "[(None, [(0, [(1, GotAck 3)], None)])]"
  let ?env = "sample_env\<lparr>eInput := Data [0x61, 13] # ?src\<rparr>"
  let ?call = "\<lparr>ocIface = ''eth0'', ocMac = ''00:11:22:33:44:55'', ocUser = ''admin'', ocPassword = ''a'',
    ocCols = 80, ocRows = 24, ocVlanID = 0\<rparr>"
  have q: "quotable ''admin''" "quotable ''00:11:22:33:44:55''"
    by (rule quotable_ascii; simp add: code_def)+
  have pw: "line_bytes [0x61]" "line_edit [0x61] [] = Some [0x61]" "string_of_bytes [0x61] = ''a''"
    by (simp_all add: line_bytes_def CR_def LF_def prompt_edit_def passwordMaxLen_def string_of_bytes_def char_of_def bit_0)
  have "prompt_loop (NewReader (Data ([0x61] @ [CR]) # ?src)) [] = Some (Inr (string_of_bytes [0x61]), NewReader ?src)"
    using prompt_loop_buffered [OF pw(1,2), of CR "[]" ?src]
    by (simp add: NewReader_def prompt_loop_chunk absorb_LF_def)
  then have read: "prompt_loop (NewReader (Data [0x61, 13] # ?src)) [] = Some (Inr ''a'', NewReader ?src)"
    by (simp add: CR_def pw(3))
  obtain s' where run: "io_Copy sample_cfg sample_session (NewReader ?src) ?acks = Some (None, s')" using sample_typed by blast
  have opened: "eOpen ?env ?call = None" by (simp add: sample_env_def)
  have fresh: "length (sSent sample_session) = 0" by (simp add: sample_session_def new_session_def)
  obtain oc r where oc: "dispatchExec sample_config sample_kernel ?env
       (Join (map quote_arg [''mactelnet'', ''-u'', ''admin'', ''00:11:22:33:44:55'']) '' '') 80 24 = Some oc" "xInput oc = Some r"
    and got: "io_Copy sample_cfg sample_session r ?acks = Some (None, s') \<longrightarrow>
        (let got = fst (peer_at 0 0 s') in got = [1, 2, 3] \<or> CR = CR \<and> [1, 2, 3] = LF # got)"
    using typed_keys_reach_device [OF q, of sample_config ?env "[0x61]" CR "[1, 2, 3]" "[0x61]" ?call 80 24
        sample_kernel sample_cfg sample_session ?acks s'] pw opened fresh
    by (force simp: option_args_def positional_def sample_config_def sample_env_def CR_def LF_def sample_ctOut)
  have "\<forall>a \<in> set (option_args [(''u'', ''admin'')] @ [''00:11:22:33:44:55'']). quotable a"
    using q quotable_words by (simp add: option_args_def)
  note d = dispatch_mactelnet [OF this, of sample_config sample_kernel ?env 80 24]
  have "xInput (the (dispatchExec sample_config sample_kernel ?env
       (Join (map quote_arg (''mactelnet'' # option_args [(''u'', ''admin'')] @ [''00:11:22:33:44:55''])) '' '') 80 24))
      = Some (NewReader ?src)"
    unfolding d using mactelnet_request_prompted [of "''admin''" sample_config "''00:11:22:33:44:55''"] read
    by (simp add: sample_env_def sample_config_def positional_def execMactelnet_def mactelnet_password_def mactelnet_open_def
        readPasswordPrompt_def readPasswordPromptWithTimeout_def pump_exit_def out_text_def Let_def)
  then have "r = NewReader ?src" using oc by (simp add: option_args_def)
  then show ?thesis using oc got run by (intro exI [of _ oc] exI [of _ s']) (simp add: Let_def LF_def)
qed

end
